(* ===== verification/Prelude.thy ===== *)
theory Prelude
  imports Main "HOL-Library.Word" "HOL-Library.Monad_Syntax"
begin

text \<open>
  Shared vocabulary of the development: the machine integers of the code
  (\<open>uint8_t\<close> to \<open>uint64_t\<close> as words), C arrays of bytes as lists, C strings as the
  bytes before the first NUL, the few \<open>string.h\<close> functions the sources use, and the
  generic list lemmas the components share.

  A definition of type \<open>_ option\<close> that models a C function returns \<^const>\<open>None\<close> exactly
  when the C function fails an assertion, calls \<open>abort()\<close> or would access memory it does not
  own. A theorem that such a definition returns \<^const>\<open>Some\<close> is therefore a memory or
  assertion safety statement.
\<close>

unbundle bit_operations_syntax

type_synonym byte = "8 word"
type_synonym u16 = "16 word"
type_synonym u32 = "32 word"
type_synonym u64 = "64 word"

named_theorems option_simps \<open>evaluation of chains of possibly failing calls\<close>

lemmas [option_simps] = Option.bind_eq_Some_conv Option.bind_eq_None_conv

section \<open>C arrays and C strings\<close>

text \<open>The C string stored in an array: the bytes before the first NUL.\<close>

definition cstr :: "byte list \<Rightarrow> byte list" where
  "cstr xs = takeWhile (\<lambda>b. b \<noteq> 0) xs"

definition strlen :: "byte list \<Rightarrow> nat" where
  "strlen xs = length (cstr xs)"

text \<open>\<open>strcmp(a, b) == 0\<close>\<close>

definition strcmp_eq :: "byte list \<Rightarrow> byte list \<Rightarrow> bool" where
  "strcmp_eq a b \<longleftrightarrow> cstr a = cstr b"

text \<open>\<open>tolower\<close> of the C locale\<close>

definition tolower :: "byte \<Rightarrow> byte" where
  "tolower b = (if 65 \<le> b \<and> b \<le> 90 then b + 32 else b)"

text \<open>\<open>memcpy(arr + off, xs, n)\<close> for a list of \<open>n\<close> bytes\<close>

definition memcpy_at :: "byte list \<Rightarrow> nat \<Rightarrow> byte list \<Rightarrow> byte list" where
  "memcpy_at arr off xs = take off arr @ xs @ drop (off + length xs) arr"

text \<open>\<open>strncpy(dst, src, n)\<close>: copies the string, padding with NUL up to \<open>n\<close> bytes.\<close>

definition strncpy :: "byte list \<Rightarrow> byte list \<Rightarrow> nat \<Rightarrow> byte list" where
  "strncpy dst src n =
     (let s = take n (cstr src) in memcpy_at dst 0 (s @ replicate (n - length s) 0))"

text \<open>A string literal of the sources as bytes.\<close>

definition ascii :: "string \<Rightarrow> byte list" where
  "ascii s = map of_char s"

lemma cstr_Nil [simp]: "cstr [] = []"
  by (simp add: cstr_def)

lemma cstr_Cons [simp]: "cstr (b # bs) = (if b = 0 then [] else b # cstr bs)"
  by (simp add: cstr_def)

lemma length_strncpy: "n \<le> length dst \<Longrightarrow> length (strncpy dst src n) = length dst"
  by (simp add: strncpy_def memcpy_at_def Let_def)

lemma cstr_no_nul: "0 \<notin> set xs \<Longrightarrow> cstr xs = xs"
  by (induction xs) auto

lemma cstr_append_nul: "cstr (xs @ 0 # ys) = cstr xs"
  by (induction xs) auto

lemma cstr_append: "0 \<notin> set xs \<Longrightarrow> cstr (xs @ ys) = xs @ cstr ys"
  by (induction xs) auto

lemma nul_notin_cstr [simp]: "0 \<notin> set (cstr xs)"
  by (induction xs) auto

lemma cstr_idem [simp]: "cstr (cstr xs) = cstr xs"
  by (simp add: cstr_no_nul)

lemma length_cstr_le: "length (cstr xs) \<le> length xs"
  by (induction xs) auto

lemma strlen_no_nul: "0 \<notin> set xs \<Longrightarrow> strlen xs = length xs"
  by (simp add: strlen_def cstr_no_nul)

lemma length_memcpy_at [simp]:
  "off + length xs \<le> length arr \<Longrightarrow> length (memcpy_at arr off xs) = length arr"
  by (simp add: memcpy_at_def)

lemma memcpy_at_0: "memcpy_at arr 0 xs = xs @ drop (length xs) arr"
  by (simp add: memcpy_at_def)

lemma cstr_memcpy_nul: "cstr (memcpy_at arr 0 (xs @ [0])) = cstr xs"
  by (simp add: memcpy_at_0 cstr_append_nul)

lemma memcpy_at_Nil [simp]: "memcpy_at arr i [] = arr"
  by (simp add: memcpy_at_def)

lemma memcpy_at_snoc:
  "length xs < length arr \<Longrightarrow> (memcpy_at arr 0 xs)[length xs := b] = memcpy_at arr 0 (xs @ [b])"
  by (simp add: memcpy_at_0 list_update_append Cons_nth_drop_Suc [symmetric])

lemma nul_after_memcpy:
  assumes "length xs = n" and "n < length arr"
  shows "take n ((memcpy_at arr 0 xs)[n := v]) = xs" and "(memcpy_at arr 0 xs)[n := v] ! n = v"
  using assms by (simp_all add: memcpy_at_0)

section \<open>Lists\<close>

lemma take_update_snoc:
  "n < length xs \<Longrightarrow> take (Suc n) (xs[n := x]) = take n xs @ [x]"
  by (simp add: take_Suc_conv_app_nth)

lemma cstr_take_nul:
  assumes "n < length xs" and "xs ! n = 0"
  shows "cstr xs = cstr (take n xs)"
  using id_take_nth_drop [OF assms(1)] assms(2) cstr_append_nul by metis

lemma take_append_drop_length:
  "length xs = n \<Longrightarrow> take n (xs @ ys) = xs \<and> drop n (xs @ ys) = ys"
  by simp

section \<open>Words\<close>

lemma unat_byte_lt [simp]: "unat (b :: byte) < 256"
  using unsigned_less [where 'a = nat, of b] by simp

lemma unat_byte_le [simp]: "unat (b :: byte) \<le> 256"
  by (rule less_imp_le) (rule unat_byte_lt)

lemma unat_byte_Suc:
  "unat (b :: byte) < 255 \<Longrightarrow> unat (b + 1) = Suc (unat b)"
  by (simp add: unat_word_ariths)

lemma unat_byte_pred:
  "(b :: byte) \<noteq> 0 \<Longrightarrow> unat (b - 1) = unat b - 1"
  by (rule unat_minus_one)

lemma unat_of_nat_byte: "n < 256 \<Longrightarrow> unat (of_nat n :: byte) = n"
  by (simp add: unat_of_nat)

lemma of_nat_byte_Suc_eq_iff:
  "Suc n < 256 \<Longrightarrow> of_nat n + 1 = (b :: byte) \<longleftrightarrow> Suc n = unat b"
proof -
  assume "Suc n < 256"
  then have "unat (of_nat (Suc n) :: byte) = Suc n" by (rule unat_of_nat_byte)
  then show ?thesis by (metis of_nat_Suc add.commute word_eq_iff_unsigned)
qed

lemma byte_eq_of_nat_iff:
  "n < 256 \<Longrightarrow> (b :: byte) = of_nat n \<longleftrightarrow> unat b = n"
  using unat_of_nat_byte [of n] by (auto simp: word_eq_iff_unsigned)

section \<open>Bytes of a word\<close>

lemma shift_or_byte:
  "push_bit 8 v OR ucast (b :: byte) = (256 * v + ucast b :: 'a :: len word)"
proof -
  have "push_bit 8 v AND ucast b = 0"
    by (rule bit_word_eqI) (auto simp: bit_simps dest: bit_imp_le_length)
  then show ?thesis
    using disjunctive_add_eq_or [of "push_bit 8 v" "ucast b"] by (simp add: push_bit_eq_mult mult.commute)
qed

text \<open>The two bytes of a 16-bit value in network order.\<close>

definition be16 :: "byte \<Rightarrow> byte \<Rightarrow> u16" where
  "be16 hi lo = of_nat (256 * unat hi + unat lo)"

lemma shift_or_be16: "push_bit 8 (ucast hi) OR ucast lo = be16 hi lo"
  by (simp add: shift_or_byte be16_def unsigned_ucast_eq word_eq_iff_unsigned
      unsigned_of_nat unat_word_ariths take_bit_eq_mod)

text \<open>The bytes of a word in network order.\<close>

definition bytes16 :: "u16 \<Rightarrow> byte list" where
  "bytes16 v = [ucast (drop_bit 8 v), ucast v]"

definition bytes32 :: "u32 \<Rightarrow> byte list" where
  "bytes32 v = [ucast (drop_bit 24 v), ucast (drop_bit 16 v), ucast (drop_bit 8 v), ucast v]"

definition bytes64 :: "u64 \<Rightarrow> byte list" where
  "bytes64 v = map (\<lambda>i. ucast (drop_bit (i * 8) v)) [7, 6, 5, 4, 3, 2, 1, 0]"

lemma length_bytes [simp]:
  "length (bytes16 v) = 2" "length (bytes32 w) = 4" "length (bytes64 x) = 8"
  by (simp_all add: bytes16_def bytes32_def bytes64_def)

lemma ucast_low_byte: "ucast ((v :: 'a :: len word) AND 0xFF) = (ucast v :: byte)"
proof -
  have mask: "(0xFF :: 'a word) = mask 8" by (simp add: mask_eq_exp_minus_1)
  show ?thesis
    unfolding mask by (rule bit_word_eqI) (auto simp: bit_simps dest: bit_imp_le_length simp flip: mask_eq_exp_minus_1)
qed

lemma bytes32_join:
  "push_bit 24 (ucast (ucast (drop_bit 24 v) :: byte)) OR
   push_bit 16 (ucast (ucast (drop_bit 16 v) :: byte)) OR
   push_bit 8 (ucast (ucast (drop_bit 8 v) :: byte)) OR ucast (ucast v :: byte) = (v :: u32)"
  (is "?w = v")
proof (rule bit_word_eqI)
  fix n assume n: "n < LENGTH(32)"
  then consider "n < 8" | "8 \<le> n" "n < 16" | "16 \<le> n" "n < 24" | "24 \<le> n" "n < 32" by fastforce
  then show "bit ?w n \<longleftrightarrow> bit v n"
    by cases (simp_all add: bit_simps, linarith+)
qed

lemma bytes32_split:
  "bytes32 (push_bit 24 (ucast a) OR push_bit 16 (ucast b) OR push_bit 8 (ucast c) OR ucast d) = [a, b, c, d]"
proof -
  have "ucast (drop_bit 24 (push_bit 24 (ucast a) OR push_bit 16 (ucast b) OR push_bit 8 (ucast c) OR ucast d :: u32)) = a"
    "ucast (drop_bit 16 (push_bit 24 (ucast a) OR push_bit 16 (ucast b) OR push_bit 8 (ucast c) OR ucast d :: u32)) = b"
    "ucast (drop_bit 8 (push_bit 24 (ucast a) OR push_bit 16 (ucast b) OR push_bit 8 (ucast c) OR ucast d :: u32)) = c"
    "ucast (push_bit 24 (ucast a) OR push_bit 16 (ucast b) OR push_bit 8 (ucast c) OR ucast d :: u32) = d"
    by (rule bit_word_eqI; auto simp: bit_simps dest: bit_imp_le_length)+
  then show ?thesis by (simp add: bytes32_def)
qed

lemma bytes32_surj: "length s = 4 \<Longrightarrow> \<exists>v. bytes32 v = s"
  using bytes32_split by (auto simp: length_Suc_conv numeral_eq_Suc) blast

section \<open>Decimal numbers\<close>

definition isspace :: "byte \<Rightarrow> bool" where
  "isspace b \<longleftrightarrow> b = 32 \<or> (9 \<le> b \<and> b \<le> 13)"

definition isdigit :: "byte \<Rightarrow> bool" where
  "isdigit b \<longleftrightarrow> 48 \<le> b \<and> b \<le> 57"

fun digits_value :: "nat \<Rightarrow> byte list \<Rightarrow> nat" where
  "digits_value acc [] = acc"
| "digits_value acc (d # ds) = digits_value (10 * acc + (unat d - 48)) ds"

text \<open>The sign and the digits \<open>strtol\<close> and \<open>strtoul\<close> find at the beginning of a string, and what
  is left; \<^const>\<open>None\<close> when there is no number (the end pointer is then the string itself).\<close>

definition scan_number :: "byte list \<Rightarrow> (bool \<times> nat \<times> byte list) option" where
  "scan_number s =
     (let t = dropWhile isspace (cstr s);
          neg = (t \<noteq> [] \<and> hd t = 45);
          t = (if t \<noteq> [] \<and> (hd t = 45 \<or> hd t = 43) then tl t else t);
          ds = takeWhile isdigit t
      in if ds = [] then None else Some (neg, digits_value 0 ds, dropWhile isdigit t))"

text \<open>\<open>strtoul(s, NULL, 10)\<close>: saturates, and negates modulo \<open>2 ^ 64\<close> after a minus sign.\<close>

definition strtoul :: "byte list \<Rightarrow> u64" where
  "strtoul s =
     (case scan_number s of
        None \<Rightarrow> 0
      | Some (neg, n, rest) \<Rightarrow>
          if 2 ^ 64 \<le> n then -1 else if neg then - of_nat n else of_nat n)"

text \<open>\<open>strtol(s, &end, 10)\<close> as value, saturated, and rest of the string.\<close>

definition strtol :: "byte list \<Rightarrow> (int \<times> byte list) option" where
  "strtol s =
     map_option (\<lambda>(neg, n, rest).
        (if neg then max (- (2 ^ 63)) (- int n) else min (2 ^ 63 - 1) (int n), rest))
      (scan_number s)"

text \<open>\<open>"%u"\<close>: the decimal digits of a number\<close>

fun show_nat :: "nat \<Rightarrow> byte list" where
  "show_nat n = (if n < 10 then [of_nat (48 + n)] else show_nat (n div 10) @ [of_nat (48 + n mod 10)])"

declare show_nat.simps [simp del]

lemma length_show_nat: "n < 10 ^ Suc k \<Longrightarrow> length (show_nat n) \<le> Suc k"
proof (induction k arbitrary: n)
  case (Suc k)
  have "n div 10 < 10 ^ Suc k" using Suc.prems by (simp add: less_mult_imp_div_less)
  from Suc.IH [OF this] show ?case by (simp add: show_nat.simps [of n])
qed (simp add: show_nat.simps)

lemma show_nat_digits: "b \<in> set (show_nat n) \<Longrightarrow> isdigit b"
proof (induction n rule: show_nat.induct)
  case (1 n)
  have digit: "isdigit (of_nat (48 + m))" if "m < 10" for m
    using that unat_of_nat_byte [of "48 + m"]
    by (simp add: isdigit_def word_le_nat_alt del: of_nat_add)
  from 1 show ?case
    using digit [of n] digit [of "n mod 10"] by (subst (asm) show_nat.simps) (auto split: if_splits)
qed

lemma show_nat_no_nul: "0 \<notin> set (show_nat n)"
  using show_nat_digits [of 0 n] by (auto simp: isdigit_def)

lemma digits_value_append: "digits_value acc (xs @ ys) = digits_value (digits_value acc xs) ys"
  by (induction acc xs rule: digits_value.induct) simp_all

lemma digits_value_show: "digits_value 0 (show_nat n) = n"
proof (induction n rule: show_nat.induct)
  case (1 n)
  have "unat (of_nat (48 + m) :: byte) = 48 + m" if "m < 10" for m
    using that by (intro unat_of_nat_byte) simp
  from this [of n] this [of "n mod 10"] 1 show ?case
    by (subst show_nat.simps) (simp add: digits_value_append)
qed

end
