(* ===== verification/Buffer.thy ===== *)
theory Buffer
  imports Prelude
begin

text \<open>
  \<open>src/buffer.h\<close>, \<open>src/buffer.c\<close>: the I/O buffer with a read and a write pointer. The
  pointers are offsets from \<open>data\<close>; \<open>assert\<close> is \<^const>\<open>None\<close>. The buffer is shown to be a
  bounded FIFO queue of bytes: \<open>buf_contents\<close> is the abstraction, \<open>buf_inv\<close> the invariant
  (the one of the header comment, plus the fact that an empty buffer is always compacted).
  Two interfaces, \<open>byte_source\<close> and \<open>byte_sink\<close>, state what the rest of the program relies on.
\<close>

section \<open>The code\<close>

record buffer =
  b_data :: "byte list"
  b_limit :: nat
  b_read :: nat
  b_write :: nat

definition buffer_reset :: "buffer \<Rightarrow> buffer" where
  "buffer_reset b = b\<lparr>b_read := 0, b_write := 0\<rparr>"

definition buffer_init :: "nat \<Rightarrow> byte list \<Rightarrow> buffer" where
  "buffer_init n d = \<lparr>b_data = d, b_limit = n, b_read = 0, b_write = 0\<rparr>"

definition buffer_can_write :: "buffer \<Rightarrow> bool" where
  "buffer_can_write b \<longleftrightarrow> int (b_limit b) - int (b_write b) > 0"

text \<open>The pointer (an offset) and, in \<open>*nbyte\<close>, the bytes that fit behind it.\<close>

definition buffer_write_ptr :: "buffer \<Rightarrow> (nat \<times> nat) option" where
  "buffer_write_ptr b =
     (if b_write b \<le> b_limit b then Some (b_write b, b_limit b - b_write b) else None)"

definition buffer_can_read :: "buffer \<Rightarrow> bool" where
  "buffer_can_read b \<longleftrightarrow> int (b_write b) - int (b_read b) > 0"

definition buffer_read_ptr :: "buffer \<Rightarrow> (nat \<times> nat) option" where
  "buffer_read_ptr b =
     (if b_read b \<le> b_write b then Some (b_read b, b_write b - b_read b) else None)"

definition buffer_write_adv :: "buffer \<Rightarrow> int \<Rightarrow> buffer option" where
  "buffer_write_adv b bytes =
     (if bytes > -1
      then let b = b\<lparr>b_write := b_write b + nat bytes\<rparr>
           in if b_write b \<le> b_limit b then Some b else None
      else Some b)"

text \<open>\<open>memmove(b->data, b->read, n)\<close> in the third branch\<close>

definition buffer_compact :: "buffer \<Rightarrow> buffer" where
  "buffer_compact b =
     (if b_read b = 0 then b
      else if b_read b = b_write b then b\<lparr>b_read := 0, b_write := 0\<rparr>
      else let n = b_write b - b_read b
           in b\<lparr>b_data := memcpy_at (b_data b) 0 (take n (drop (b_read b) (b_data b))),
                b_read := 0, b_write := n\<rparr>)"

definition buffer_read_adv :: "buffer \<Rightarrow> int \<Rightarrow> buffer option" where
  "buffer_read_adv b bytes =
     (if bytes > -1
      then let b = b\<lparr>b_read := b_read b + nat bytes\<rparr>
           in if b_read b \<le> b_write b
              then Some (if b_read b = b_write b then buffer_compact b else b)
              else None
      else Some b)"

definition buffer_read :: "buffer \<Rightarrow> (byte \<times> buffer) option" where
  "buffer_read b =
     (if buffer_can_read b
      then let ret = b_data b ! b_read b
           in map_option (\<lambda>b'. (ret, b')) (buffer_read_adv b 1)
      else Some (0, b))"

definition buffer_write :: "buffer \<Rightarrow> byte \<Rightarrow> buffer option" where
  "buffer_write b c =
     (if buffer_can_write b
      then buffer_write_adv (b\<lparr>b_data := (b_data b)[b_write b := c]\<rparr>) 1
      else Some b)"

text \<open>A run of calls \<open>buffer_write(b, c)\<close>, as the serialisers make them.\<close>

fun buffer_write_list :: "buffer \<Rightarrow> byte list \<Rightarrow> buffer option" where
  "buffer_write_list b [] = Some b"
| "buffer_write_list b (c # cs) = do { b \<leftarrow> buffer_write b c; buffer_write_list b cs }"

text \<open>What a system call that was given the pointer \<open>p\<close> leaves in the memory behind it.\<close>

definition buffer_poke :: "buffer \<Rightarrow> nat \<Rightarrow> byte list \<Rightarrow> buffer" where
  "buffer_poke b p bs = b\<lparr>b_data := memcpy_at (b_data b) p bs\<rparr>"

text \<open>The bytes a system call reads behind the pointer \<open>p\<close>.\<close>

definition buffer_peek :: "buffer \<Rightarrow> nat \<Rightarrow> nat \<Rightarrow> byte list" where
  "buffer_peek b p n = take n (drop p (b_data b))"

section \<open>Abstraction and invariant\<close>

definition buf_contents :: "buffer \<Rightarrow> byte list" where
  "buf_contents b = take (b_write b - b_read b) (drop (b_read b) (b_data b))"

definition buf_inv :: "buffer \<Rightarrow> bool" where
  "buf_inv b \<longleftrightarrow> b_read b \<le> b_write b \<and> b_write b \<le> b_limit b \<and> b_limit b = length (b_data b)
     \<and> (b_read b = b_write b \<longrightarrow> b_read b = 0)"

text \<open>The bytes that can still be written without compaction.\<close>

definition buf_room :: "buffer \<Rightarrow> nat" where
  "buf_room b = b_limit b - b_write b"

lemmas buffer_defs = buffer_reset_def buffer_init_def buffer_can_write_def buffer_write_ptr_def
  buffer_can_read_def buffer_read_ptr_def buffer_write_adv_def buffer_compact_def
  buffer_read_adv_def buffer_read_def buffer_write_def buffer_poke_def buffer_peek_def

lemmas buf_defs = buf_contents_def buf_inv_def buf_room_def

lemma buf_init [simp]:
  "length d = n \<Longrightarrow> buf_inv (buffer_init n d)"
  "buf_contents (buffer_init n d) = []"
  "buf_room (buffer_init n d) = n"
  "b_limit (buffer_init n d) = n"
  by (auto simp: buffer_defs buf_defs)

lemma buf_reset [simp]:
  "buf_inv b \<Longrightarrow> buf_inv (buffer_reset b)"
  "buf_contents (buffer_reset b) = []"
  "buf_room (buffer_reset b) = b_limit b"
  "b_limit (buffer_reset b) = b_limit b"
  by (auto simp: buffer_defs buf_defs)

lemma length_buf_contents: "buf_inv b \<Longrightarrow> length (buf_contents b) = b_write b - b_read b"
  by (auto simp: buf_defs)

lemma buf_can_read: "buf_inv b \<Longrightarrow> buffer_can_read b \<longleftrightarrow> buf_contents b \<noteq> []"
  by (auto simp: buffer_defs buf_defs)

lemma buf_can_write: "buf_inv b \<Longrightarrow> buffer_can_write b \<longleftrightarrow> buf_room b > 0"
  by (auto simp: buffer_defs buf_defs)

lemma buf_read_ptr:
  "buf_inv b \<Longrightarrow> buffer_read_ptr b = Some (b_read b, length (buf_contents b))"
  by (auto simp: buffer_defs buf_defs)

lemma buf_write_ptr:
  "buf_inv b \<Longrightarrow> buffer_write_ptr b = Some (b_write b, buf_room b)"
  by (auto simp: buffer_defs buf_defs)

lemma buf_peek: "buf_inv b \<Longrightarrow> buffer_peek b (b_read b) (length (buf_contents b)) = buf_contents b"
  by (simp only: length_buf_contents) (simp add: buffer_peek_def buf_contents_def)

text \<open>\<open>buffer_read_adv\<close>: consuming a prefix; the auto-compaction does not change the contents.\<close>

lemma buf_read_adv:
  assumes "buf_inv b" and "n \<le> length (buf_contents b)"
  shows "\<exists>b'. buffer_read_adv b (int n) = Some b' \<and> buf_inv b'
     \<and> buf_contents b' = drop n (buf_contents b) \<and> b_limit b' = b_limit b"
  using assms by (auto simp: buffer_defs buf_defs Let_def drop_take add.commute)

lemma buf_read_adv_too_much:
  assumes "buf_inv b" and "length (buf_contents b) < n"
  shows "buffer_read_adv b (int n) = None"
  using assms by (auto simp: buffer_read_adv_def length_buf_contents Let_def)

lemma buf_read:
  assumes "buf_inv b" and "buf_contents b = x # xs"
  shows "\<exists>b'. buffer_read b = Some (x, b') \<and> buf_inv b' \<and> buf_contents b' = xs
     \<and> b_limit b' = b_limit b"
proof -
  have "buffer_can_read b" using assms by (simp add: buf_can_read)
  moreover have "b_data b ! b_read b = x"
    using assms(2) unfolding buf_contents_def
    by (cases "drop (b_read b) (b_data b)") (auto simp: take_Cons' nth_via_drop split: if_splits)
  moreover obtain b' where "buffer_read_adv b 1 = Some b'" "buf_inv b'" "buf_contents b' = xs"
    "b_limit b' = b_limit b"
    using buf_read_adv [of b 1] assms by auto
  ultimately show ?thesis by (auto simp: buffer_read_def)
qed

text \<open>A receive of \<open>bs\<close> at the write pointer, followed by \<open>buffer_write_adv\<close>.\<close>

lemma buf_poke_adv:
  assumes "buf_inv b" and "length bs \<le> buf_room b" and "bs \<noteq> []"
  shows "\<exists>b'. buffer_write_adv (buffer_poke b (b_write b) bs) (int (length bs)) = Some b'
     \<and> buf_inv b' \<and> buf_contents b' = buf_contents b @ bs
     \<and> buf_room b' = buf_room b - length bs \<and> b_limit b' = b_limit b"
  using assms
  by (auto simp: buffer_defs buf_defs memcpy_at_def Suc_diff_le simp flip: drop_take)

lemma buf_write:
  assumes "buf_inv b" and "0 < buf_room b"
  shows "\<exists>b'. buffer_write b c = Some b' \<and> buf_inv b'
     \<and> buf_contents b' = buf_contents b @ [c] \<and> buf_room b' = buf_room b - 1
     \<and> b_limit b' = b_limit b"
proof -
  have "(b_data b)[b_write b := c] = memcpy_at (b_data b) (b_write b) [c]"
    using assms by (simp add: memcpy_at_def upd_conv_take_nth_drop buf_defs)
  then have "buffer_write b c = buffer_write_adv (buffer_poke b (b_write b) [c]) (int (length [c]))"
    using assms by (simp add: buffer_write_def buf_can_write buffer_poke_def)
  then show ?thesis using buf_poke_adv [of b "[c]"] assms by simp
qed

lemma buf_write_full: "buf_inv b \<Longrightarrow> buf_room b = 0 \<Longrightarrow> buffer_write b c = Some b"
  by (simp add: buffer_write_def buf_can_write)

lemma buffer_write_list_limit: "buffer_write_list b cs = Some b' \<Longrightarrow> b_limit b' = b_limit b"
proof (induction b cs rule: buffer_write_list.induct)
  case (2 b c cs)
  have "b_limit b1 = b_limit b" if "buffer_write b c = Some b1" for b1
    using that by (auto simp: buffer_write_def buffer_write_adv_def Let_def split: if_splits)
  with 2 show ?case by (auto simp: option_simps)
qed simp

section \<open>The interfaces the rest of the program uses\<close>

text \<open>Bytes are taken from a source in the order of its contents.\<close>

locale byte_source =
  fixes inv :: "'b \<Rightarrow> bool"
    and contents :: "'b \<Rightarrow> byte list"
    and can_read :: "'b \<Rightarrow> bool"
    and get :: "'b \<Rightarrow> (byte \<times> 'b) option"
  assumes can_read: "inv b \<Longrightarrow> can_read b \<longleftrightarrow> contents b \<noteq> []"
    and get: "inv b \<Longrightarrow> contents b = x # xs \<Longrightarrow>
      \<exists>b'. get b = Some (x, b') \<and> inv b' \<and> contents b' = xs"

text \<open>Bytes are appended to a sink while it has room, and dropped afterwards.\<close>

locale byte_sink =
  fixes inv :: "'b \<Rightarrow> bool"
    and contents :: "'b \<Rightarrow> byte list"
    and room :: "'b \<Rightarrow> nat"
    and put :: "'b \<Rightarrow> byte \<Rightarrow> 'b option"
    and put_list :: "'b \<Rightarrow> byte list \<Rightarrow> 'b option"
  assumes put: "inv b \<Longrightarrow> 0 < room b \<Longrightarrow>
      \<exists>b'. put b c = Some b' \<and> inv b' \<and> contents b' = contents b @ [c] \<and> room b' = room b - 1"
    and put_full: "inv b \<Longrightarrow> room b = 0 \<Longrightarrow> put b c = Some b"
    and put_list_Nil: "put_list b [] = Some b"
    and put_list_Cons: "put_list b (c # cs) = Option.bind (put b c) (\<lambda>b. put_list b cs)"
begin

lemma put_list_ok:
  "inv b \<Longrightarrow> \<exists>b'. put_list b cs = Some b' \<and> inv b'
     \<and> contents b' = contents b @ take (room b) cs \<and> room b' = room b - length cs"
proof (induction cs arbitrary: b)
  case Nil
  then show ?case by (simp add: put_list_Nil)
next
  case (Cons c cs)
  show ?case
  proof (cases "room b")
    case 0
    with Cons.IH [OF Cons.prems] show ?thesis
      by (auto simp: put_list_Cons put_full [OF Cons.prems])
  next
    case (Suc n)
    then obtain b1 where b1: "put b c = Some b1" "inv b1" "contents b1 = contents b @ [c]"
      "room b1 = n"
      using put [OF Cons.prems, of c] by auto
    with Cons.IH [OF b1(2)] Suc show ?thesis by (auto simp: put_list_Cons)
  qed
qed

lemma put_list_append:
  "put_list b (xs @ ys) = Option.bind (put_list b xs) (\<lambda>b. put_list b ys)"
  by (induction xs arbitrary: b) (simp_all add: put_list_Nil put_list_Cons)

lemma put_list_fits:
  assumes "inv b" and "length cs \<le> room b"
  shows "\<exists>b'. put_list b cs = Some b' \<and> inv b' \<and> contents b' = contents b @ cs"
  using put_list_ok [OF assms(1), of cs] assms(2) by auto

end

interpretation src: byte_source buf_inv buf_contents buffer_can_read buffer_read
  by unfold_locales (auto simp: buf_can_read dest: buf_read)

interpretation snk: byte_sink buf_inv buf_contents buf_room buffer_write buffer_write_list
proof
  fix b :: buffer and c :: byte and cs :: "byte list"
  assume inv: "buf_inv b"
  show "0 < buf_room b \<Longrightarrow> \<exists>b'. buffer_write b c = Some b' \<and> buf_inv b'
     \<and> buf_contents b' = buf_contents b @ [c] \<and> buf_room b' = buf_room b - 1"
    using buf_write [OF inv, of c] by auto
  show "buf_room b = 0 \<Longrightarrow> buffer_write b c = Some b"
    by (rule buf_write_full [OF inv])
qed simp_all

end
