(* ===== verification/Users.thy ===== *)
theory Users
  imports Prelude
begin

text \<open>
  \<open>src/users.h\<close>, \<open>src/users.c\<close>: the table of proxy users, 64 slots. The two \<open>char\<close> arrays of a
  slot are only ever written by \<open>strcpy\<close> or cleared and only ever read as C strings, so a slot
  holds the C strings. A \<open>char *\<close> argument is \<^const>\<open>None\<close> for NULL. The table is shown to refine
  a finite map from names to passwords; the interface \<open>credential_store\<close> is what the SOCKS5
  and the management components rely on.
\<close>

section \<open>The code\<close>

definition USERS_MAX :: nat where "USERS_MAX = 64"
definition USERS_MAX_NAME :: nat where "USERS_MAX_NAME = 255"
definition USERS_MAX_PASS :: nat where "USERS_MAX_PASS = 255"

datatype users_result = USERS_OK | USERS_EXISTS | USERS_NOT_FOUND | USERS_FULL | USERS_INVALID

record user =
  u_used :: bool
  u_name :: "byte list"
  u_pass :: "byte list"

type_synonym user_db = "user list"

text \<open>A slot after \<open>memset(&db[i], 0, sizeof(db[i]))\<close>\<close>

definition blank_user :: user where
  "blank_user = \<lparr>u_used = False, u_name = [], u_pass = []\<rparr>"

definition users_init :: user_db where
  "users_init = replicate USERS_MAX blank_user"

primrec find_from :: "nat \<Rightarrow> user list \<Rightarrow> byte list \<Rightarrow> int" where
  "find_from i [] name = -1"
| "find_from i (u # us) name =
     (if u_used u \<and> strcmp_eq (u_name u) name then int i else find_from (Suc i) us name)"

definition users_find :: "user_db \<Rightarrow> byte list \<Rightarrow> int" where
  "users_find db name = find_from 0 db name"

definition valid_field :: "byte list option \<Rightarrow> nat \<Rightarrow> bool" where
  "valid_field s limit =
     (case s of None \<Rightarrow> False | Some s \<Rightarrow> let n = strlen s in n > 0 \<and> n \<le> limit)"

text \<open>The loop that takes the first free slot; \<^const>\<open>None\<close> when there is none.\<close>

primrec take_free_slot :: "user list \<Rightarrow> user \<Rightarrow> user list option" where
  "take_free_slot [] v = None"
| "take_free_slot (u # us) v =
     (if \<not> u_used u then Some (v # us) else map_option ((#) u) (take_free_slot us v))"

definition users_add ::
    "byte list option \<Rightarrow> byte list option \<Rightarrow> user_db \<Rightarrow> users_result \<times> user_db" where
  "users_add name pass db =
     (if \<not> valid_field name USERS_MAX_NAME \<or> \<not> valid_field pass USERS_MAX_PASS
      then (USERS_INVALID, db)
      else let name = the name; pass = the pass; idx = users_find db name
        in if idx \<ge> 0
           then (USERS_OK, db[nat idx := (db ! nat idx)\<lparr>u_pass := cstr pass\<rparr>])
           else case take_free_slot db
                  \<lparr>u_used = True, u_name = cstr name, u_pass = cstr pass\<rparr> of
                  Some db' \<Rightarrow> (USERS_OK, db')
                | None \<Rightarrow> (USERS_FULL, db))"

definition users_del :: "byte list option \<Rightarrow> user_db \<Rightarrow> users_result \<times> user_db" where
  "users_del name db =
     (case name of
        None \<Rightarrow> (USERS_INVALID, db)
      | Some name \<Rightarrow>
          let idx = users_find db name
          in if idx < 0 then (USERS_NOT_FOUND, db)
             else (USERS_OK, db[nat idx := blank_user]))"

definition users_check :: "user_db \<Rightarrow> byte list option \<Rightarrow> byte list option \<Rightarrow> bool" where
  "users_check db name pass =
     (if name = None \<or> pass = None then False
      else let idx = users_find db (the name)
        in if idx < 0 then False else strcmp_eq (u_pass (db ! nat idx)) (the pass))"

definition users_exists :: "user_db \<Rightarrow> byte list option \<Rightarrow> bool" where
  "users_exists db name \<longleftrightarrow> name \<noteq> None \<and> users_find db (the name) \<ge> 0"

primrec users_count_from :: "nat \<Rightarrow> user list \<Rightarrow> nat" where
  "users_count_from c [] = c"
| "users_count_from c (u # us) = users_count_from (if u_used u then c + 1 else c) us"

definition users_count :: "user_db \<Rightarrow> nat" where
  "users_count db = users_count_from 0 db"

primrec name_at_from :: "nat \<Rightarrow> user list \<Rightarrow> nat \<Rightarrow> byte list option" where
  "name_at_from c [] i = None"
| "name_at_from c (u # us) i =
     (if u_used u then (if c = i then Some (u_name u) else name_at_from (c + 1) us i)
      else name_at_from c us i)"

definition users_name_at :: "user_db \<Rightarrow> nat \<Rightarrow> byte list option" where
  "users_name_at db i = name_at_from 0 db i"

section \<open>Invariant and abstraction\<close>

definition cstring_field :: "byte list \<Rightarrow> bool" where
  "cstring_field s \<longleftrightarrow> 0 \<notin> set s \<and> 0 < length s \<and> length s \<le> 255"

definition users_inv :: "user_db \<Rightarrow> bool" where
  "users_inv db \<longleftrightarrow> length db = USERS_MAX
     \<and> (\<forall>i < length db. u_used (db ! i) \<longrightarrow>
          cstring_field (u_name (db ! i)) \<and> cstring_field (u_pass (db ! i)))
     \<and> (\<forall>i < length db. \<forall>j < length db.
          u_used (db ! i) \<and> u_used (db ! j) \<and> u_name (db ! i) = u_name (db ! j) \<longrightarrow> i = j)"

definition users_map :: "user_db \<Rightarrow> byte list \<Rightarrow> byte list option" where
  "users_map db n = map_option u_pass (List.find (\<lambda>u. u_used u \<and> u_name u = n) db)"

lemma users_inv_init: "users_inv users_init"
  by (simp add: users_inv_def users_init_def blank_user_def)

lemma users_map_init: "users_map users_init n = None"
  by (simp add: users_map_def users_init_def blank_user_def find_None_iff)

lemma users_map_iff:
  assumes "users_inv db"
  shows "users_map db n = Some p \<longleftrightarrow>
    (\<exists>i < length db. u_used (db ! i) \<and> u_name (db ! i) = n \<and> u_pass (db ! i) = p)"
proof
  assume "users_map db n = Some p"
  then show "\<exists>i < length db. u_used (db ! i) \<and> u_name (db ! i) = n \<and> u_pass (db ! i) = p"
    by (auto simp: users_map_def find_Some_iff)
next
  assume "\<exists>i < length db. u_used (db ! i) \<and> u_name (db ! i) = n \<and> u_pass (db ! i) = p"
  then obtain i where i: "i < length db" "u_used (db ! i)" "u_name (db ! i) = n" "u_pass (db ! i) = p"
    by blast
  have "j = i" if "j < length db" "u_used (db ! j)" "u_name (db ! j) = n" for j
    using assms that i unfolding users_inv_def by blast
  then have "List.find (\<lambda>u. u_used u \<and> u_name u = n) db = Some (db ! i)"
    unfolding find_Some_iff using i by (intro exI [of _ i]) (use less_trans in blast)
  then show "users_map db n = Some p" using i by (simp add: users_map_def)
qed

lemma find_from_cases:
  obtains (found) i where "find_from k us name = int (k + i)" "i < length us" "u_used (us ! i)"
      "cstr (u_name (us ! i)) = cstr name"
    | (absent) "find_from k us name = -1"
      "\<forall>u \<in> set us. u_used u \<longrightarrow> cstr (u_name u) \<noteq> cstr name"
proof (induction us arbitrary: k thesis)
  case Nil
  show ?case by (rule Nil.prems(2)) simp_all
next
  case (Cons u us)
  show ?case
  proof (cases "u_used u \<and> strcmp_eq (u_name u) name")
    case True
    then show ?thesis by (intro Cons.prems(1) [of 0]) (simp_all add: strcmp_eq_def)
  next
    case False
    show ?thesis
    proof (rule Cons.IH [of "Suc k"])
      fix i assume "find_from (Suc k) us name = int (Suc k + i)" "i < length us" "u_used (us ! i)"
        "cstr (u_name (us ! i)) = cstr name"
      with False show thesis by (intro Cons.prems(1) [of "Suc i"]) simp_all
    next
      assume "find_from (Suc k) us name = - 1"
        "\<forall>u \<in> set us. u_used u \<longrightarrow> cstr (u_name u) \<noteq> cstr name"
      with False show thesis by (intro Cons.prems(2)) (auto simp: strcmp_eq_def)
    qed
  qed
qed

lemma find_cases:
  assumes "users_inv db"
  obtains (found) i where "users_find db name = int i" "i < length db" "u_used (db ! i)"
      "u_name (db ! i) = cstr name"
    | (absent) "users_find db name = -1" "users_map db (cstr name) = None"
proof -
  have plain: "cstr (u_name (db ! i)) = u_name (db ! i)" if "i < length db" "u_used (db ! i)" for i
    using assms that by (simp add: users_inv_def cstring_field_def cstr_no_nul)
  show thesis
  proof (rule find_from_cases [of 0 db name])
    fix i assume "find_from 0 db name = int (0 + i)" "i < length db" "u_used (db ! i)"
      "cstr (u_name (db ! i)) = cstr name"
    with plain show thesis by (intro found [of i]) (simp_all add: users_find_def)
  next
    assume none: "find_from 0 db name = - 1"
      "\<forall>u \<in> set db. u_used u \<longrightarrow> cstr (u_name u) \<noteq> cstr name"
    have "users_map db (cstr name) \<noteq> Some p" for p
      using none(2) plain users_map_iff [OF assms] by (metis nth_mem)
    then have "users_map db (cstr name) = None" by blast
    with none(1) show thesis by (intro absent) (simp_all add: users_find_def)
  qed
qed

lemma take_free_slot_Some:
  "take_free_slot us v = Some us' \<Longrightarrow>
     \<exists>j < length us. \<not> u_used (us ! j) \<and> us' = us[j := v]"
  by (induction us arbitrary: us') (force split: if_splits intro: exI [of _ "Suc _"])+

lemma take_free_slot_None: "take_free_slot us v = None \<longleftrightarrow> (\<forall>u \<in> set us. u_used u)"
  by (induction us) auto

lemma users_count_filter: "users_count db = length (filter u_used db)"
proof -
  have "users_count_from c us = c + length (filter u_used us)" for c us
    by (induction us arbitrary: c) auto
  then show ?thesis by (simp add: users_count_def)
qed

lemma users_name_at_filter:
  "users_name_at db i =
    (if i < users_count db then Some (u_name (filter u_used db ! i)) else None)"
proof -
  have "name_at_from c us (c + i) =
      (if i < length (filter u_used us) then Some (u_name (filter u_used us ! i)) else None)" for c i us
  proof (induction us arbitrary: c i)
    case (Cons u us)
    show ?case
    proof (cases "u_used u \<and> i \<noteq> 0")
      case True
      then obtain j where "i = Suc j" by (cases i) auto
      with True Cons [of "Suc c" j] show ?thesis by simp
    next
      case False
      with Cons [of c i] show ?thesis by auto
    qed
  qed simp
  from this [of 0] show ?thesis by (simp add: users_name_at_def users_count_filter)
qed

lemma dom_users_map:
  assumes "users_inv db"
  shows "dom (users_map db) = u_name ` set (filter u_used db)"
proof -
  have "n \<in> dom (users_map db) \<longleftrightarrow> (\<exists>i < length db. u_used (db ! i) \<and> u_name (db ! i) = n)" for n
    using users_map_iff [OF assms] by (auto simp: dom_def)
  moreover have "n \<in> u_name ` set (filter u_used db) \<longleftrightarrow>
      (\<exists>i < length db. u_used (db ! i) \<and> u_name (db ! i) = n)" for n
    by (simp add: image_iff Bex_def in_set_conv_nth) metis
  ultimately show ?thesis by blast
qed

lemma distinct_names: 
  assumes "users_inv db"
  shows "distinct (map u_name (filter u_used db))"
proof -
  let ?I = "filter (\<lambda>i. u_used (db ! i)) [0..<length db]"
  have "filter u_used db = map ((!) db) ?I"
    using filter_map [of u_used "(!) db" "[0..<length db]"] by (simp add: map_nth comp_def)
  moreover have "inj_on (\<lambda>i. u_name (db ! i)) (set ?I)"
    using assms by (auto simp: inj_on_def users_inv_def)
  ultimately show ?thesis by (simp add: distinct_map comp_def)
qed

lemma card_users:
  assumes "users_inv db"
  shows "card (dom (users_map db)) = users_count db"
  using distinct_card [OF distinct_names [OF assms]]
  by (simp add: dom_users_map [OF assms] users_count_filter)

lemma users_count_le: "users_inv db \<Longrightarrow> users_count db \<le> USERS_MAX"
  by (metis length_filter_le users_count_filter users_inv_def)

text \<open>Writing one slot: the effect on the invariant and on the map.\<close>

lemma slot_update:
  assumes inv: "users_inv db" and i: "i < length db"
    and v: "u_used v \<Longrightarrow> cstring_field (u_name v) \<and> cstring_field (u_pass v)"
    and fresh: "u_used v \<Longrightarrow> u_used (db ! i) \<and> u_name (db ! i) = u_name v \<or>
      \<not> u_used (db ! i) \<and> users_map db (u_name v) = None"
  shows "users_inv (db[i := v])"
    and "users_map (db[i := v]) n =
      (if u_used v \<and> n = u_name v then Some (u_pass v)
       else if u_used (db ! i) \<and> n = u_name (db ! i) then None
       else users_map db n)"
proof -
  have none: "u_used (db ! j) \<Longrightarrow> j < length db \<Longrightarrow> u_name (db ! j) = u_name v \<Longrightarrow> u_used v \<Longrightarrow> j = i" for j
    using fresh inv i users_map_iff [OF inv, of "u_name v"] unfolding users_inv_def
    by (metis not_None_eq)
  show inv': "users_inv (db[i := v])"
    using inv i v none unfolding users_inv_def
    by (auto simp: nth_list_update)
  have "users_map (db[i := v]) n = Some p \<longleftrightarrow>
      (if u_used v \<and> n = u_name v then Some (u_pass v)
       else if u_used (db ! i) \<and> n = u_name (db ! i) then None
       else users_map db n) = Some p" for p
  proof -
    have other: "users_map db n = Some p \<longleftrightarrow> (\<exists>j < length db. j \<noteq> i \<and> u_used (db ! j) \<and> u_name (db ! j) = n \<and> u_pass (db ! j) = p)"
      if "\<not> (u_used (db ! i) \<and> n = u_name (db ! i))"
      using that by (auto simp: users_map_iff [OF inv])
    have same: "\<not> (\<exists>j < length db. j \<noteq> i \<and> u_used (db ! j) \<and> u_name (db ! j) = n)"
      if "u_used (db ! i)" "n = u_name (db ! i)"
      using that i inv unfolding users_inv_def by metis
    have split: "users_map (db[i := v]) n = Some p \<longleftrightarrow>
        u_used v \<and> u_name v = n \<and> u_pass v = p \<or>
        (\<exists>j < length db. j \<noteq> i \<and> u_used (db ! j) \<and> u_name (db ! j) = n \<and> u_pass (db ! j) = p)"
      using i by (auto simp: users_map_iff [OF inv'] nth_list_update)
    show ?thesis
    proof (cases "u_used v \<and> n = u_name v")
      case True
      then show ?thesis unfolding split using none by auto
    next
      case False
      then show ?thesis unfolding split using other same by auto
    qed
  qed
  then show "users_map (db[i := v]) n =
      (if u_used v \<and> n = u_name v then Some (u_pass v)
       else if u_used (db ! i) \<and> n = u_name (db ! i) then None
       else users_map db n)"
    by (metis not_None_eq)
qed

lemma users_map_field:
  "users_inv db \<Longrightarrow> users_map db n = Some p \<Longrightarrow> cstring_field n \<and> cstring_field p"
  by (auto simp: users_map_iff users_inv_def)

lemma valid_field_Some:
  "valid_field s 255 \<longleftrightarrow> (\<exists>a. s = Some a \<and> cstring_field (cstr a))"
  by (auto simp: valid_field_def strlen_def cstring_field_def Let_def split: option.splits)

lemma users_add_spec:
  assumes inv: "users_inv db" and ok: "cstring_field (cstr name)" "cstring_field (cstr pass)"
  shows "users_add (Some name) (Some pass) db =
    (if cstr name \<notin> dom (users_map db) \<and> users_count db = USERS_MAX then (USERS_FULL, db)
     else (USERS_OK, snd (users_add (Some name) (Some pass) db)))"
    and "users_inv (snd (users_add (Some name) (Some pass) db))"
    and "cstr name \<in> dom (users_map db) \<or> users_count db < USERS_MAX \<Longrightarrow>
      users_map (snd (users_add (Some name) (Some pass) db)) = (users_map db)(cstr name \<mapsto> cstr pass)"
proof -
  let ?v = "\<lparr>u_used = True, u_name = cstr name, u_pass = cstr pass\<rparr>"
  have valid: "valid_field (Some name) USERS_MAX_NAME" "valid_field (Some pass) USERS_MAX_PASS"
    using ok by (auto simp: USERS_MAX_NAME_def USERS_MAX_PASS_def valid_field_Some)
  have "(if cstr name \<notin> dom (users_map db) \<and> users_count db = USERS_MAX
        then users_add (Some name) (Some pass) db = (USERS_FULL, db)
        else \<exists>db'. users_add (Some name) (Some pass) db = (USERS_OK, db') \<and> users_inv db'
          \<and> users_map db' = (users_map db)(cstr name \<mapsto> cstr pass))"
    using inv
  proof (rule find_cases [of db name])
    fix i assume i: "users_find db name = int i" "i < length db" "u_used (db ! i)"
      "u_name (db ! i) = cstr name"
    let ?w = "(db ! i)\<lparr>u_pass := cstr pass\<rparr>"
    have "users_add (Some name) (Some pass) db = (USERS_OK, db[i := ?w])"
      using i(1) valid by (simp add: users_add_def Let_def)
    moreover have "cstr name \<in> dom (users_map db)"
      using i users_map_iff [OF inv] by blast
    moreover have "users_inv (db[i := ?w])"
      using i ok by (intro slot_update [OF inv i(2)]) simp_all
    moreover have "users_map (db[i := ?w]) = (users_map db)(cstr name \<mapsto> cstr pass)"
      using i ok by (intro ext, subst slot_update(2) [OF inv i(2)]) simp_all
    ultimately show ?thesis by simp
  next
    assume none: "users_find db name = -1" "users_map db (cstr name) = None"
    show ?thesis
    proof (cases "take_free_slot db ?v")
      case None
      then have "users_count db = USERS_MAX"
        using inv by (simp add: take_free_slot_None users_count_filter users_inv_def)
      with None none valid show ?thesis by (auto simp: users_add_def Let_def)
    next
      case (Some db')
      then obtain j where j: "j < length db" "\<not> u_used (db ! j)" "db' = db[j := ?v]"
        using take_free_slot_Some by blast
      have "users_count db < USERS_MAX"
        using j(1,2) inv length_filter_less [of "db ! j" db u_used]
        by (simp add: users_count_filter users_inv_def)
      moreover have "users_add (Some name) (Some pass) db = (USERS_OK, db')"
        using Some none valid by (simp add: users_add_def Let_def)
      moreover have "users_inv db'"
        unfolding j(3) using j none ok by (intro slot_update [OF inv j(1)]) simp_all
      moreover have "users_map db' = (users_map db)(cstr name \<mapsto> cstr pass)"
        unfolding j(3) using j none ok by (intro ext, subst slot_update(2) [OF inv j(1)]) simp_all
      ultimately show ?thesis by auto
    qed
  qed
  then show "users_add (Some name) (Some pass) db =
    (if cstr name \<notin> dom (users_map db) \<and> users_count db = USERS_MAX then (USERS_FULL, db)
     else (USERS_OK, snd (users_add (Some name) (Some pass) db)))"
    and "users_inv (snd (users_add (Some name) (Some pass) db))"
    and "cstr name \<in> dom (users_map db) \<or> users_count db < USERS_MAX \<Longrightarrow>
      users_map (snd (users_add (Some name) (Some pass) db)) = (users_map db)(cstr name \<mapsto> cstr pass)"
    using inv by (auto split: if_splits)
qed

lemma users_add_invalid:
  "\<not> (valid_field name 255 \<and> valid_field pass 255) \<Longrightarrow>
     users_add name pass db = (USERS_INVALID, db)"
  by (simp add: users_add_def USERS_MAX_NAME_def USERS_MAX_PASS_def)

lemma users_del_spec:
  assumes inv: "users_inv db"
  shows "fst (users_del (Some name) db) =
      (if cstr name \<in> dom (users_map db) then USERS_OK else USERS_NOT_FOUND)"
    and "users_inv (snd (users_del (Some name) db))"
    and "users_map (snd (users_del (Some name) db)) = (users_map db)(cstr name := None)"
proof -
  have "fst (users_del (Some name) db) =
      (if cstr name \<in> dom (users_map db) then USERS_OK else USERS_NOT_FOUND)
    \<and> users_inv (snd (users_del (Some name) db))
    \<and> users_map (snd (users_del (Some name) db)) = (users_map db)(cstr name := None)"
    using inv
  proof (rule find_cases [of db name])
    fix i assume i: "users_find db name = int i" "i < length db" "u_used (db ! i)"
      "u_name (db ! i) = cstr name"
    have "users_inv (db[i := blank_user])"
      by (rule slot_update [OF inv i(2)]) (simp_all add: blank_user_def)
    moreover have "users_map (db[i := blank_user]) = (users_map db)(cstr name := None)"
      by (intro ext, subst slot_update(2) [OF inv i(2)]) (simp_all add: blank_user_def i)
    moreover have "cstr name \<in> dom (users_map db)"
      using i users_map_iff [OF inv] by blast
    ultimately show ?thesis using i(1) by (simp add: users_del_def Let_def)
  next
    assume "users_find db name = -1" "users_map db (cstr name) = None"
    then show ?thesis using inv by (auto simp: users_del_def Let_def)
  qed
  then show "fst (users_del (Some name) db) =
      (if cstr name \<in> dom (users_map db) then USERS_OK else USERS_NOT_FOUND)"
    and "users_inv (snd (users_del (Some name) db))"
    and "users_map (snd (users_del (Some name) db)) = (users_map db)(cstr name := None)"
    by blast+
qed

lemma users_check_spec:
  assumes inv: "users_inv db"
  shows "users_check db (Some name) (Some pass) \<longleftrightarrow> users_map db (cstr name) = Some (cstr pass)"
  using inv
proof (rule find_cases [of db name])
  fix i assume i: "users_find db name = int i" "i < length db" "u_used (db ! i)"
    "u_name (db ! i) = cstr name"
  have "users_map db (cstr name) = Some (u_pass (db ! i))"
    using i users_map_iff [OF inv] by blast
  moreover have "cstr (u_pass (db ! i)) = u_pass (db ! i)"
    using inv i by (simp add: users_inv_def cstring_field_def cstr_no_nul)
  ultimately show ?thesis using i(1) by (simp add: users_check_def Let_def strcmp_eq_def)
qed (simp add: users_check_def)

section \<open>The contract\<close>

text \<open>Operations run one after the other, with their results.\<close>

fun run_steps :: "('op \<Rightarrow> 's \<Rightarrow> 'r \<times> 's) \<Rightarrow> 'op list \<Rightarrow> 's \<Rightarrow> 'r list \<times> 's" where
  "run_steps step [] s = ([], s)"
| "run_steps step (x # xs) s =
     (let (r, s) = step x s; (rs, s) = run_steps step xs s in (r # rs, s))"

datatype users_op = AddUser "byte list" "byte list" | DelUser "byte list"

fun users_step :: "users_op \<Rightarrow> user_db \<Rightarrow> users_result \<times> user_db" where
  "users_step (AddUser n p) db = users_add (Some n) (Some p) db"
| "users_step (DelUser n) db = users_del (Some n) db"

text \<open>
  What a store of credentials of a given capacity promises, over a finite map. Names and passwords
  are C strings of 1 to 255 bytes; adding an existing name replaces its password.
\<close>

fun spec_step :: "nat \<Rightarrow> users_op \<Rightarrow> (byte list \<Rightarrow> byte list option) \<Rightarrow>
    users_result \<times> (byte list \<Rightarrow> byte list option)" where
  "spec_step cap (AddUser n p) m =
     (if \<not> (cstring_field (cstr n) \<and> cstring_field (cstr p)) then (USERS_INVALID, m)
      else if cstr n \<notin> dom m \<and> card (dom m) = cap then (USERS_FULL, m)
      else (USERS_OK, m(cstr n \<mapsto> cstr p)))"
| "spec_step cap (DelUser n) m =
     (if cstr n \<in> dom m then (USERS_OK, m(cstr n := None)) else (USERS_NOT_FOUND, m))"

locale credential_store =
  fixes inv :: "'db \<Rightarrow> bool"
    and abs :: "'db \<Rightarrow> byte list \<Rightarrow> byte list option"
    and cap :: nat
    and step :: "users_op \<Rightarrow> 'db \<Rightarrow> users_result \<times> 'db"
    and check :: "'db \<Rightarrow> byte list option \<Rightarrow> byte list option \<Rightarrow> bool"
    and count :: "'db \<Rightarrow> nat"
  assumes step_inv: "inv db \<Longrightarrow> inv (snd (step x db))"
    and step_abs: "inv db \<Longrightarrow>
      (fst (step x db), abs (snd (step x db))) = spec_step cap x (abs db)"
    and check_abs: "inv db \<Longrightarrow> check db (Some n) (Some p) \<longleftrightarrow> abs db (cstr n) = Some (cstr p)"
    and count_abs: "inv db \<Longrightarrow> count db = card (dom (abs db))"
    and count_cap: "inv db \<Longrightarrow> count db \<le> cap"
begin

text \<open>Any sequence of operations: the results and the final map are those of the specification.\<close>

lemma run_refines:
  assumes "inv db"
  shows "inv (snd (run_steps step xs db))"
    and "(fst (run_steps step xs db), abs (snd (run_steps step xs db))) =
      run_steps (spec_step cap) xs (abs db)"
  using assms
proof (induction xs arbitrary: db)
  case (Cons x xs)
  {
    case 1
    from Cons.IH(1) [OF step_inv [OF 1]] show ?case by (simp add: split_beta Let_def)
  next
    case 2
    have "spec_step cap x (abs db) = (fst (step x db), abs (snd (step x db)))"
      using step_abs [OF 2, of x] by simp
    with Cons.IH(2) [OF step_inv [OF 2], of x] show ?case
      by (auto simp: split_beta Let_def prod_eq_iff)
  }
qed simp_all

text \<open>An added user can log in with the new password only, and nobody else is affected.\<close>

lemma add_check:
  assumes "inv db" and "fst (step (AddUser n p) db) = USERS_OK"
  shows "check (snd (step (AddUser n p) db)) (Some m) (Some q) \<longleftrightarrow>
    (if cstr m = cstr n then cstr q = cstr p else check db (Some m) (Some q))"
  using step_abs [OF assms(1), of "AddUser n p"] assms
  by (auto simp: check_abs step_inv split: if_splits)

text \<open>A deleted user cannot log in any more, and nobody else is affected.\<close>

lemma del_check:
  assumes "inv db"
  shows "check (snd (step (DelUser n) db)) (Some m) (Some q) \<longleftrightarrow>
    cstr m \<noteq> cstr n \<and> check db (Some m) (Some q)"
  using step_abs [OF assms, of "DelUser n"] assms
  by (auto simp: check_abs step_inv split: if_splits)

end

interpretation users: credential_store users_inv users_map USERS_MAX users_step users_check users_count
proof
  fix db :: user_db and x n p
  assume inv: "users_inv db"
  show "users_inv (snd (users_step x db))"
  proof (cases x)
    case (AddUser n p)
    show ?thesis
    proof (cases "cstring_field (cstr n) \<and> cstring_field (cstr p)")
      case True
      then show ?thesis using users_add_spec(2) [OF inv] AddUser by simp
    next
      case False
      then show ?thesis using inv AddUser by (auto simp: users_add_invalid valid_field_Some)
    qed
  qed (simp add: users_del_spec(2) [OF inv])
  show "(fst (users_step x db), users_map (snd (users_step x db))) =
      spec_step USERS_MAX x (users_map db)"
  proof (cases x)
    case (AddUser n p)
    show ?thesis
    proof (cases "cstring_field (cstr n) \<and> cstring_field (cstr p)")
      case True
      show ?thesis
      proof (cases "cstr n \<notin> dom (users_map db) \<and> users_count db = USERS_MAX")
        case full: True
        then have "users_add (Some n) (Some p) db = (USERS_FULL, db)"
          using users_add_spec(1) [OF inv, of n p] True by presburger
        with full True AddUser show ?thesis by (simp add: card_users [OF inv])
      next
        case False
        then have "users_add (Some n) (Some p) db = (USERS_OK, snd (users_add (Some n) (Some p) db))"
          using users_add_spec(1) [OF inv, of n p] True by presburger
        moreover have "users_map (snd (users_add (Some n) (Some p) db)) = (users_map db)(cstr n \<mapsto> cstr p)"
          using users_add_spec(3) [OF inv, of n p] True False users_count_le [OF inv] by linarith
        ultimately show ?thesis
          using True False AddUser by (auto simp: card_users [OF inv] fst_conv dest: arg_cong [of _ _ fst])
      qed
    next
      case False
      then show ?thesis using AddUser by (auto simp: users_add_invalid valid_field_Some)
    qed
  qed (use users_del_spec [OF inv] in \<open>auto simp: fun_upd_idem domIff\<close>)
  show "users_check db (Some n) (Some p) \<longleftrightarrow> users_map db (cstr n) = Some (cstr p)"
    by (rule users_check_spec [OF inv])
  show "users_count db = card (dom (users_map db))"
    by (simp add: card_users [OF inv])
  show "users_count db \<le> USERS_MAX"
    by (rule users_count_le [OF inv])
qed

section \<open>Properties\<close>

text \<open>C24: any sequence of additions and deletions on the empty table behaves as the same sequence
  on a finite map of capacity 64: same result codes, same final credentials, same count.\<close>

theorem users_refine_map:
  "fst (run_steps users_step xs users_init) = fst (run_steps (spec_step USERS_MAX) xs Map.empty)
   \<and> (users_check (snd (run_steps users_step xs users_init)) (Some n) (Some p) \<longleftrightarrow>
        snd (run_steps (spec_step USERS_MAX) xs Map.empty) (cstr n) = Some (cstr p))
   \<and> users_count (snd (run_steps users_step xs users_init)) =
        card (dom (snd (run_steps (spec_step USERS_MAX) xs Map.empty)))"
proof -
  have "users_map users_init = Map.empty" by (rule ext) (rule users_map_init)
  with users.run_refines [OF users_inv_init, of xs] show ?thesis
    by (metis users.check_abs users.count_abs fst_conv snd_conv)
qed

text \<open>C25: \<open>users_name_at(0..count-1)\<close> lists every registered name exactly once.\<close>

theorem users_listing:
  assumes "users_inv db"
  shows "map (users_name_at db) [0..<users_count db] = map Some (map u_name (filter u_used db))
    \<and> distinct (map (users_name_at db) [0..<users_count db])
    \<and> set (map (users_name_at db) [0..<users_count db]) = Some ` dom (users_map db)
    \<and> users_name_at db (users_count db) = None"
proof -
  have "map (users_name_at db) [0..<users_count db] = map Some (map u_name (filter u_used db))"
    by (auto simp: users_name_at_filter users_count_filter intro: nth_equalityI)
  then show ?thesis
    using distinct_names [OF assms] dom_users_map [OF assms]
    by (simp add: users_name_at_filter distinct_map image_image inj_on_def)
qed

theorem users_listing_witness:
  "map (users_name_at (snd (users_step (AddUser [65] [66]) users_init))) [0..<1] = [Some [65]]"
proof -
  let ?db = "snd (users_step (AddUser [65] [66]) users_init)"
  have eq: "?db = \<lparr>u_used = True, u_name = [65], u_pass = [66]\<rparr> # replicate 63 blank_user"
    by code_simp
  have "users_inv ?db" by (rule users.step_inv [OF users_inv_init])
  from users_listing [OF this] have
    "map (users_name_at ?db) [0..<users_count ?db] = map Some (map u_name (filter u_used ?db))"
    by blast
  moreover have "users_count ?db = 1" "map u_name (filter u_used ?db) = [[65]]"
    unfolding eq by code_simp+
  ultimately show ?thesis by (simp only: list.map One_nat_def)
qed

end
