(* ===== verification/Config.thy ===== *)
theory Config
  imports Prelude
begin

text \<open>
  \<open>src/config.h\<close>, \<open>src/config.c\<close>: the configuration singleton. \<open>config_get()\<close> hands out a pointer
  to the single \<open>struct proxy_config\<close>; here the record is a component of the program state and
  is read and updated directly. \<open>size_t\<close> is 64 bits wide.
\<close>

definition CONFIG_ADMIN_MAX :: nat where "CONFIG_ADMIN_MAX = 255"
definition CONFIG_MIN_BUFFER :: nat where "CONFIG_MIN_BUFFER = 256"
definition CONFIG_MAX_BUFFER :: nat where "CONFIG_MAX_BUFFER = 1048576"

record proxy_config =
  cfg_io_buffer_size :: u64
  cfg_conn_timeout_secs :: u32
  cfg_auth_required :: bool
  cfg_pop3_sniff :: bool
  cfg_admin_user :: "byte list"
  cfg_admin_pass :: "byte list"

definition config_init_defaults :: proxy_config where
  "config_init_defaults =
     (let z = replicate (CONFIG_ADMIN_MAX + 1) 0
      in \<lparr>cfg_io_buffer_size = 8192, cfg_conn_timeout_secs = 0, cfg_auth_required = False,
          cfg_pop3_sniff = False,
          cfg_admin_user = memcpy_at z 0 (ascii ''admin'' @ [0]),
          cfg_admin_pass = memcpy_at z 0 (ascii ''admin'' @ [0])\<rparr>)"

text \<open>What the management service keeps of the configuration: the sizes of the two arrays, their
  terminator, and a buffer size between the limits.\<close>

definition config_inv :: "proxy_config \<Rightarrow> bool" where
  "config_inv c \<longleftrightarrow>
     CONFIG_MIN_BUFFER \<le> unat (cfg_io_buffer_size c) \<and>
     unat (cfg_io_buffer_size c) \<le> CONFIG_MAX_BUFFER \<and>
     length (cfg_admin_user c) = CONFIG_ADMIN_MAX + 1 \<and>
     length (cfg_admin_pass c) = CONFIG_ADMIN_MAX + 1 \<and>
     cfg_admin_user c ! CONFIG_ADMIN_MAX = 0 \<and> cfg_admin_pass c ! CONFIG_ADMIN_MAX = 0"

lemmas config_limits = CONFIG_ADMIN_MAX_def CONFIG_MIN_BUFFER_def CONFIG_MAX_BUFFER_def

lemma config_inv_defaults: "config_inv config_init_defaults"
  by (simp add: config_inv_def config_init_defaults_def config_limits Let_def memcpy_at_0
      ascii_def nth_append)

lemma config_admin_defaults:
  "cstr (cfg_admin_user config_init_defaults) = ascii ''admin''"
  "cstr (cfg_admin_pass config_init_defaults) = ascii ''admin''"
  by (simp_all add: config_init_defaults_def Let_def memcpy_at_0 ascii_def of_char_def)

end
