(* ===== verification/Metrics.thy ===== *)
theory Metrics
  imports Prelude
begin

text \<open>
  \<open>src/metrics.h\<close>, \<open>src/metrics.c\<close>: the global counters, \<open>uint64_t\<close> each, so every sum wraps
  modulo \<open>2 ^ 64\<close>. The lemmas relate the counters to the history of events since
  \<open>metrics_init\<close>: the current number of connections is opened minus closed as long as no
  connection is closed twice, and never goes below zero even then.
\<close>

record metrics =
  m_historic :: u64
  m_current :: u64
  m_failed :: u64
  m_sent :: u64
  m_received :: u64

definition metrics_init :: metrics where
  "metrics_init = \<lparr>m_historic = 0, m_current = 0, m_failed = 0, m_sent = 0, m_received = 0\<rparr>"

definition metrics_connection_opened :: "metrics \<Rightarrow> metrics" where
  "metrics_connection_opened m = m\<lparr>m_historic := m_historic m + 1, m_current := m_current m + 1\<rparr>"

definition metrics_connection_closed :: "metrics \<Rightarrow> metrics" where
  "metrics_connection_closed m =
     (if m_current m > 0 then m\<lparr>m_current := m_current m - 1\<rparr> else m)"

definition metrics_connection_failed :: "metrics \<Rightarrow> metrics" where
  "metrics_connection_failed m = m\<lparr>m_failed := m_failed m + 1\<rparr>"

definition metrics_add_sent :: "u64 \<Rightarrow> metrics \<Rightarrow> metrics" where
  "metrics_add_sent n m = m\<lparr>m_sent := m_sent m + n\<rparr>"

definition metrics_add_received :: "u64 \<Rightarrow> metrics \<Rightarrow> metrics" where
  "metrics_add_received n m = m\<lparr>m_received := m_received m + n\<rparr>"

definition metrics_bytes_transferred :: "metrics \<Rightarrow> u64" where
  "metrics_bytes_transferred m = m_sent m + m_received m"

lemmas metrics_defs = metrics_init_def metrics_connection_opened_def metrics_connection_closed_def
  metrics_connection_failed_def metrics_add_sent_def metrics_add_received_def

section \<open>Histories\<close>

datatype metrics_event = Opened | Closed | Failed | Sent u64 | Received u64

fun metrics_apply :: "metrics_event \<Rightarrow> metrics \<Rightarrow> metrics" where
  "metrics_apply Opened m = metrics_connection_opened m"
| "metrics_apply Closed m = metrics_connection_closed m"
| "metrics_apply Failed m = metrics_connection_failed m"
| "metrics_apply (Sent n) m = metrics_add_sent n m"
| "metrics_apply (Received n) m = metrics_add_received n m"

definition metrics_run :: "metrics_event list \<Rightarrow> metrics" where
  "metrics_run evs = fold metrics_apply evs metrics_init"

fun sent_of :: "metrics_event \<Rightarrow> u64" where
  "sent_of (Sent n) = n" | "sent_of _ = 0"

fun received_of :: "metrics_event \<Rightarrow> u64" where
  "received_of (Received n) = n" | "received_of _ = 0"

text \<open>The concurrent connections a history leaves: a close without an open is ignored.\<close>

fun live_after :: "nat \<Rightarrow> metrics_event list \<Rightarrow> nat" where
  "live_after k [] = k"
| "live_after k (Opened # evs) = live_after (Suc k) evs"
| "live_after k (Closed # evs) = live_after (k - 1) evs"
| "live_after k (_ # evs) = live_after k evs"

lemma metrics_run_snoc: "metrics_run (evs @ [e]) = metrics_apply e (metrics_run evs)"
  by (simp add: metrics_run_def)

lemma live_after_snoc:
  "live_after k (evs @ [e]) =
     (case e of Opened \<Rightarrow> Suc (live_after k evs) | Closed \<Rightarrow> live_after k evs - 1
      | _ \<Rightarrow> live_after k evs)"
  by (induction k evs rule: live_after.induct) (simp_all split: metrics_event.split)

lemma live_after_le: "live_after k evs \<le> k + length evs"
  by (induction k evs rule: live_after.induct) auto

lemma metrics_current_run:
  "length evs < 2 ^ 64 \<Longrightarrow> unat (m_current (metrics_run evs)) = live_after 0 evs"
proof (induction evs rule: rev_induct)
  case Nil
  show ?case by (simp add: metrics_run_def metrics_defs)
next
  case (snoc e evs)
  let ?c = "m_current (metrics_run evs)"
  have IH: "unat ?c = live_after 0 evs" using snoc by simp
  have "Suc (unat ?c) < 2 ^ 64"
    using live_after_le [of 0 evs] IH snoc.prems by simp
  then have inc: "unat (?c + 1) = Suc (unat ?c)"
    by (simp add: unat_word_ariths)
  have dec: "?c \<noteq> 0 \<Longrightarrow> unat (?c - 1) = unat ?c - 1"
    by (rule unat_minus_one)
  have zero: "?c = 0 \<Longrightarrow> live_after 0 evs = 0" using IH by simp
  show ?case
    using IH inc dec zero
    by (cases e) (auto simp: metrics_run_snoc live_after_snoc metrics_defs word_gt_0)
qed

lemma metrics_totals_run:
  "m_historic (metrics_run evs) = of_nat (length (filter (\<lambda>e. e = Opened) evs))
   \<and> m_failed (metrics_run evs) = of_nat (length (filter (\<lambda>e. e = Failed) evs))
   \<and> m_sent (metrics_run evs) = sum_list (map sent_of evs)
   \<and> m_received (metrics_run evs) = sum_list (map received_of evs)"
proof (induction evs rule: rev_induct)
  case Nil
  show ?case by (simp add: metrics_run_def metrics_defs)
next
  case (snoc e evs)
  then show ?case
    by (cases e) (simp_all add: metrics_run_snoc metrics_defs)
qed

section \<open>Properties\<close>

text \<open>C26: after any history of fewer than \<open>2 ^ 64\<close> events the counters are the totals of that
  history: connections ever opened, opened and not yet closed (a spurious close never makes the
  counter wrap below zero), failed requests, and the bytes of each direction and of both,
  modulo \<open>2 ^ 64\<close>.\<close>

theorem metrics_follow_history:
  assumes "length evs < 2 ^ 64"
  shows "unat (m_historic (metrics_run evs)) = length (filter (\<lambda>e. e = Opened) evs)
    \<and> unat (m_current (metrics_run evs)) = live_after 0 evs
    \<and> unat (m_failed (metrics_run evs)) = length (filter (\<lambda>e. e = Failed) evs)
    \<and> metrics_bytes_transferred (metrics_run evs) =
        sum_list (map sent_of evs) + sum_list (map received_of evs)"
proof -
  have bound: "length (filter P evs) < 2 ^ 64" for P
    using length_filter_le [of P evs] assms by linarith
  have "unat (of_nat (length (filter P evs)) :: u64) = length (filter P evs)" for P
    using bound [of P] by (simp add: unat_of_nat)
  with metrics_totals_run [of evs] metrics_current_run [OF assms] show ?thesis
    by (simp add: metrics_bytes_transferred_def)
qed

theorem metrics_follow_history_witness:
  "unat (m_current (metrics_run [Opened, Sent 5, Closed, Closed, Opened])) = 1
   \<and> metrics_bytes_transferred (metrics_run [Opened, Sent 5, Closed, Closed, Opened]) = 5"
  using metrics_follow_history [of "[Opened, Sent 5, Closed, Closed, Opened]"] by simp

end
