(* ===== verification/Mgmt_Protocol.thy ===== *)
theory Mgmt_Protocol
  imports Buffer Users Config Metrics "HOL-Library.Sublist"
begin

text \<open>
  \<open>src/smp.h\<close> and the protocol part of \<open>src/mgmt.c\<close> (lines 44 to 245): the management protocol
  SMP/1.0 as the server speaks it. \<open>services\<close> gathers the three singletons the commands act on.
  The parsers are shown to decode exactly the grammar of the protocol, given here by an encoder of
  commands; the responses are shown to be complete (the 64 KiB buffer never truncates one) and
  the effect of every command is stated on the abstract services.
\<close>

section \<open>Constants of smp.h\<close>

definition SMP_VERSION :: byte where "SMP_VERSION = 1"

definition SMP_CMD_METRICS :: byte where "SMP_CMD_METRICS = 0"
definition SMP_CMD_ADD_USER :: byte where "SMP_CMD_ADD_USER = 1"
definition SMP_CMD_DEL_USER :: byte where "SMP_CMD_DEL_USER = 2"
definition SMP_CMD_LIST_USERS :: byte where "SMP_CMD_LIST_USERS = 3"
definition SMP_CMD_GET_CONFIG :: byte where "SMP_CMD_GET_CONFIG = 4"
definition SMP_CMD_SET_CONFIG :: byte where "SMP_CMD_SET_CONFIG = 5"

definition SMP_OK :: byte where "SMP_OK = 0"
definition SMP_AUTH_REQUIRED :: byte where "SMP_AUTH_REQUIRED = 1"
definition SMP_UNKNOWN_COMMAND :: byte where "SMP_UNKNOWN_COMMAND = 2"
definition SMP_INVALID_ARGUMENTS :: byte where "SMP_INVALID_ARGUMENTS = 3"
definition SMP_USER_ALREADY_EXISTS :: byte where "SMP_USER_ALREADY_EXISTS = 4"
definition SMP_USER_NOT_FOUND :: byte where "SMP_USER_NOT_FOUND = 5"
definition SMP_USER_LIMIT_REACHED :: byte where "SMP_USER_LIMIT_REACHED = 6"
definition SMP_INTERNAL_ERROR :: byte where "SMP_INTERNAL_ERROR = 7"

definition SMP_AUTH_OK :: byte where "SMP_AUTH_OK = 0"
definition SMP_AUTH_FAILED :: byte where "SMP_AUTH_FAILED = 1"

definition SMP_CFG_IO_BUFFER_SIZE :: byte where "SMP_CFG_IO_BUFFER_SIZE = 1"
definition SMP_CFG_CONN_TIMEOUT :: byte where "SMP_CFG_CONN_TIMEOUT = 2"
definition SMP_CFG_AUTH_REQUIRED :: byte where "SMP_CFG_AUTH_REQUIRED = 3"

lemmas smp_cmd_defs = SMP_CMD_METRICS_def SMP_CMD_ADD_USER_def SMP_CMD_DEL_USER_def
  SMP_CMD_LIST_USERS_def SMP_CMD_GET_CONFIG_def SMP_CMD_SET_CONFIG_def

lemmas smp_status_defs = SMP_OK_def SMP_AUTH_REQUIRED_def SMP_UNKNOWN_COMMAND_def
  SMP_INVALID_ARGUMENTS_def SMP_USER_ALREADY_EXISTS_def SMP_USER_NOT_FOUND_def
  SMP_USER_LIMIT_REACHED_def SMP_INTERNAL_ERROR_def

lemmas smp_cfg_defs = SMP_CFG_IO_BUFFER_SIZE_def SMP_CFG_CONN_TIMEOUT_def SMP_CFG_AUTH_REQUIRED_def

section \<open>Serialisation\<close>

definition put_u16 :: "buffer \<Rightarrow> u16 \<Rightarrow> buffer option" where
  "put_u16 b v = do {
     b \<leftarrow> buffer_write b (ucast (drop_bit 8 v));
     buffer_write b (ucast (v AND 0xFF))
   }"

definition put_u32 :: "buffer \<Rightarrow> u32 \<Rightarrow> buffer option" where
  "put_u32 b v = do {
     b \<leftarrow> buffer_write b (ucast (drop_bit 24 v));
     b \<leftarrow> buffer_write b (ucast (drop_bit 16 v));
     b \<leftarrow> buffer_write b (ucast (drop_bit 8 v));
     buffer_write b (ucast v)
   }"

text \<open>The loop \<open>for (i = 7; i >= 0; i--)\<close>; the counter is one more than \<open>i\<close>.\<close>

primrec put_u64_from :: "nat \<Rightarrow> buffer \<Rightarrow> u64 \<Rightarrow> buffer option" where
  "put_u64_from 0 b v = Some b"
| "put_u64_from (Suc i) b v = do {
     b \<leftarrow> buffer_write b (ucast (drop_bit (i * 8) v));
     put_u64_from i b v
   }"

definition put_u64 :: "buffer \<Rightarrow> u64 \<Rightarrow> buffer option" where
  "put_u64 b v = put_u64_from 8 b v"

section \<open>Request parsers\<close>

record mgmt_req =
  rq_cmd :: byte
  rq_user :: "byte list"
  rq_pass :: "byte list"
  rq_key :: byte
  rq_u32 :: u32
  rq_u8 :: byte

text \<open>After \<open>memset(&r, 0, sizeof(r))\<close>\<close>

definition blank_req :: mgmt_req where
  "blank_req = \<lparr>rq_cmd = 0, rq_user = replicate 256 0, rq_pass = replicate 256 0,
     rq_key = 0, rq_u32 = 0, rq_u8 = 0\<rparr>"

text \<open>\<open>memcpy(dst, src, n); dst[n] = 0\<close>\<close>

definition copy_field :: "byte list \<Rightarrow> byte list \<Rightarrow> nat \<Rightarrow> byte list" where
  "copy_field dst src n = (memcpy_at dst 0 (take n src))[n := 0]"

text \<open>-1 error, 0 need more, otherwise the bytes consumed\<close>

definition parse_auth :: "byte list \<Rightarrow> byte list \<Rightarrow> byte list \<Rightarrow> int \<times> byte list \<times> byte list" where
  "parse_auth p user pass =
     (let len = length p in
      if len < 2 then (0, user, pass)
      else if p ! 0 \<noteq> SMP_VERSION then (-1, user, pass)
      else let ulen = p ! 1 in
      if ulen = 0 then (-1, user, pass)
      else if len < 2 + unat ulen + 1 then (0, user, pass)
      else let plen = p ! (2 + unat ulen) in
      if plen = 0 then (-1, user, pass)
      else let need = 2 + unat ulen + 1 + unat plen in
      if len < need then (0, user, pass)
      else (int need, copy_field user (drop 2 p) (unat ulen),
            copy_field pass (drop (3 + unat ulen) p) (unat plen)))"

text \<open>-1 error, -2 unknown command, 0 need more, otherwise the bytes consumed\<close>

definition parse_request :: "byte list \<Rightarrow> mgmt_req \<Rightarrow> int \<times> mgmt_req" where
  "parse_request p r =
     (let len = length p in
      if len < 2 then (0, r)
      else if p ! 0 \<noteq> SMP_VERSION then (-1, r)
      else let r = r\<lparr>rq_cmd := p ! 1\<rparr> in
      if rq_cmd r = SMP_CMD_METRICS \<or> rq_cmd r = SMP_CMD_LIST_USERS \<or> rq_cmd r = SMP_CMD_GET_CONFIG
      then (2, r)
      else if rq_cmd r = SMP_CMD_ADD_USER then
        (if len < 3 then (0, r)
         else let ulen = p ! 2 in
         if ulen = 0 then (-1, r)
         else if len < 3 + unat ulen + 1 then (0, r)
         else let plen = p ! (3 + unat ulen) in
         if plen = 0 then (-1, r)
         else let need = 3 + unat ulen + 1 + unat plen in
         if len < need then (0, r)
         else (int need, r\<lparr>rq_user := copy_field (rq_user r) (drop 3 p) (unat ulen),
                           rq_pass := copy_field (rq_pass r) (drop (4 + unat ulen) p) (unat plen)\<rparr>))
      else if rq_cmd r = SMP_CMD_DEL_USER then
        (if len < 3 then (0, r)
         else let ulen = p ! 2 in
         if ulen = 0 then (-1, r)
         else let need = 3 + unat ulen in
         if len < need then (0, r)
         else (int need, r\<lparr>rq_user := copy_field (rq_user r) (drop 3 p) (unat ulen)\<rparr>))
      else if rq_cmd r = SMP_CMD_SET_CONFIG then
        (if len < 3 then (0, r)
         else let r = r\<lparr>rq_key := p ! 2\<rparr> in
         if rq_key r = SMP_CFG_AUTH_REQUIRED
         then (if len < 4 then (0, r) else (4, r\<lparr>rq_u8 := p ! 3\<rparr>))
         else (if len < 7 then (0, r)
               else (7, r\<lparr>rq_u32 := push_bit 24 (ucast (p ! 3)) OR push_bit 16 (ucast (p ! 4))
                              OR push_bit 8 (ucast (p ! 5)) OR ucast (p ! 6)\<rparr>)))
      else (-2, r))"

section \<open>Responses\<close>

record services =
  sv_users :: user_db
  sv_cfg :: proxy_config
  sv_metrics :: metrics

definition resp_header :: "buffer \<Rightarrow> byte \<Rightarrow> byte \<Rightarrow> u16 \<Rightarrow> buffer option" where
  "resp_header b cmd status datalen = do {
     b \<leftarrow> buffer_write b SMP_VERSION;
     b \<leftarrow> buffer_write b cmd;
     b \<leftarrow> buffer_write b status;
     put_u16 b datalen
   }"

definition resp_simple :: "buffer \<Rightarrow> byte \<Rightarrow> byte \<Rightarrow> buffer option" where
  "resp_simple b cmd status = resp_header b cmd status 0"

definition resp_metrics :: "services \<Rightarrow> buffer \<Rightarrow> buffer option" where
  "resp_metrics sv b = do {
     let m = sv_metrics sv;
     b \<leftarrow> resp_header b SMP_CMD_METRICS SMP_OK 56;
     b \<leftarrow> put_u64 b (m_historic m);
     b \<leftarrow> put_u64 b (m_current m);
     b \<leftarrow> put_u64 b (metrics_bytes_transferred m);
     b \<leftarrow> put_u64 b (m_failed m);
     b \<leftarrow> put_u64 b (of_nat (users_count (sv_users sv)));
     b \<leftarrow> put_u64 b (m_sent m);
     put_u64 b (m_received m)
   }"

definition resp_get_config :: "services \<Rightarrow> buffer \<Rightarrow> buffer option" where
  "resp_get_config sv b = do {
     let c = sv_cfg sv;
     b \<leftarrow> resp_header b SMP_CMD_GET_CONFIG SMP_OK 9;
     b \<leftarrow> put_u32 b (ucast (cfg_io_buffer_size c));
     b \<leftarrow> put_u32 b (cfg_conn_timeout_secs c);
     buffer_write b (if cfg_auth_required c then 1 else 0)
   }"

text \<open>The first loop of \<open>resp_list_users\<close>. A NULL from \<open>users_name_at\<close> would be dereferenced.\<close>

primrec list_datalen :: "user_db \<Rightarrow> nat list \<Rightarrow> u32 \<Rightarrow> u32 option" where
  "list_datalen db [] d = Some d"
| "list_datalen db (i # is) d = do {
     n \<leftarrow> users_name_at db i;
     list_datalen db is (d + (1 + of_nat (strlen n)))
   }"

primrec list_entries :: "user_db \<Rightarrow> nat list \<Rightarrow> buffer \<Rightarrow> buffer option" where
  "list_entries db [] b = Some b"
| "list_entries db (i # is) b = do {
     n \<leftarrow> users_name_at db i;
     let l = strlen n;
     b \<leftarrow> buffer_write b (of_nat l);
     b \<leftarrow> buffer_write_list b (take l n);
     list_entries db is b
   }"

definition resp_list_users :: "services \<Rightarrow> buffer \<Rightarrow> buffer option" where
  "resp_list_users sv b = do {
     let count = users_count (sv_users sv);
     datalen \<leftarrow> list_datalen (sv_users sv) [0..<count] 2;
     b \<leftarrow> resp_header b SMP_CMD_LIST_USERS SMP_OK (ucast datalen);
     b \<leftarrow> put_u16 b (of_nat count);
     list_entries (sv_users sv) [0..<count] b
   }"

definition set_config :: "mgmt_req \<Rightarrow> proxy_config \<Rightarrow> byte \<times> proxy_config" where
  "set_config r cfg =
     (if rq_key r = SMP_CFG_IO_BUFFER_SIZE
      then let v = rq_u32 r;
               v = (if v < of_nat CONFIG_MIN_BUFFER then of_nat CONFIG_MIN_BUFFER else v);
               v = (if v > of_nat CONFIG_MAX_BUFFER then of_nat CONFIG_MAX_BUFFER else v)
           in (SMP_OK, cfg\<lparr>cfg_io_buffer_size := ucast v\<rparr>)
      else if rq_key r = SMP_CFG_CONN_TIMEOUT
      then (SMP_OK, cfg\<lparr>cfg_conn_timeout_secs := rq_u32 r\<rparr>)
      else if rq_key r = SMP_CFG_AUTH_REQUIRED
      then (SMP_OK, cfg\<lparr>cfg_auth_required := rq_u8 r \<noteq> 0\<rparr>)
      else (SMP_INVALID_ARGUMENTS, cfg))"

definition mgmt_process_request :: "mgmt_req \<Rightarrow> services \<Rightarrow> buffer \<Rightarrow> (buffer \<times> services) option" where
  "mgmt_process_request r sv b =
     (if rq_cmd r = SMP_CMD_METRICS then map_option (\<lambda>b. (b, sv)) (resp_metrics sv b)
      else if rq_cmd r = SMP_CMD_GET_CONFIG then map_option (\<lambda>b. (b, sv)) (resp_get_config sv b)
      else if rq_cmd r = SMP_CMD_LIST_USERS then map_option (\<lambda>b. (b, sv)) (resp_list_users sv b)
      else if rq_cmd r = SMP_CMD_ADD_USER then
        (let (ur, db) = users_add (Some (rq_user r)) (Some (rq_pass r)) (sv_users sv);
             st = (if ur = USERS_FULL then SMP_USER_LIMIT_REACHED
                   else if ur = USERS_INVALID then SMP_INVALID_ARGUMENTS else SMP_OK)
         in map_option (\<lambda>b. (b, sv\<lparr>sv_users := db\<rparr>)) (resp_simple b (rq_cmd r) st))
      else if rq_cmd r = SMP_CMD_DEL_USER then
        (let (ur, db) = users_del (Some (rq_user r)) (sv_users sv);
             st = (if ur = USERS_OK then SMP_OK
                   else if ur = USERS_NOT_FOUND then SMP_USER_NOT_FOUND
                   else SMP_INVALID_ARGUMENTS)
         in map_option (\<lambda>b. (b, sv\<lparr>sv_users := db\<rparr>)) (resp_simple b (rq_cmd r) st))
      else if rq_cmd r = SMP_CMD_SET_CONFIG then
        (let (st, cfg) = set_config r (sv_cfg sv)
         in map_option (\<lambda>b. (b, sv\<lparr>sv_cfg := cfg\<rparr>)) (resp_simple b (rq_cmd r) st))
      else map_option (\<lambda>b. (b, sv)) (resp_simple b (rq_cmd r) SMP_UNKNOWN_COMMAND))"

section \<open>The grammar of the protocol\<close>

text \<open>A length-prefixed field and the commands of the protocol, as they travel.\<close>

definition field_ok :: "byte list \<Rightarrow> bool" where
  "field_ok u \<longleftrightarrow> 0 < length u \<and> length u \<le> 255"

definition field_bytes :: "byte list \<Rightarrow> byte list" where
  "field_bytes u = of_nat (length u) # u"

datatype command = CmdMetrics | CmdListUsers | CmdGetConfig
  | CmdAddUser "byte list" "byte list" | CmdDelUser "byte list"
  | CmdSetAuth byte | CmdSetNum byte u32 | CmdUnknown byte

fun command_ok :: "command \<Rightarrow> bool" where
  "command_ok (CmdAddUser u p) \<longleftrightarrow> field_ok u \<and> field_ok p"
| "command_ok (CmdDelUser u) \<longleftrightarrow> field_ok u"
| "command_ok (CmdSetNum k v) \<longleftrightarrow> k \<noteq> SMP_CFG_AUTH_REQUIRED"
| "command_ok (CmdUnknown c) \<longleftrightarrow> SMP_CMD_SET_CONFIG < c"
| "command_ok _ \<longleftrightarrow> True"

fun command_code :: "command \<Rightarrow> byte" where
  "command_code CmdMetrics = SMP_CMD_METRICS"
| "command_code CmdListUsers = SMP_CMD_LIST_USERS"
| "command_code CmdGetConfig = SMP_CMD_GET_CONFIG"
| "command_code (CmdAddUser u p) = SMP_CMD_ADD_USER"
| "command_code (CmdDelUser u) = SMP_CMD_DEL_USER"
| "command_code (CmdSetAuth v) = SMP_CMD_SET_CONFIG"
| "command_code (CmdSetNum k v) = SMP_CMD_SET_CONFIG"
| "command_code (CmdUnknown c) = c"

fun command_args :: "command \<Rightarrow> byte list" where
  "command_args (CmdAddUser u p) = field_bytes u @ field_bytes p"
| "command_args (CmdDelUser u) = field_bytes u"
| "command_args (CmdSetAuth v) = [SMP_CFG_AUTH_REQUIRED, v]"
| "command_args (CmdSetNum k v) = k # bytes32 v"
| "command_args _ = []"

definition command_bytes :: "command \<Rightarrow> byte list" where
  "command_bytes c = SMP_VERSION # command_code c # command_args c"

text \<open>What \<open>parse_request\<close> returns and stores for a command.\<close>

fun command_rc :: "command \<Rightarrow> int" where
  "command_rc (CmdUnknown c) = -2"
| "command_rc c = int (length (command_bytes c))"

fun command_req :: "command \<Rightarrow> mgmt_req" where
  "command_req (CmdAddUser u p) = blank_req\<lparr>rq_cmd := SMP_CMD_ADD_USER,
     rq_user := copy_field (rq_user blank_req) u (length u),
     rq_pass := copy_field (rq_pass blank_req) p (length p)\<rparr>"
| "command_req (CmdDelUser u) = blank_req\<lparr>rq_cmd := SMP_CMD_DEL_USER,
     rq_user := copy_field (rq_user blank_req) u (length u)\<rparr>"
| "command_req (CmdSetAuth v) = blank_req\<lparr>rq_cmd := SMP_CMD_SET_CONFIG,
     rq_key := SMP_CFG_AUTH_REQUIRED, rq_u8 := v\<rparr>"
| "command_req (CmdSetNum k v) = blank_req\<lparr>rq_cmd := SMP_CMD_SET_CONFIG, rq_key := k, rq_u32 := v\<rparr>"
| "command_req c = blank_req\<lparr>rq_cmd := command_code c\<rparr>"

section \<open>Scanning fields\<close>

datatype scan = More | Bad | Got "byte list" "byte list"

fun scan_field :: "byte list \<Rightarrow> scan" where
  "scan_field [] = More"
| "scan_field (n # q) =
     (if n = 0 then Bad else if length q < unat n then More
      else Got (take (unat n) q) (drop (unat n) q))"

lemma field_len [simp]: "field_ok u \<Longrightarrow> unat (of_nat (length u) :: byte) = length u"
  by (simp add: field_ok_def unat_of_nat_byte)

lemma field_len_nonzero: "field_ok u \<Longrightarrow> (of_nat (length u) :: byte) \<noteq> 0"
  by (metis field_len field_ok_def less_numeral_extra(3) unsigned_0)

lemma scan_field_bytes: "field_ok u \<Longrightarrow> scan_field (field_bytes u @ q) = Got u q"
  by (simp add: field_bytes_def field_len_nonzero)

lemma scan_field_Got:
  assumes "scan_field q = Got u r"
  shows "field_ok u" and "q = field_bytes u @ r"
proof -
  obtain n q' where q: "q = n # q'" "n \<noteq> 0" "unat n \<le> length q'" "u = take (unat n) q'"
    "r = drop (unat n) q'"
    using assms by (cases q) (auto split: if_splits simp: not_less)
  have "unat n \<le> 255" using unat_byte_lt [of n] by linarith
  moreover have "0 < unat n" using q(2) by (simp add: unat_gt_0)
  ultimately show "field_ok u" using q by (auto simp: field_ok_def)
  have "of_nat (length u) = n" using q by simp
  then show "q = field_bytes u @ r" using q by (simp add: field_bytes_def)
qed

lemma scan_field_More:
  assumes "scan_field q = More"
  shows "\<exists>u. field_ok u \<and> strict_prefix q (field_bytes u)"
proof (cases q)
  case Nil
  then show ?thesis
    by (intro exI [of _ "[1]"]) (simp add: field_ok_def field_bytes_def)
next
  case (Cons n q')
  define u where "u = q' @ replicate (unat n - length q') 1"
  have n: "n \<noteq> 0" "length q' < unat n" using assms Cons by (auto split: if_splits)
  then have len: "length u = unat n" by (simp add: u_def)
  moreover have "unat n \<le> 255" using unat_byte_lt [of n] by linarith
  ultimately have "field_ok u" using n by (auto simp: field_ok_def)
  moreover have "strict_prefix q' u"
    using n by (auto simp: u_def strict_prefix_def)
  moreover have "of_nat (length u) = n" using len by simp
  ultimately show ?thesis using Cons by (auto simp: field_bytes_def)
qed

lemma scan_field_prefix: "field_ok u \<Longrightarrow> strict_prefix q (field_bytes u) \<Longrightarrow> scan_field q = More"
  by (cases q) (auto simp: field_bytes_def field_len_nonzero dest: prefix_length_less)

text \<open>The parsers in terms of the scanner\<close>

lemma nth_drop_header:
  "(a # b # q) ! (2 + k) = q ! k" "(a # b # c # q) ! (3 + k) = q ! k"
  "drop (3 + k) (a # b # q) = drop (1 + k) q" "drop (4 + k) (a # b # c # q) = drop (1 + k) q"
  by (simp_all add: numeral_eq_Suc)

lemma copy_field_take: "copy_field d q n = copy_field d (take n q) (length (take n q))"
  if "n \<le> length q"
  using that by (simp add: copy_field_def)

lemma scan_field_split:
  obtains (More) "q = [] \<or> (\<exists>n q'. q = n # q' \<and> n \<noteq> 0 \<and> length q' < unat n)" "scan_field q = More"
    | (Bad) q' where "q = 0 # q'" "scan_field q = Bad"
    | (Got) u r where "q = field_bytes u @ r" "field_ok u" "scan_field q = Got u r"
proof (cases "scan_field q")
  case More
  then show thesis by (intro that(1)) (auto elim: scan_field.elims split: if_splits)
next
  case Bad
  then obtain q' where "q = 0 # q'" by (auto elim!: scan_field.elims split: if_splits)
  then show thesis using Bad by (rule that(2))
next
  case (Got u r)
  then show thesis using scan_field_Got [OF Got] by (intro that(3))
qed

lemma parse_request_add:
  "parse_request (SMP_VERSION # SMP_CMD_ADD_USER # q) r =
     (let r = r\<lparr>rq_cmd := SMP_CMD_ADD_USER\<rparr> in
      case scan_field q of More \<Rightarrow> (0, r) | Bad \<Rightarrow> (-1, r)
      | Got u q \<Rightarrow> (case scan_field q of More \<Rightarrow> (0, r) | Bad \<Rightarrow> (-1, r)
        | Got p q \<Rightarrow> (int (2 + length (field_bytes u @ field_bytes p)),
            r\<lparr>rq_user := copy_field (rq_user r) u (length u),
              rq_pass := copy_field (rq_pass r) p (length p)\<rparr>)))"
proof (cases rule: scan_field_split [of q])
  case More
  then show ?thesis by (auto simp: parse_request_def smp_cmd_defs Let_def)
next
  case Bad
  then show ?thesis by (simp add: parse_request_def smp_cmd_defs Let_def)
next
  case (Got u q1)
  note got = Got
  have len: "unat (of_nat (length u) :: byte) = length u" "(of_nat (length u) :: byte) \<noteq> 0"
    using Got(2) by (simp_all add: field_len_nonzero)
  show ?thesis
  proof (cases rule: scan_field_split [of q1])
    case More
    with got len show ?thesis
      by (auto simp: parse_request_def smp_cmd_defs Let_def field_bytes_def nth_drop_header)
  next
    case Bad
    with got len show ?thesis
      by (auto simp: parse_request_def smp_cmd_defs Let_def field_bytes_def nth_drop_header)
  next
    case (Got p q2)
    have plen: "unat (of_nat (length p) :: byte) = length p" "(of_nat (length p) :: byte) \<noteq> 0"
      using Got(2) by (simp_all add: field_len_nonzero)
    show ?thesis using got Got len plen
      by (simp add: parse_request_def smp_cmd_defs Let_def field_bytes_def nth_drop_header
          copy_field_def)
  qed
qed

lemma parse_request_del:
  "parse_request (SMP_VERSION # SMP_CMD_DEL_USER # q) r =
     (let r = r\<lparr>rq_cmd := SMP_CMD_DEL_USER\<rparr> in
      case scan_field q of More \<Rightarrow> (0, r) | Bad \<Rightarrow> (-1, r)
      | Got u q \<Rightarrow> (int (2 + length (field_bytes u)),
            r\<lparr>rq_user := copy_field (rq_user r) u (length u)\<rparr>))"
proof (cases rule: scan_field_split [of q])
  case More
  then show ?thesis by (auto simp: parse_request_def smp_cmd_defs Let_def)
next
  case Bad
  then show ?thesis by (simp add: parse_request_def smp_cmd_defs Let_def)
next
  case (Got u q1)
  have len: "unat (of_nat (length u) :: byte) = length u" "(of_nat (length u) :: byte) \<noteq> 0"
    using Got(2) by (simp_all add: field_len_nonzero)
  with Got show ?thesis
    by (simp add: parse_request_def smp_cmd_defs Let_def field_bytes_def copy_field_def)
qed

lemma parse_auth_scan:
  "parse_auth (SMP_VERSION # q) user pass =
     (case scan_field q of More \<Rightarrow> (0, user, pass)
      | Bad \<Rightarrow> (-1, user, pass)
      | Got u q \<Rightarrow> (case scan_field q of More \<Rightarrow> (0, user, pass) | Bad \<Rightarrow> (-1, user, pass)
        | Got p q \<Rightarrow> (int (1 + length (field_bytes u @ field_bytes p)),
            copy_field user u (length u), copy_field pass p (length p))))"
proof (cases rule: scan_field_split [of q])
  case More
  then show ?thesis by (auto simp: parse_auth_def Let_def)
next
  case Bad
  then show ?thesis by (simp add: parse_auth_def Let_def)
next
  case (Got u q1)
  note got = Got
  have len: "unat (of_nat (length u) :: byte) = length u" "(of_nat (length u) :: byte) \<noteq> 0"
    using Got(2) by (simp_all add: field_len_nonzero)
  show ?thesis
  proof (cases rule: scan_field_split [of q1])
    case More
    with got len show ?thesis
      by (auto simp: parse_auth_def Let_def field_bytes_def nth_drop_header)
  next
    case Bad
    with got len show ?thesis
      by (auto simp: parse_auth_def Let_def field_bytes_def nth_drop_header)
  next
    case (Got p q2)
    have plen: "unat (of_nat (length p) :: byte) = length p" "(of_nat (length p) :: byte) \<noteq> 0"
      using Got(2) by (simp_all add: field_len_nonzero)
    show ?thesis using got Got len plen
      by (simp add: parse_auth_def Let_def field_bytes_def nth_drop_header copy_field_def)
  qed
qed

section \<open>The parser decodes the grammar\<close>

lemma parse_request_command:
  assumes "command_ok c"
  shows "parse_request (command_bytes c @ rest) blank_req = (command_rc c, command_req c)"
proof (cases c)
  case (CmdAddUser u p)
  then show ?thesis
    using assms by (simp add: command_bytes_def parse_request_add scan_field_bytes Let_def blank_req_def)
next
  case (CmdDelUser u)
  then show ?thesis
    using assms by (simp add: command_bytes_def parse_request_del scan_field_bytes Let_def blank_req_def)
next
  case (CmdSetNum k v)
  then show ?thesis
    using assms bytes32_join [of v]
    by (simp add: command_bytes_def parse_request_def Let_def smp_cmd_defs smp_cfg_defs bytes32_def
        blank_req_def)
next
  case (CmdUnknown b)
  then show ?thesis
    using assms by (auto simp: command_bytes_def parse_request_def Let_def smp_cmd_defs)
qed (simp_all add: command_bytes_def parse_request_def Let_def smp_cmd_defs smp_cfg_defs blank_req_def)

lemma strict_prefix_append_cases:
  assumes "strict_prefix q (xs @ ys)"
  obtains "strict_prefix q xs" | q' where "q = xs @ q'" "strict_prefix q' ys"
proof (cases "strict_prefix q xs")
  case False
  then obtain q' where "q = xs @ q'"
    using assms by (metis prefix_append prefix_def prefix_order.less_le strict_prefixE')
  moreover from this assms have "strict_prefix q' ys" by (auto simp: strict_prefix_def)
  ultimately show ?thesis by (rule that(2))
qed (rule that(1))

lemma parse_request_partial:
  assumes "command_ok c" and "strict_prefix p (command_bytes c)"
  shows "fst (parse_request p blank_req) = 0"
proof (cases "length p < 2")
  case True
  then show ?thesis by (simp add: parse_request_def Let_def)
next
  case False
  then obtain q where p: "p = SMP_VERSION # command_code c # q" "strict_prefix q (command_args c)"
    using assms(2) by (cases p; cases "tl p") (auto simp: command_bytes_def)
  show ?thesis
  proof (cases c)
    case (CmdAddUser u pw)
    have "strict_prefix q (field_bytes u @ field_bytes pw)" using p CmdAddUser by simp
    then show ?thesis
    proof (cases rule: strict_prefix_append_cases)
      case 1
      then have "scan_field q = More" using CmdAddUser assms(1) by (auto intro: scan_field_prefix)
      with p CmdAddUser show ?thesis by (simp add: parse_request_add Let_def)
    next
      case (2 q')
      then have "scan_field q' = More" using CmdAddUser assms(1) by (auto intro: scan_field_prefix)
      with 2 p CmdAddUser assms(1) show ?thesis
        by (simp add: parse_request_add Let_def scan_field_bytes)
    qed
  next
    case (CmdDelUser u)
    with p assms(1) have "scan_field q = More" by (auto intro: scan_field_prefix)
    with p CmdDelUser show ?thesis by (simp add: parse_request_del Let_def)
  next
    case (CmdSetAuth v)
    with p show ?thesis
      by (cases q) (auto simp: parse_request_def Let_def smp_cmd_defs dest: prefix_length_less)
  next
    case (CmdSetNum k v)
    with p assms(1) show ?thesis
      by (cases q) (auto simp: parse_request_def Let_def smp_cmd_defs dest: prefix_length_less)
  qed (use p in simp_all)
qed

lemma set_config_args:
  "(\<exists>c. command_ok c \<and> command_code c = SMP_CMD_SET_CONFIG
      \<and> (prefix (command_args c) q \<or> strict_prefix q (command_args c)))"
proof (cases q)
  case Nil
  then show ?thesis by (intro exI [of _ "CmdSetAuth 0"]) simp
next
  case (Cons k r)
  show ?thesis
  proof (cases "k = SMP_CFG_AUTH_REQUIRED")
    case True
    with Cons show ?thesis by (intro exI [of _ "CmdSetAuth (hd r)"]) (cases r; simp)
  next
    case False
    define s where "s = take 4 (r @ replicate 4 0)"
    have "length s = 4" by (simp add: s_def min_def)
    then obtain v where v: "bytes32 v = s" using bytes32_surj by blast
    have "prefix s r \<or> strict_prefix r s"
    proof (cases "4 \<le> length r")
      case True
      then show ?thesis by (simp add: s_def take_is_prefix)
    next
      case False
      then show ?thesis by (auto simp: s_def strict_prefix_def)
    qed
    with False Cons v show ?thesis by (intro exI [of _ "CmdSetNum k v"]) auto
  qed
qed

lemma parse_request_complete:
  assumes "fst (parse_request p blank_req) \<noteq> -1" and "2 \<le> length p"
  shows "\<exists>c. command_ok c \<and> (prefix (command_bytes c) p \<or> strict_prefix p (command_bytes c))"
proof -
  obtain a b q where "p = a # b # q" using assms(2) by (cases p; cases "tl p") auto
  then have p: "p = SMP_VERSION # b # q"
    using assms by (auto simp: parse_request_def Let_def split: if_splits)
  have whole: ?thesis if "command_ok c" "command_code c = b" "prefix (command_args c) q" for c
    using that p by (intro exI [of _ c]) (simp add: command_bytes_def)
  have part: ?thesis if "command_ok c" "command_code c = b" "strict_prefix q (command_args c)" for c
    using that p by (intro exI [of _ c]) (simp add: command_bytes_def)
  consider "b = SMP_CMD_METRICS" | "b = SMP_CMD_LIST_USERS" | "b = SMP_CMD_GET_CONFIG"
    | (add) "b = SMP_CMD_ADD_USER" | (del) "b = SMP_CMD_DEL_USER" | (set) "b = SMP_CMD_SET_CONFIG"
    | (other) "SMP_CMD_SET_CONFIG < b"
  proof -
    have "unat b = 0 \<or> unat b = 1 \<or> unat b = 2 \<or> unat b = 3 \<or> unat b = 4 \<or> unat b = 5 \<or> 5 < unat b"
      by linarith
    then show thesis
      using that byte_eq_of_nat_iff [of 0 b] byte_eq_of_nat_iff [of 1 b] byte_eq_of_nat_iff [of 2 b]
        byte_eq_of_nat_iff [of 3 b] byte_eq_of_nat_iff [of 4 b] byte_eq_of_nat_iff [of 5 b]
      by (auto simp: smp_cmd_defs word_less_nat_alt)
  qed
  then show ?thesis
  proof cases
    case add
    then show ?thesis
    proof (cases rule: scan_field_split [of q])
      case More
      then obtain u where "field_ok u" "strict_prefix q (field_bytes u)"
        using scan_field_More by blast
      with add show ?thesis
        by (intro part [of "CmdAddUser u [1]"]) (auto simp: field_ok_def strict_prefix_def)
    next
      case (Bad q')
      with assms p add show ?thesis by (simp add: parse_request_add Let_def)
    next
      case (Got u q1)
      note got = Got
      show ?thesis
      proof (cases rule: scan_field_split [of q1])
        case More
        then obtain w where "field_ok w" "strict_prefix q1 (field_bytes w)"
          using scan_field_More by blast
        with add got show ?thesis
          by (intro part [of "CmdAddUser u w"]) (auto simp: strict_prefix_def)
      next
        case (Bad q')
        with assms p add got show ?thesis by (simp add: parse_request_add Let_def)
      next
        case (Got w q2)
        with add got show ?thesis by (intro whole [of "CmdAddUser u w"]) auto
      qed
    qed
  next
    case del
    then show ?thesis
    proof (cases rule: scan_field_split [of q])
      case More
      then obtain u where "field_ok u" "strict_prefix q (field_bytes u)"
        using scan_field_More by blast
      with del show ?thesis by (intro part [of "CmdDelUser u"]) auto
    next
      case (Bad q')
      with assms p del show ?thesis by (simp add: parse_request_del Let_def)
    next
      case (Got u q1)
      with del show ?thesis by (intro whole [of "CmdDelUser u"]) auto
    qed
  next
    case set
    then show ?thesis using set_config_args [of q] whole part by force
  next
    case other
    then show ?thesis by (intro whole [of "CmdUnknown b"]) simp_all
  qed (use whole [of CmdMetrics] whole [of CmdListUsers] whole [of CmdGetConfig] in simp_all)
qed

section \<open>The responses are complete\<close>

lemma put_u16_list: "put_u16 b v = buffer_write_list b (bytes16 v)"
  by (simp add: put_u16_def bytes16_def ucast_low_byte cong: bind_option_cong)

lemma put_u32_list: "put_u32 b v = buffer_write_list b (bytes32 v)"
  by (simp add: put_u32_def bytes32_def)

lemma put_u64_list: "put_u64 b v = buffer_write_list b (bytes64 v)"
  by (simp add: put_u64_def bytes64_def numeral_eq_Suc)

lemma resp_header_list:
  "resp_header b cmd st d = buffer_write_list b ([SMP_VERSION, cmd, st] @ bytes16 d)"
  by (simp add: resp_header_def put_u16_list)

text \<open>A response frame\<close>

definition response_bytes :: "byte \<Rightarrow> byte \<Rightarrow> byte list \<Rightarrow> byte list" where
  "response_bytes cmd st d = [SMP_VERSION, cmd, st] @ bytes16 (of_nat (length d)) @ d"

definition names_bytes :: "byte list list \<Rightarrow> byte list" where
  "names_bytes ns = concat (map field_bytes ns)"

definition user_names :: "user_db \<Rightarrow> byte list list" where
  "user_names db = map u_name (filter u_used db)"

definition metrics_data :: "services \<Rightarrow> byte list" where
  "metrics_data sv = (let m = sv_metrics sv in
     bytes64 (m_historic m) @ bytes64 (m_current m) @ bytes64 (m_sent m + m_received m) @
     bytes64 (m_failed m) @ bytes64 (of_nat (users_count (sv_users sv))) @
     bytes64 (m_sent m) @ bytes64 (m_received m))"

definition config_data :: "services \<Rightarrow> byte list" where
  "config_data sv = (let c = sv_cfg sv in
     bytes32 (ucast (cfg_io_buffer_size c)) @ bytes32 (cfg_conn_timeout_secs c) @
     [if cfg_auth_required c then 1 else 0])"

definition list_data :: "services \<Rightarrow> byte list" where
  "list_data sv = bytes16 (of_nat (length (user_names (sv_users sv)))) @
     names_bytes (user_names (sv_users sv))"

lemma resp_simple_list: "resp_simple b cmd st = buffer_write_list b (response_bytes cmd st [])"
  by (simp add: resp_simple_def resp_header_list response_bytes_def)

lemma resp_metrics_list:
  "resp_metrics sv b = buffer_write_list b (response_bytes SMP_CMD_METRICS SMP_OK (metrics_data sv))"
  by (simp add: resp_metrics_def resp_header_list put_u64_list response_bytes_def metrics_data_def
      metrics_bytes_transferred_def Let_def snk.put_list_append)

lemma resp_get_config_list:
  "resp_get_config sv b =
     buffer_write_list b (response_bytes SMP_CMD_GET_CONFIG SMP_OK (config_data sv))"
  by (simp add: resp_get_config_def resp_header_list put_u32_list response_bytes_def config_data_def
      Let_def snk.put_list_append)

lemma field_ok_name: "cstring_field n \<Longrightarrow> field_ok n \<and> strlen n = length n"
  by (auto simp: cstring_field_def field_ok_def strlen_no_nul)

lemma list_loops:
  assumes "\<And>i. i \<in> set is \<Longrightarrow> users_name_at db i = Some (f i) \<and> cstring_field (f i)"
  shows "list_datalen db is d = Some (d + of_nat (length (names_bytes (map f is))))"
    and "list_entries db is b = buffer_write_list b (names_bytes (map f is))"
proof -
  from assms show "list_datalen db is d = Some (d + of_nat (length (names_bytes (map f is))))"
    by (induction "is" arbitrary: d)
      (simp_all add: names_bytes_def field_bytes_def field_ok_name algebra_simps)
  from assms show "list_entries db is b = buffer_write_list b (names_bytes (map f is))"
  proof (induction "is" arbitrary: b)
    case (Cons i "is")
    then have "users_name_at db i = Some (f i)" "strlen (f i) = length (f i)"
      by (simp_all add: field_ok_name)
    with Cons show ?case
      by (simp add: names_bytes_def field_bytes_def snk.put_list_append)
  qed (simp add: names_bytes_def)
qed

lemma users_inv_names:
  assumes "users_inv db" and "n \<in> set (user_names db)"
  shows "cstring_field n"
  using assms by (auto simp: users_inv_def user_names_def in_set_conv_nth)

lemma length_names_bytes:
  "(\<And>n. n \<in> set ns \<Longrightarrow> cstring_field n) \<Longrightarrow> length (names_bytes ns) \<le> 256 * length ns"
proof (induction ns)
  case (Cons n ns)
  then have "length n \<le> 255" "length (names_bytes ns) \<le> 256 * length ns"
    by (simp_all add: cstring_field_def)
  then show ?case by (simp add: names_bytes_def field_bytes_def)
qed (simp add: names_bytes_def)

lemma length_user_names: "length (user_names db) = users_count db"
  by (simp add: user_names_def users_count_filter)

lemma length_list_data:
  assumes "users_inv (sv_users sv)"
  shows "length (list_data sv) \<le> 2 + 256 * 64"
  using length_names_bytes [of "user_names (sv_users sv)"] users_inv_names [OF assms]
    users_count_le [OF assms] length_user_names [of "sv_users sv"]
  by (auto simp: list_data_def USERS_MAX_def)

lemma ucast_of_nat_u32: "ucast (of_nat n :: u32) = (of_nat n :: u16)"
  by (rule bit_word_eqI) (simp add: bit_simps)

lemma resp_list_users_list:
  assumes inv: "users_inv (sv_users sv)"
  shows "resp_list_users sv b =
    buffer_write_list b (response_bytes SMP_CMD_LIST_USERS SMP_OK (list_data sv))"
proof -
  let ?db = "sv_users sv" and ?ns = "user_names (sv_users sv)"
  have name: "users_name_at ?db i = Some (?ns ! i) \<and> cstring_field (?ns ! i)"
    if "i \<in> set [0..<users_count ?db]" for i
    using that users_inv_names [OF inv, of "?ns ! i"]
    by (simp add: users_name_at_filter length_user_names) (simp add: user_names_def users_count_filter)
  have map: "map ((!) ?ns) [0..<users_count ?db] = ?ns"
    using length_user_names [of ?db] by (metis map_nth)
  have "ucast (2 + of_nat (length (names_bytes ?ns)) :: u32) = (of_nat (length (list_data sv)) :: u16)"
    using ucast_of_nat_u32 [of "length (list_data sv)"] by (simp add: list_data_def)
  moreover have "list_datalen ?db [0..<users_count ?db] d = Some (d + of_nat (length (names_bytes ?ns)))" for d
    using list_loops(1) [of "[0..<users_count ?db]" ?db "(!) ?ns"] name by (simp add: map)
  moreover have "list_entries ?db [0..<users_count ?db] = (\<lambda>b. buffer_write_list b (names_bytes ?ns))"
    using list_loops(2) [of "[0..<users_count ?db]" ?db "(!) ?ns"] name by (simp add: map fun_eq_iff)
  ultimately show ?thesis
    by (simp add: resp_list_users_def resp_header_list put_u16_list response_bytes_def Let_def
        list_data_def length_user_names snk.put_list_append)
qed

section \<open>The commands\<close>

definition MGMT_WBUF :: nat where "MGMT_WBUF = 65536"

text \<open>The effect of a command on the services: status, data and new services.\<close>

definition add_status :: "users_result \<Rightarrow> byte" where
  "add_status r = (case r of USERS_FULL \<Rightarrow> SMP_USER_LIMIT_REACHED
     | USERS_INVALID \<Rightarrow> SMP_INVALID_ARGUMENTS | _ \<Rightarrow> SMP_OK)"

definition del_status :: "users_result \<Rightarrow> byte" where
  "del_status r = (case r of USERS_OK \<Rightarrow> SMP_OK | USERS_NOT_FOUND \<Rightarrow> SMP_USER_NOT_FOUND
     | _ \<Rightarrow> SMP_INVALID_ARGUMENTS)"

definition clamp_size :: "u32 \<Rightarrow> nat" where
  "clamp_size v = max CONFIG_MIN_BUFFER (min CONFIG_MAX_BUFFER (unat v))"

fun smp_exec :: "command \<Rightarrow> services \<Rightarrow> (byte \<times> byte list) \<times> services" where
  "smp_exec CmdMetrics sv = ((SMP_OK, metrics_data sv), sv)"
| "smp_exec CmdListUsers sv = ((SMP_OK, list_data sv), sv)"
| "smp_exec CmdGetConfig sv = ((SMP_OK, config_data sv), sv)"
| "smp_exec (CmdAddUser u p) sv =
     (let (r, db) = users_step (AddUser u p) (sv_users sv)
      in ((add_status r, []), sv\<lparr>sv_users := db\<rparr>))"
| "smp_exec (CmdDelUser u) sv =
     (let (r, db) = users_step (DelUser u) (sv_users sv)
      in ((del_status r, []), sv\<lparr>sv_users := db\<rparr>))"
| "smp_exec (CmdSetAuth v) sv =
     ((SMP_OK, []), sv\<lparr>sv_cfg := (sv_cfg sv)\<lparr>cfg_auth_required := v \<noteq> 0\<rparr>\<rparr>)"
| "smp_exec (CmdSetNum k v) sv =
     (if k = SMP_CFG_IO_BUFFER_SIZE
      then ((SMP_OK, []), sv\<lparr>sv_cfg := (sv_cfg sv)\<lparr>cfg_io_buffer_size := of_nat (clamp_size v)\<rparr>\<rparr>)
      else if k = SMP_CFG_CONN_TIMEOUT
      then ((SMP_OK, []), sv\<lparr>sv_cfg := (sv_cfg sv)\<lparr>cfg_conn_timeout_secs := v\<rparr>\<rparr>)
      else ((SMP_INVALID_ARGUMENTS, []), sv))"
| "smp_exec (CmdUnknown c) sv = ((SMP_UNKNOWN_COMMAND, []), sv)"

definition services_inv :: "services \<Rightarrow> bool" where
  "services_inv sv \<longleftrightarrow> users_inv (sv_users sv) \<and> config_inv (sv_cfg sv)"

lemma cstr_copy_field:
  "length u < length d \<Longrightarrow> cstr (copy_field d u (length u)) = cstr u"
  using cstr_take_nul [of "length u" "copy_field d u (length u)"]
    nul_after_memcpy [of u "length u" d 0]
  by (simp add: copy_field_def)

lemma users_find_cstr: "cstr n = cstr n' \<Longrightarrow> users_find db n = users_find db n'"
proof -
  assume "cstr n = cstr n'"
  then have "find_from i db n = find_from i db n'" for i
    by (induction db arbitrary: i) (simp_all add: strcmp_eq_def)
  then show ?thesis by (simp add: users_find_def)
qed

lemma users_add_cstr:
  "cstr n = cstr n' \<Longrightarrow> cstr p = cstr p' \<Longrightarrow>
     users_add (Some n) (Some p) db = users_add (Some n') (Some p') db"
  by (simp add: users_add_def valid_field_def strlen_def Let_def users_find_cstr [of n n'])

lemma users_del_cstr: "cstr n = cstr n' \<Longrightarrow> users_del (Some n) db = users_del (Some n') db"
  by (simp add: users_del_def Let_def users_find_cstr [of n n'])

lemma set_config_size:
  "rq_key r = SMP_CFG_IO_BUFFER_SIZE \<Longrightarrow>
     set_config r cfg = (SMP_OK, cfg\<lparr>cfg_io_buffer_size := of_nat (clamp_size (rq_u32 r))\<rparr>)"
proof -
  assume key: "rq_key r = SMP_CFG_IO_BUFFER_SIZE"
  define v where "v = rq_u32 r"
  define w where "w = (let v = (if v < of_nat CONFIG_MIN_BUFFER then of_nat CONFIG_MIN_BUFFER else v)
    in if v > of_nat CONFIG_MAX_BUFFER then of_nat CONFIG_MAX_BUFFER else v)"
  have "unat w = clamp_size v"
    by (auto simp: w_def clamp_size_def config_limits Let_def word_less_nat_alt not_less)
  then have "(ucast w :: u64) = of_nat (clamp_size v)"
    by (metis of_nat_unat)
  moreover have "set_config r cfg = (SMP_OK, cfg\<lparr>cfg_io_buffer_size := ucast w\<rparr>)"
    unfolding set_config_def w_def v_def Let_def using key by simp
  ultimately show ?thesis by (simp add: v_def)
qed

lemma clamp_size_bounds:
  "CONFIG_MIN_BUFFER \<le> clamp_size v" "clamp_size v \<le> CONFIG_MAX_BUFFER"
  by (simp_all add: clamp_size_def config_limits)

lemma config_inv_size: "config_inv c \<Longrightarrow> config_inv (c\<lparr>cfg_io_buffer_size := of_nat (clamp_size v)\<rparr>)"
  using clamp_size_bounds [of v]
  by (simp add: config_inv_def unat_of_nat config_limits)

lemma config_inv_other:
  "config_inv c \<Longrightarrow> config_inv (c\<lparr>cfg_auth_required := a\<rparr>)"
  "config_inv c \<Longrightarrow> config_inv (c\<lparr>cfg_conn_timeout_secs := x\<rparr>)"
  by (simp_all add: config_inv_def)

lemma smp_exec_inv: "services_inv sv \<Longrightarrow> services_inv (snd (smp_exec c sv))"
  using users.step_inv [of "sv_users sv" "AddUser _ _"] users.step_inv [of "sv_users sv" "DelUser _"]
  by (cases c) (auto simp: services_inv_def config_inv_size config_inv_other split_beta Let_def)

lemma length_smp_exec:
  assumes "services_inv sv"
  shows "length (snd (fst (smp_exec c sv))) \<le> 2 + 256 * 64"
  using length_list_data [of sv] assms
  by (cases c) (auto simp: services_inv_def metrics_data_def config_data_def split_beta Let_def)

text \<open>A request is carried out as specified, its response written in full.\<close>

lemma process_request_list:
  assumes "services_inv sv" and "command_ok c"
  shows "mgmt_process_request (command_req c) sv b =
    map_option (\<lambda>b. (b, snd (smp_exec c sv)))
      (buffer_write_list b (response_bytes (command_code c) (fst (fst (smp_exec c sv)))
        (snd (fst (smp_exec c sv)))))"
proof (cases c)
  case (CmdAddUser u p)
  have "cstr (copy_field (replicate 256 0) u (length u)) = cstr u"
    "cstr (copy_field (replicate 256 0) p (length p)) = cstr p"
    using assms(2) CmdAddUser by (auto simp: cstr_copy_field field_ok_def)
  note eq = users_add_cstr [OF this]
  show ?thesis
    using CmdAddUser
    by (simp add: mgmt_process_request_def smp_cmd_defs blank_req_def eq resp_simple_list split_beta
        Let_def add_status_def split: users_result.split)
next
  case (CmdDelUser u)
  have "cstr (copy_field (replicate 256 0) u (length u)) = cstr u"
    using assms(2) CmdDelUser by (auto simp: cstr_copy_field field_ok_def)
  note eq = users_del_cstr [OF this]
  show ?thesis
    using CmdDelUser
    by (simp add: mgmt_process_request_def smp_cmd_defs blank_req_def eq resp_simple_list split_beta
        Let_def del_status_def split: users_result.split)
next
  case (CmdSetNum k v)
  then show ?thesis
    using assms(2) set_config_size [of "command_req c" "sv_cfg sv"]
    by (auto simp: mgmt_process_request_def smp_cmd_defs resp_simple_list set_config_def smp_cfg_defs
        split_beta)
next
  case (CmdUnknown k)
  then have "k \<noteq> 0" "k \<noteq> 1" "k \<noteq> 2" "k \<noteq> 3" "k \<noteq> 4" "k \<noteq> 5"
    using assms(2) by (auto simp: smp_cmd_defs)
  with CmdUnknown show ?thesis
    by (simp add: mgmt_process_request_def smp_cmd_defs resp_simple_list)
qed (use assms in \<open>simp_all add: mgmt_process_request_def smp_cmd_defs services_inv_def blank_req_def
      resp_metrics_list [unfolded smp_cmd_defs] resp_get_config_list [unfolded smp_cmd_defs]
      resp_list_users_list [unfolded smp_cmd_defs] set_config_def smp_cfg_defs resp_simple_list\<close>)

section \<open>Properties\<close>



text \<open>C29: every command is carried out as \<open>smp_exec\<close> says, and its response, written to the empty
  64 KiB buffer, is the complete frame: the length field is the true length of the data and no
  byte is dropped. The invariants of the user table and of the configuration are kept; in
  particular the buffer size a client sets is clamped to the legal range.\<close>

theorem smp_command_effect:
  assumes "services_inv sv" and "command_ok c" and "buf_inv b" and "buf_contents b = []"
    and "MGMT_WBUF \<le> buf_room b"
  shows "\<exists>b'. mgmt_process_request (command_req c) sv b = Some (b', snd (smp_exec c sv))
    \<and> buf_inv b'
    \<and> buf_contents b' = response_bytes (command_code c) (fst (fst (smp_exec c sv)))
        (snd (fst (smp_exec c sv)))
    \<and> length (snd (fst (smp_exec c sv))) < 2 ^ 16
    \<and> services_inv (snd (smp_exec c sv))"
proof -
  let ?data = "snd (fst (smp_exec c sv))"
  let ?r = "response_bytes (command_code c) (fst (fst (smp_exec c sv))) ?data"
  have "length ?r \<le> buf_room b"
    using length_smp_exec [OF assms(1), of c] assms(5)
    by (simp add: response_bytes_def MGMT_WBUF_def)
  from snk.put_list_fits [OF assms(3) this] obtain b' where
    "buffer_write_list b ?r = Some b'" "buf_inv b'" "buf_contents b' = ?r"
    using assms(4) by auto
  then show ?thesis
    using process_request_list [OF assms(1,2)] length_smp_exec [OF assms(1), of c]
      smp_exec_inv [OF assms(1)]
    by simp
qed

definition demo_services :: services where
  "demo_services = \<lparr>sv_users = users_init, sv_cfg = config_init_defaults, sv_metrics = metrics_init\<rparr>"

lemma services_inv_demo: "services_inv demo_services"
  by (simp add: services_inv_def demo_services_def users_inv_init config_inv_defaults)

theorem smp_command_effect_witness:
  "\<exists>b sv. mgmt_process_request (command_req (CmdSetNum 1 7)) demo_services
       (buffer_init MGMT_WBUF (replicate MGMT_WBUF 0)) = Some (b, sv)
     \<and> buf_contents b = [1, 5, 0, 0, 0] \<and> services_inv sv"
proof -
  have "command_ok (CmdSetNum 1 7)" by code_simp
  from smp_command_effect [OF services_inv_demo this, of "buffer_init MGMT_WBUF (replicate MGMT_WBUF 0)"]
  have "\<exists>b'. mgmt_process_request (command_req (CmdSetNum 1 7)) demo_services
       (buffer_init MGMT_WBUF (replicate MGMT_WBUF 0)) = Some (b', snd (smp_exec (CmdSetNum 1 7) demo_services))
    \<and> buf_contents b' = response_bytes 5 0 [] \<and> services_inv (snd (smp_exec (CmdSetNum 1 7) demo_services))"
    by (auto simp: smp_cmd_defs smp_cfg_defs smp_status_defs)
  then show ?thesis by (auto simp: response_bytes_def bytes16_def SMP_VERSION_def)
qed

definition auth_bytes :: "byte list \<Rightarrow> byte list \<Rightarrow> byte list" where
  "auth_bytes u p = SMP_VERSION # field_bytes u @ field_bytes p"

text \<open>C30: the authentication message is decoded exactly: whatever follows it, the parser consumes
  the whole message and the two C strings it stores are those of the fields; every proper prefix
  of a message asks for more.\<close>

theorem smp_auth_decoded:
  assumes "field_ok u" and "field_ok w" and "length ua = 256" and "length pa = 256"
  shows "(let (rc, ua', pa') = parse_auth (auth_bytes u w @ rest) ua pa
          in rc = int (length (auth_bytes u w)) \<and> cstr ua' = cstr u \<and> cstr pa' = cstr w)
    \<and> (\<forall>p. strict_prefix p (auth_bytes u w) \<longrightarrow> parse_auth p ua pa = (0, ua, pa))"
proof (intro conjI allI impI)
  show "let (rc, ua', pa') = parse_auth (auth_bytes u w @ rest) ua pa
      in rc = int (length (auth_bytes u w)) \<and> cstr ua' = cstr u \<and> cstr pa' = cstr w"
    using assms cstr_copy_field [of u ua] cstr_copy_field [of w pa]
    by (simp add: auth_bytes_def parse_auth_scan scan_field_bytes field_ok_def)
next
  fix p assume p: "strict_prefix p (auth_bytes u w)"
  show "parse_auth p ua pa = (0, ua, pa)"
  proof (cases p)
    case Nil
    then show ?thesis by (simp add: parse_auth_def Let_def)
  next
    case (Cons v q)
    then have q: "v = SMP_VERSION" "strict_prefix q (field_bytes u @ field_bytes w)"
      using p by (auto simp: auth_bytes_def)
    from q(2) show ?thesis
    proof (cases rule: strict_prefix_append_cases)
      case 1
      then have "scan_field q = More" using assms(1) by (auto intro: scan_field_prefix)
      then show ?thesis by (simp add: Cons q(1) parse_auth_scan)
    next
      case (2 q')
      then have "scan_field q' = More" using assms(2) by (auto intro: scan_field_prefix)
      then show ?thesis using 2 assms(1) by (simp add: Cons q(1) parse_auth_scan scan_field_bytes)
    qed
  qed
qed

theorem smp_auth_decoded_witness:
  "let (rc, ua', pa') = parse_auth (auth_bytes [97] [98, 99] @ [5]) (replicate 256 0) (replicate 256 0)
   in rc = 6 \<and> cstr ua' = [97] \<and> cstr pa' = [98, 99]"
proof -
  have ok: "field_ok [97]" "field_ok [98, 99]" by code_simp+
  have "length (auth_bytes [97] [98, 99]) = 6" by code_simp
  with smp_auth_decoded [OF ok, of "replicate 256 0" "replicate 256 0" "[5]"] show ?thesis
    by (simp add: split_beta Let_def)
qed

end
