(* ===== verification/Os.thy ===== *)
theory Os
  imports Prelude
begin

text \<open>
  The operating system, which is not code of the repository: a record of functions over a type
  \<open>'w\<close> of worlds, a parameter of every definition that performs a system call. A call that fails
  returns the \<open>errno\<close> value, a call that succeeds its result. \<open>os_ok\<close> collects the documented
  behaviour the code relies on: a \<open>recv\<close> never stores more than the given space, a \<open>send\<close> never
  accepts more than the given bytes, \<open>malloc\<close> returns as many bytes as asked for, descriptors are
  not negative, and socket addresses have the length of their family.
\<close>

text \<open>The values of \<open>errno\<close> the code tells apart; \<open>ENOERROR\<close> is 0.\<close>

datatype errno = ENOERROR | EAGAIN | EWOULDBLOCK | EINTR | EINPROGRESS | ECONNREFUSED | ENETUNREACH
  | ENETDOWN | EHOSTUNREACH | EHOSTDOWN | ETIMEDOUT | EBADF | EOTHER nat

definition would_block :: "errno \<Rightarrow> bool" where
  "would_block e \<longleftrightarrow> e = EAGAIN \<or> e = EWOULDBLOCK"

text \<open>\<open>struct sockaddr_storage\<close> by family: port (in host order) and address bytes. For another
  family the fields are what a cast to \<open>struct sockaddr_in\<close> reads.\<close>

datatype sockaddr = SockIn u16 "byte list" | SockIn6 u16 "byte list" | SockOther u16 "byte list"

datatype family = AF_INET | AF_INET6 | AF_OTHER

fun sa_family :: "sockaddr \<Rightarrow> family" where
  "sa_family (SockIn p a) = AF_INET"
| "sa_family (SockIn6 p a) = AF_INET6"
| "sa_family (SockOther p a) = AF_OTHER"

datatype socket_option = SO_REUSEADDR | IPV6_V6ONLY

record 'w os =
  os_recv :: "int \<Rightarrow> nat \<Rightarrow> 'w \<Rightarrow> (errno + byte list) \<times> 'w"
  os_send :: "int \<Rightarrow> byte list \<Rightarrow> 'w \<Rightarrow> (errno + nat) \<times> 'w"
  os_socket :: "family \<Rightarrow> 'w \<Rightarrow> (errno + int) \<times> 'w"
  os_getfl :: "int \<Rightarrow> 'w \<Rightarrow> u32 option \<times> 'w"
  os_setfl :: "int \<Rightarrow> u32 \<Rightarrow> 'w \<Rightarrow> bool \<times> 'w"
  os_O_NONBLOCK :: u32
  os_connect :: "int \<Rightarrow> sockaddr \<Rightarrow> 'w \<Rightarrow> errno option \<times> 'w"
  os_so_error :: "int \<Rightarrow> 'w \<Rightarrow> (errno + errno) \<times> 'w"
  os_getsockname :: "int \<Rightarrow> 'w \<Rightarrow> sockaddr option \<times> 'w"
  os_accept :: "int \<Rightarrow> 'w \<Rightarrow> (int \<times> sockaddr) option \<times> 'w"
  os_close :: "int \<Rightarrow> 'w \<Rightarrow> 'w"
  os_shutdown_wr :: "int \<Rightarrow> 'w \<Rightarrow> 'w"
  os_malloc :: "nat \<Rightarrow> 'w \<Rightarrow> byte list option \<times> 'w"
  os_calloc_ok :: "'w \<Rightarrow> bool \<times> 'w"
  os_thread_start :: "'w \<Rightarrow> bool \<times> bool \<times> 'w"
  os_inet_ntop :: "sockaddr \<Rightarrow> byte list"
  os_inet_pton :: "family \<Rightarrow> byte list \<Rightarrow> byte list option"
  os_setsockopt :: "int \<Rightarrow> socket_option \<Rightarrow> 'w \<Rightarrow> 'w"
  os_bind :: "int \<Rightarrow> sockaddr \<Rightarrow> 'w \<Rightarrow> bool \<times> 'w"
  os_listen :: "int \<Rightarrow> nat \<Rightarrow> 'w \<Rightarrow> bool \<times> 'w"
  os_sigprocmask :: "'w \<Rightarrow> bool \<times> 'w"
  os_sigaction :: "'w \<Rightarrow> bool \<times> 'w"
  os_getrlimit :: "'w \<Rightarrow> (nat \<times> nat option) option \<times> 'w"
  os_setrlimit :: "nat \<Rightarrow> 'w \<Rightarrow> bool \<times> 'w"

definition os_ok :: "'w os \<Rightarrow> bool" where
  "os_ok os \<longleftrightarrow>
     (\<forall>fd n w bs w'. os_recv os fd n w = (Inr bs, w') \<longrightarrow> length bs \<le> n) \<and>
     (\<forall>fd bs w n w'. os_send os fd bs w = (Inr n, w') \<longrightarrow> n \<le> length bs) \<and>
     (\<forall>f w fd w'. os_socket os f w = (Inr fd, w') \<longrightarrow> 0 \<le> fd) \<and>
     (\<forall>f w e w'. os_socket os f w = (Inl e, w') \<longrightarrow> e \<noteq> ENOERROR) \<and>
     (\<forall>fd w c a w'. os_accept os fd w = (Some (c, a), w') \<longrightarrow> 0 \<le> c) \<and>
     (\<forall>fd a w e w'. os_connect os fd a w = (Some e, w') \<longrightarrow> e \<noteq> ENOERROR) \<and>
     (\<forall>fd w e w'. os_so_error os fd w = (Inl e, w') \<longrightarrow> e \<noteq> ENOERROR) \<and>
     (\<forall>fd w p a w'. os_getsockname os fd w = (Some (SockIn p a), w') \<longrightarrow> length a = 4) \<and>
     (\<forall>fd w p a w'. os_getsockname os fd w = (Some (SockIn6 p a), w') \<longrightarrow> length a = 16) \<and>
     (\<forall>fd w p a w'. os_getsockname os fd w = (Some (SockOther p a), w') \<longrightarrow> length a = 4) \<and>
     (\<forall>n w m w'. os_malloc os n w = (Some m, w') \<longrightarrow> length m = n) \<and>
     (\<forall>a. length (os_inet_ntop os a) \<le> 45 \<and> 0 \<notin> set (os_inet_ntop os a))"

lemma os_okD:
  assumes "os_ok os"
  shows "os_recv os fd n w = (Inr bs, w') \<Longrightarrow> length bs \<le> n"
    and "os_send os fd bs w = (Inr n, w') \<Longrightarrow> n \<le> length bs"
    and "os_socket os f w = (Inr fd, w') \<Longrightarrow> 0 \<le> fd"
    and "os_socket os f w = (Inl e, w') \<Longrightarrow> e \<noteq> ENOERROR"
    and "os_accept os fd w = (Some (c, a), w') \<Longrightarrow> 0 \<le> c"
    and "os_connect os fd a w = (Some e, w') \<Longrightarrow> e \<noteq> ENOERROR"
    and "os_so_error os fd w = (Inl e, w') \<Longrightarrow> e \<noteq> ENOERROR"
    and "os_getsockname os fd w = (Some (SockIn p ip), w') \<Longrightarrow> length ip = 4"
    and "os_getsockname os fd w = (Some (SockIn6 p ip), w') \<Longrightarrow> length ip = 16"
    and "os_getsockname os fd w = (Some (SockOther p ip), w') \<Longrightarrow> length ip = 4"
    and "os_malloc os n w = (Some m, w') \<Longrightarrow> length m = n"
    and "length (os_inet_ntop os a) \<le> 45"
    and "0 \<notin> set (os_inet_ntop os a)"
proof -
  note ok = assms [unfolded os_ok_def]
  show "os_recv os fd n w = (Inr bs, w') \<Longrightarrow> length bs \<le> n"
    by (rule ok [THEN conjunct1, rule_format])
  show "os_send os fd bs w = (Inr n, w') \<Longrightarrow> n \<le> length bs"
    by (rule ok [THEN conjunct2, THEN conjunct1, rule_format])
  show "os_socket os f w = (Inr fd, w') \<Longrightarrow> 0 \<le> fd"
    by (rule ok [THEN conjunct2, THEN conjunct2, THEN conjunct1, rule_format])
  show "os_socket os f w = (Inl e, w') \<Longrightarrow> e \<noteq> ENOERROR"
    by (rule ok [THEN conjunct2, THEN conjunct2, THEN conjunct2, THEN conjunct1, rule_format])
  show "os_accept os fd w = (Some (c, a), w') \<Longrightarrow> 0 \<le> c"
    by (rule ok [THEN conjunct2, THEN conjunct2, THEN conjunct2, THEN conjunct2, THEN conjunct1, rule_format])
  show "os_connect os fd a w = (Some e, w') \<Longrightarrow> e \<noteq> ENOERROR"
    by (rule ok [THEN conjunct2, THEN conjunct2, THEN conjunct2, THEN conjunct2, THEN conjunct2, THEN conjunct1, rule_format])
  show "os_so_error os fd w = (Inl e, w') \<Longrightarrow> e \<noteq> ENOERROR"
    by (rule ok [THEN conjunct2, THEN conjunct2, THEN conjunct2, THEN conjunct2, THEN conjunct2, THEN conjunct2, THEN conjunct1, rule_format])
  show "os_getsockname os fd w = (Some (SockIn p ip), w') \<Longrightarrow> length ip = 4"
    by (rule ok [THEN conjunct2, THEN conjunct2, THEN conjunct2, THEN conjunct2, THEN conjunct2, THEN conjunct2, THEN conjunct2, THEN conjunct1, rule_format])
  show "os_getsockname os fd w = (Some (SockIn6 p ip), w') \<Longrightarrow> length ip = 16"
    by (rule ok [THEN conjunct2, THEN conjunct2, THEN conjunct2, THEN conjunct2, THEN conjunct2, THEN conjunct2, THEN conjunct2, THEN conjunct2, THEN conjunct1, rule_format])
  show "os_getsockname os fd w = (Some (SockOther p ip), w') \<Longrightarrow> length ip = 4"
    by (rule ok [THEN conjunct2, THEN conjunct2, THEN conjunct2, THEN conjunct2, THEN conjunct2, THEN conjunct2, THEN conjunct2, THEN conjunct2, THEN conjunct2, THEN conjunct1, rule_format])
  show "os_malloc os n w = (Some m, w') \<Longrightarrow> length m = n"
    by (rule ok [THEN conjunct2, THEN conjunct2, THEN conjunct2, THEN conjunct2, THEN conjunct2, THEN conjunct2, THEN conjunct2, THEN conjunct2, THEN conjunct2, THEN conjunct2, THEN conjunct1, rule_format])
  show "length (os_inet_ntop os a) \<le> 45" "0 \<notin> set (os_inet_ntop os a)"
    using ok by simp_all
qed

text \<open>A world in which \<open>tx w\<close> is what a socket has been handed so far: the documented behaviour of
  \<open>send\<close>, which takes a prefix of the bytes it is given.\<close>

definition sends_to :: "'w os \<Rightarrow> int \<Rightarrow> ('w \<Rightarrow> byte list) \<Rightarrow> bool" where
  "sends_to os fd tx \<longleftrightarrow>
     (\<forall>bs w r w'. os_send os fd bs w = (r, w') \<longrightarrow>
        (case r of Inl e \<Rightarrow> e \<noteq> ENOERROR \<and> tx w' = tx w | Inr n \<Rightarrow> tx w' = tx w @ take n bs))"

lemma sends_toD:
  assumes "sends_to os fd tx"
  shows "os_send os fd bs w = (Inl e, w') \<Longrightarrow> e \<noteq> ENOERROR \<and> tx w' = tx w"
    and "os_send os fd bs w = (Inr n, w') \<Longrightarrow> tx w' = tx w @ take n bs"
  using assms unfolding sends_to_def by fastforce+

text \<open>A world in which \<open>rx w fd\<close> and \<open>tx w fd\<close> are what has been received from and sent to every
  descriptor so far: only \<open>recv\<close> and \<open>send\<close> add to them.\<close>

definition observes ::
    "'w os \<Rightarrow> ('w \<Rightarrow> int \<Rightarrow> byte list) \<Rightarrow> ('w \<Rightarrow> int \<Rightarrow> byte list) \<Rightarrow> bool" where
  "observes os rx tx \<longleftrightarrow>
     (\<forall>fd n w r w'. os_recv os fd n w = (r, w') \<longrightarrow> tx w' = tx w
        \<and> rx w' = (case r of Inl e \<Rightarrow> rx w | Inr bs \<Rightarrow> (rx w)(fd := rx w fd @ bs))) \<and>
     (\<forall>fd bs w r w'. os_send os fd bs w = (r, w') \<longrightarrow> rx w' = rx w
        \<and> tx w' = (case r of Inl e \<Rightarrow> tx w | Inr n \<Rightarrow> (tx w)(fd := tx w fd @ take n bs))) \<and>
     (\<forall>fd w. rx (os_shutdown_wr os fd w) = rx w \<and> tx (os_shutdown_wr os fd w) = tx w)"

lemma observesD:
  assumes "observes os rx tx"
  shows "os_recv os fd n w = (r, w') \<Longrightarrow> tx w' = tx w
      \<and> rx w' = (case r of Inl e \<Rightarrow> rx w | Inr bs \<Rightarrow> (rx w)(fd := rx w fd @ bs))"
    and "os_send os fd bs w = (s, w') \<Longrightarrow> rx w' = rx w
      \<and> tx w' = (case s of Inl e \<Rightarrow> tx w | Inr n \<Rightarrow> (tx w)(fd := tx w fd @ take n bs))"
    and "rx (os_shutdown_wr os fd w) = rx w" and "tx (os_shutdown_wr os fd w) = tx w"
  using assms unfolding observes_def by blast+

text \<open>A small world for concrete runs: the kind of its clients, the next descriptor, and what was received
  and sent so far. The peer of descriptor 15 is a management client: it authenticates as \<open>admin\<close> and asks
  for the metrics. Every other peer sends a greeting with one method; clients of kind 1 offer \<open>USERPASS\<close>
  and then send the user \<open>A\<close> with the password \<open>B\<close>, the others offer \<open>NO_AUTH\<close> and then request a connection to
  port 80, of the host named \<open>A\<close> for clients of kind 2 and of \<open>127.0.0.1\<close> for the others. Then they end
  their stream. Port 80 of \<open>10.0.0.1\<close> refuses connections, a connection to \<open>10.0.0.2\<close> stays in progress and then
  times out; every other address accepts at once.\<close>

record demo_env =
  dw_client :: nat
  dw_next :: nat
  dw_rx :: "int \<Rightarrow> byte list"
  dw_tx :: "int \<Rightarrow> byte list"

definition demo_world :: demo_env where
  "demo_world = \<lparr>dw_client = 0, dw_next = 10, dw_rx = (\<lambda>_. []), dw_tx = (\<lambda>_. [])\<rparr>"

definition demo_script :: "nat \<Rightarrow> int \<Rightarrow> byte list \<Rightarrow> byte list" where
  "demo_script k fd rx =
     (if fd = 15
      then (if rx = [] then [1] @ ([5] @ ascii ''admin'') @ ([5] @ ascii ''admin'')
            else if length rx = 13 then [1, 0] else [])
      else if rx = [] then [5, 1, if k = 1 then 2 else 0]
      else if length rx = 3
      then (if k = 1 then [1, 1, 65, 1, 66]
            else if k = 2 then [5, 1, 0, 3, 1, 65, 0, 80]
            else [5, 1, 0, 1, 127, 0, 0, 1, 0, 80])
      else [])"

definition demo_os :: "demo_env os" where
  "demo_os = \<lparr>
     os_recv = (\<lambda>fd n w. let bs = take n (demo_script (dw_client w) fd (dw_rx w fd)) in (Inr bs, w\<lparr>dw_rx := (dw_rx w)(fd := dw_rx w fd @ bs)\<rparr>)),
     os_send = (\<lambda>fd bs w. (Inr (length bs), w\<lparr>dw_tx := (dw_tx w)(fd := dw_tx w fd @ bs)\<rparr>)),
     os_socket = (\<lambda>f w. (Inr (int (dw_next w)), w\<lparr>dw_next := Suc (dw_next w)\<rparr>)),
     os_getfl = (\<lambda>fd w. (Some 0, w)), os_setfl = (\<lambda>fd fl w. (True, w)), os_O_NONBLOCK = 2048,
     os_connect = (\<lambda>fd a w. (if a = SockIn 80 [10, 0, 0, 1] then Some ECONNREFUSED
       else if a = SockIn 80 [10, 0, 0, 2] then Some EINPROGRESS else None, w)),
     os_so_error = (\<lambda>fd w. (Inr ETIMEDOUT, w)),
     os_getsockname = (\<lambda>fd w. (Some (SockIn 80 [127, 0, 0, 1]), w)),
     os_accept = (\<lambda>fd w. (Some (int (dw_next w), SockIn 4000 [127, 0, 0, 1]), w\<lparr>dw_next := Suc (dw_next w)\<rparr>)),
     os_close = (\<lambda>fd w. w), os_shutdown_wr = (\<lambda>fd w. w),
     os_malloc = (\<lambda>n w. (Some (replicate n 0), w)), os_calloc_ok = (\<lambda>w. (True, w)),
     os_thread_start = (\<lambda>w. (True, True, w)),
     os_inet_ntop = (\<lambda>a. ascii ''127.0.0.1''), os_inet_pton = (\<lambda>f a. Some [127, 0, 0, 1]),
     os_setsockopt = (\<lambda>fd x w. w), os_bind = (\<lambda>fd a w. (True, w)), os_listen = (\<lambda>fd n w. (True, w)),
     os_sigprocmask = (\<lambda>w. (True, w)), os_sigaction = (\<lambda>w. (True, w)),
     os_getrlimit = (\<lambda>w. (Some (1024, None), w)), os_setrlimit = (\<lambda>n w. (True, w))\<rparr>"

lemma demo_os_ok: "os_ok demo_os"
  by (auto simp: os_ok_def demo_os_def ascii_def Let_def)

lemma demo_sends_to: "sends_to demo_os fd (\<lambda>w. dw_tx w fd)"
  by (auto simp: sends_to_def demo_os_def)

lemma demo_observes: "observes demo_os dw_rx dw_tx"
  by (auto simp: observes_def demo_os_def Let_def)

text \<open>\<open>selector_fd_set_nio\<close> of \<open>src/selector.c\<close>: 0, or -1 when a call of \<open>fcntl\<close> fails.\<close>

definition selector_fd_set_nio :: "'w os \<Rightarrow> int \<Rightarrow> 'w \<Rightarrow> int \<times> 'w" where
  "selector_fd_set_nio os fd w =
     (case os_getfl os fd w of
        (None, w) \<Rightarrow> (-1, w)
      | (Some flags, w) \<Rightarrow>
          (case os_setfl os fd (flags OR os_O_NONBLOCK os) w of
             (False, w) \<Rightarrow> (-1, w) | (True, w) \<Rightarrow> (0, w)))"

end
