(* ===== verification/Client.thy ===== *)
theory Client
  imports Mgmt_Protocol Os
begin

text \<open>
  \<open>src/client.c\<close>: the terminal client of the management protocol. The two I/O helpers loop until a
  peer that may accept or deliver any positive number of bytes, or interrupt the call, has been
  served: they are \<open>partial_function\<close>s whose value \<^const>\<open>None\<close> is a call that never returns. What
  the client prints is a list of \<open>output\<close> items. The lemmas show that the requests are exactly
  the commands of the grammar the server parses, and that the client reads back from a response
  what the server wrote into it.
\<close>

section \<open>I/O helpers\<close>

partial_function (option) send_all :: "'w os \<Rightarrow> int \<Rightarrow> byte list \<Rightarrow> 'w \<Rightarrow> (int \<times> 'w) option" where
  "send_all os fd buf w =
     (if buf = [] then Some (0, w)
      else case os_send os fd buf w of
        (Inl e, w) \<Rightarrow> if e = EINTR then send_all os fd buf w else Some (-1, w)
      | (Inr n, w) \<Rightarrow> send_all os fd (drop n buf) w)"

text \<open>The bytes received so far are \<open>acc\<close>, \<open>len\<close> are still missing.\<close>

partial_function (option) recv_exact ::
    "'w os \<Rightarrow> int \<Rightarrow> byte list \<Rightarrow> nat \<Rightarrow> 'w \<Rightarrow> (int \<times> byte list \<times> 'w) option" where
  "recv_exact os fd acc len w =
     (if len = 0 then Some (0, acc, w)
      else case os_recv os fd len w of
        (Inl e, w) \<Rightarrow> if e = EINTR then recv_exact os fd acc len w else Some (-1, acc, w)
      | (Inr bs, w) \<Rightarrow>
          if bs = [] then Some (-1, acc, w)
          else recv_exact os fd (acc @ bs) (len - length bs) w)"

definition get_u16 :: "byte list \<Rightarrow> u16" where
  "get_u16 p = push_bit 8 (ucast (p ! 0)) OR ucast (p ! 1)"

definition get_u32 :: "byte list \<Rightarrow> u32" where
  "get_u32 p = push_bit 24 (ucast (p ! 0)) OR push_bit 16 (ucast (p ! 1))
     OR push_bit 8 (ucast (p ! 2)) OR ucast (p ! 3)"

definition get_u64 :: "byte list \<Rightarrow> u64" where
  "get_u64 p = foldl (\<lambda>v i. push_bit 8 v OR ucast (p ! i)) 0 [0, 1, 2, 3, 4, 5, 6, 7]"

section \<open>Requests\<close>

definition valid_len :: "byte list \<Rightarrow> bool" where
  "valid_len s \<longleftrightarrow> \<not> (strlen s = 0 \<or> strlen s > 255)"

definition auth_request :: "byte list \<Rightarrow> byte list \<Rightarrow> byte list" where
  "auth_request user pass =
     [SMP_VERSION, of_nat (strlen user)] @ take (strlen user) user @
     [of_nat (strlen pass)] @ take (strlen pass) pass"

definition do_auth :: "'w os \<Rightarrow> int \<Rightarrow> byte list \<Rightarrow> byte list \<Rightarrow> 'w \<Rightarrow> (int \<times> 'w) option" where
  "do_auth os fd user pass w =
     (if \<not> valid_len user \<or> \<not> valid_len pass then Some (-1, w)
      else do {
        (r, w) \<leftarrow> send_all os fd (auth_request user pass) w;
        if r \<noteq> 0 then Some (-1, w)
        else do {
          (r, resp, w) \<leftarrow> recv_exact os fd [] 2 w;
          if r \<noteq> 0 then Some (-1, w)
          else if resp ! 0 \<noteq> SMP_VERSION \<or> resp ! 1 \<noteq> SMP_AUTH_OK then Some (-1, w)
          else Some (0, w)
        }
      })"

definition status_str :: "byte \<Rightarrow> string" where
  "status_str st =
     (if st = SMP_OK then ''OK''
      else if st = SMP_AUTH_REQUIRED then ''auth requerida''
      else if st = SMP_UNKNOWN_COMMAND then ''comando desconocido''
      else if st = SMP_INVALID_ARGUMENTS then ''argumentos invalidos''
      else if st = SMP_USER_ALREADY_EXISTS then ''el usuario ya existe''
      else if st = SMP_USER_NOT_FOUND then ''usuario no encontrado''
      else if st = SMP_USER_LIMIT_REACHED then ''limite de usuarios alcanzado''
      else if st = SMP_INTERNAL_ERROR then ''error interno''
      else ''estado desconocido'')"

text \<open>The result of \<open>do_request\<close>: command and status of the response and its data.\<close>

type_synonym response = "byte \<times> byte \<times> byte list"

definition do_request ::
    "'w os \<Rightarrow> int \<Rightarrow> byte list \<Rightarrow> 'w \<Rightarrow> (response option \<times> 'w) option" where
  "do_request os fd req w = do {
     (r, w) \<leftarrow> send_all os fd req w;
     if r \<noteq> 0 then Some (None, w)
     else do {
       (r, hdr, w) \<leftarrow> recv_exact os fd [] 5 w;
       if r \<noteq> 0 then Some (None, w)
       else let datalen = get_u16 (drop 3 hdr) in
         if datalen > 0
         then (case os_malloc os (unat datalen) w of
             (None, w) \<Rightarrow> Some (None, w)
           | (Some m, w) \<Rightarrow> do {
               (r, data, w) \<leftarrow> recv_exact os fd [] (unat datalen) w;
               if r \<noteq> 0 then Some (None, w) else Some (Some (hdr ! 1, hdr ! 2, data), w)
             })
         else Some (Some (hdr ! 1, hdr ! 2, []), w)
     }
   }"

section \<open>Commands\<close>

datatype printed = PrintNum string u64 | PrintFlag string bool | PrintCount u16
  | PrintName "byte list" | PrintStatus string string

definition metrics_output :: "byte \<Rightarrow> byte list \<Rightarrow> int \<times> printed list" where
  "metrics_output st data =
     (if st \<noteq> SMP_OK \<or> length data < 56 then (1, [PrintStatus ''metrics'' (status_str st)])
      else (0,
        [PrintNum ''conexiones historicas'' (get_u64 (drop 0 data)),
         PrintNum ''conexiones actuales'' (get_u64 (drop 8 data)),
         PrintNum ''bytes transferidos'' (get_u64 (drop 16 data)),
         PrintNum ''conexiones fallidas'' (get_u64 (drop 24 data)),
         PrintNum ''usuarios registrados'' (get_u64 (drop 32 data)),
         PrintNum ''bytes enviados (c->o)'' (get_u64 (drop 40 data)),
         PrintNum ''bytes recibidos(o->c)'' (get_u64 (drop 48 data))]))"

definition config_output :: "byte \<Rightarrow> byte list \<Rightarrow> int \<times> printed list" where
  "config_output st data =
     (if st \<noteq> SMP_OK \<or> length data < 9 then (1, [PrintStatus ''get-config'' (status_str st)])
      else (0,
        [PrintNum ''io_buffer_size'' (ucast (get_u32 (drop 0 data))),
         PrintNum ''conn_timeout_secs'' (ucast (get_u32 (drop 4 data))),
         PrintFlag ''auth_required'' (data ! 8 \<noteq> 0)]))"

text \<open>The loop of \<open>cmd_list_users\<close> over the entries: \<open>n\<close> are still announced, \<open>off\<close> is the offset.\<close>

primrec list_loop :: "nat \<Rightarrow> byte list \<Rightarrow> nat \<Rightarrow> printed list" where
  "list_loop 0 data off = []"
| "list_loop (Suc n) data off =
     (if \<not> off < length data then []
      else let ulen = unat (data ! off); off = off + 1 in
        if off + ulen > length data then []
        else PrintName (cstr (take ulen (drop off data))) # list_loop n data (off + ulen))"

definition list_output :: "byte \<Rightarrow> byte list \<Rightarrow> int \<times> printed list" where
  "list_output st data =
     (if st \<noteq> SMP_OK \<or> length data < 2 then (1, [PrintStatus ''list-users'' (status_str st)])
      else let count = get_u16 data in (0, PrintCount count # list_loop (unat count) data 2))"

definition status_output :: "string \<Rightarrow> byte \<Rightarrow> int \<times> printed list" where
  "status_output cmd st = (if st = SMP_OK then 0 else 1, [PrintStatus cmd (status_str st)])"

text \<open>A request followed by the output of its response; without a response the exit code is 1.\<close>

definition run_request :: "'w os \<Rightarrow> int \<Rightarrow> byte list \<Rightarrow> (byte \<Rightarrow> byte list \<Rightarrow> int \<times> printed list) \<Rightarrow>
    'w \<Rightarrow> (int \<times> printed list \<times> 'w) option" where
  "run_request os fd req out w = do {
     (resp, w) \<leftarrow> do_request os fd req w;
     case resp of
       None \<Rightarrow> Some (1, [], w)
     | Some (cmd, st, data) \<Rightarrow> (let (rc, o') = out st data in Some (rc, o', w))
   }"

definition cmd_metrics :: "'w os \<Rightarrow> int \<Rightarrow> 'w \<Rightarrow> (int \<times> printed list \<times> 'w) option" where
  "cmd_metrics os fd w = run_request os fd [SMP_VERSION, SMP_CMD_METRICS] metrics_output w"

definition cmd_get_config :: "'w os \<Rightarrow> int \<Rightarrow> 'w \<Rightarrow> (int \<times> printed list \<times> 'w) option" where
  "cmd_get_config os fd w = run_request os fd [SMP_VERSION, SMP_CMD_GET_CONFIG] config_output w"

definition cmd_list_users :: "'w os \<Rightarrow> int \<Rightarrow> 'w \<Rightarrow> (int \<times> printed list \<times> 'w) option" where
  "cmd_list_users os fd w = run_request os fd [SMP_VERSION, SMP_CMD_LIST_USERS] list_output w"

definition add_user_request :: "byte list \<Rightarrow> byte list \<Rightarrow> byte list" where
  "add_user_request user pass =
     [SMP_VERSION, SMP_CMD_ADD_USER, of_nat (strlen user)] @ take (strlen user) user @
     [of_nat (strlen pass)] @ take (strlen pass) pass"

definition cmd_add_user ::
    "'w os \<Rightarrow> int \<Rightarrow> byte list \<Rightarrow> byte list \<Rightarrow> 'w \<Rightarrow> (int \<times> printed list \<times> 'w) option" where
  "cmd_add_user os fd user pass w =
     (if \<not> valid_len user \<or> \<not> valid_len pass then Some (1, [], w)
      else run_request os fd (add_user_request user pass) (\<lambda>st data. status_output ''add-user'' st) w)"

definition del_user_request :: "byte list \<Rightarrow> byte list" where
  "del_user_request user =
     [SMP_VERSION, SMP_CMD_DEL_USER, of_nat (strlen user)] @ take (strlen user) user"

definition cmd_del_user ::
    "'w os \<Rightarrow> int \<Rightarrow> byte list \<Rightarrow> 'w \<Rightarrow> (int \<times> printed list \<times> 'w) option" where
  "cmd_del_user os fd user w =
     (if \<not> valid_len user then Some (1, [], w)
      else run_request os fd (del_user_request user) (\<lambda>st data. status_output ''del-user'' st) w)"

definition put32 :: "u32 \<Rightarrow> byte list" where
  "put32 v = [ucast (drop_bit 24 v), ucast (drop_bit 16 v), ucast (drop_bit 8 v), ucast v]"

definition set_config_request :: "byte list \<Rightarrow> byte list \<Rightarrow> byte list option" where
  "set_config_request key value =
     (if strcmp_eq key (ascii ''buffer-size'')
      then Some ([SMP_VERSION, SMP_CMD_SET_CONFIG, SMP_CFG_IO_BUFFER_SIZE] @ put32 (ucast (strtoul value)))
      else if strcmp_eq key (ascii ''timeout'')
      then Some ([SMP_VERSION, SMP_CMD_SET_CONFIG, SMP_CFG_CONN_TIMEOUT] @ put32 (ucast (strtoul value)))
      else if strcmp_eq key (ascii ''auth-required'')
      then Some [SMP_VERSION, SMP_CMD_SET_CONFIG, SMP_CFG_AUTH_REQUIRED,
                 if strtoul value \<noteq> 0 then 1 else 0]
      else None)"

definition cmd_set_config ::
    "'w os \<Rightarrow> int \<Rightarrow> byte list \<Rightarrow> byte list \<Rightarrow> 'w \<Rightarrow> (int \<times> printed list \<times> 'w) option" where
  "cmd_set_config os fd key value w =
     (case set_config_request key value of
        None \<Rightarrow> Some (1, [], w)
      | Some req \<Rightarrow> run_request os fd req (\<lambda>st data. status_output ''set-config'' st) w)"

section \<open>A reliable stream\<close>

text \<open>
  What a connected stream socket does while the peer is alive: a \<open>send\<close> is interrupted, finitely
  often, or accepts a non-empty prefix; a \<open>recv\<close> is interrupted, finitely often, or delivers a
  non-empty prefix of what the peer has sent. \<open>sent\<close> and \<open>avail\<close> are the two byte streams and
  \<open>budget\<close> bounds the interruptions.
\<close>

definition stream_ok ::
    "'w os \<Rightarrow> int \<Rightarrow> ('w \<Rightarrow> byte list) \<Rightarrow> ('w \<Rightarrow> byte list) \<Rightarrow> ('w \<Rightarrow> nat) \<Rightarrow> bool" where
  "stream_ok os fd sent avail budget \<longleftrightarrow>
     (\<forall>buf w. buf \<noteq> [] \<longrightarrow> (case os_send os fd buf w of
        (Inl e, w') \<Rightarrow> e = EINTR \<and> sent w' = sent w \<and> avail w' = avail w \<and> budget w' < budget w
      | (Inr n, w') \<Rightarrow> 0 < n \<and> n \<le> length buf \<and> sent w' = sent w @ take n buf \<and> avail w' = avail w)) \<and>
     (\<forall>len w. 0 < len \<and> avail w \<noteq> [] \<longrightarrow> (case os_recv os fd len w of
        (Inl e, w') \<Rightarrow> e = EINTR \<and> sent w' = sent w \<and> avail w' = avail w \<and> budget w' < budget w
      | (Inr bs, w') \<Rightarrow> bs \<noteq> [] \<and> length bs \<le> len \<and> avail w = bs @ avail w' \<and> sent w' = sent w)) \<and>
     (\<forall>n w. case os_malloc os n w of (None, w') \<Rightarrow> False
      | (Some m, w') \<Rightarrow> sent w' = sent w \<and> avail w' = avail w)"

lemma stream_send:
  assumes "stream_ok os fd sent avail budget" and "buf \<noteq> []"
  obtains (interrupted) w' where "os_send os fd buf w = (Inl EINTR, w')" "sent w' = sent w"
      "avail w' = avail w" "budget w' < budget w"
    | (sent) n w' where "os_send os fd buf w = (Inr n, w')" "0 < n" "n \<le> length buf"
      "sent w' = sent w @ take n buf" "avail w' = avail w"
proof -
  note law = assms(1) [unfolded stream_ok_def, THEN conjunct1, rule_format, OF assms(2), of w]
  obtain r w' where eq: "os_send os fd buf w = (r, w')" by fastforce
  show thesis
  proof (cases r)
    case (Inl e)
    show thesis by (rule interrupted [of w']) (use law eq Inl in simp_all)
  next
    case (Inr n)
    show thesis by (rule sent [of n w']) (use law eq Inr in simp_all)
  qed
qed

lemma stream_recv:
  assumes "stream_ok os fd sent avail budget" and "0 < len \<and> avail w \<noteq> []"
  obtains (interrupted) w' where "os_recv os fd len w = (Inl EINTR, w')" "sent w' = sent w"
      "avail w' = avail w" "budget w' < budget w"
    | (received) bs w' where "os_recv os fd len w = (Inr bs, w')" "bs \<noteq> []" "length bs \<le> len"
      "avail w = bs @ avail w'" "sent w' = sent w"
proof -
  note law = assms(1) [unfolded stream_ok_def, THEN conjunct2, THEN conjunct1, rule_format, OF assms(2)]
  obtain r w' where eq: "os_recv os fd len w = (r, w')" by fastforce
  show thesis
  proof (cases r)
    case (Inl e)
    show thesis by (rule interrupted [of w']) (use law eq Inl in simp_all)
  next
    case (Inr bs)
    show thesis by (rule received [of bs w']) (use law eq Inr in simp_all)
  qed
qed

lemma send_all_ok:
  assumes ok: "stream_ok os fd sent avail budget"
  shows "\<exists>w'. send_all os fd buf w = Some (0, w') \<and> sent w' = sent w @ buf \<and> avail w' = avail w"
proof (induction "length buf" arbitrary: buf w rule: less_induct)
  case less
  note shorter = less
  show ?case
  proof (induction "budget w" arbitrary: w rule: less_induct)
    case less
    show ?case
    proof (cases "buf = []")
      case True
      then show ?thesis by (simp add: send_all.simps)
    next
      case False
      from ok False show ?thesis
      proof (cases rule: stream_send [where w = w])
        case (interrupted w')
        with less [of w'] False show ?thesis by (simp add: send_all.simps [of os fd buf w])
      next
        case (sent n w')
        with False have "length (drop n buf) < length buf" by simp
        from shorter [OF this, of w'] sent False show ?thesis
          by (auto simp: send_all.simps [of os fd buf w])
      qed
    qed
  qed
qed

lemma recv_exact_ok:
  assumes ok: "stream_ok os fd sent avail budget"
  shows "len \<le> length (avail w) \<Longrightarrow>
    \<exists>w'. recv_exact os fd acc len w = Some (0, acc @ take len (avail w), w')
      \<and> avail w' = drop len (avail w) \<and> sent w' = sent w"
proof (induction len arbitrary: acc w rule: less_induct)
  case (less len)
  note shorter = less.IH
  from less.prems show ?case
  proof (induction "budget w" arbitrary: w rule: less_induct)
    case less
    show ?case
    proof (cases "len = 0")
      case True
      then show ?thesis by (simp add: recv_exact.simps)
    next
      case False
      then have "0 < len \<and> avail w \<noteq> []" using less.prems by auto
      from ok this show ?thesis
      proof (cases rule: stream_recv)
        case (interrupted w')
        with less.hyps [of w'] less.prems False show ?thesis
          by (simp add: recv_exact.simps [of os fd acc len w])
      next
        case (received bs w')
        then have "len - length bs < len" "len - length bs \<le> length (avail w')"
          using False less.prems by auto
        from shorter [OF this, of "acc @ bs"] received False show ?thesis
          by (auto simp: recv_exact.simps [of os fd acc len w])
      qed
    qed
  qed
qed

section \<open>Requests are commands of the grammar\<close>

lemma valid_len_field: "valid_len s \<Longrightarrow> field_ok (cstr s)"
  by (auto simp: valid_len_def strlen_def field_ok_def)

lemma take_strlen: "take (strlen s) s = cstr s"
  by (simp add: strlen_def cstr_def takeWhile_eq_take [symmetric])

lemma request_bytes:
  "[SMP_VERSION, SMP_CMD_METRICS] = command_bytes CmdMetrics"
  "[SMP_VERSION, SMP_CMD_GET_CONFIG] = command_bytes CmdGetConfig"
  "[SMP_VERSION, SMP_CMD_LIST_USERS] = command_bytes CmdListUsers"
  "add_user_request user pass = command_bytes (CmdAddUser (cstr user) (cstr pass))"
  "del_user_request user = command_bytes (CmdDelUser (cstr user))"
  by (simp_all add: command_bytes_def add_user_request_def del_user_request_def field_bytes_def
      take_strlen) (simp_all add: strlen_def)

lemma auth_request_bytes: "auth_request user pass = auth_bytes (cstr user) (cstr pass)"
  by (simp add: auth_request_def auth_bytes_def field_bytes_def take_strlen) (simp add: strlen_def)

lemma put32_bytes: "put32 v = bytes32 v"
  by (simp add: put32_def bytes32_def)

lemma set_config_request_bytes:
  "set_config_request key value = Some req \<Longrightarrow> \<exists>c. command_ok c \<and> req = command_bytes c"
proof -
  assume "set_config_request key value = Some req"
  then consider "req = command_bytes (CmdSetNum SMP_CFG_IO_BUFFER_SIZE (ucast (strtoul value)))"
    | "req = command_bytes (CmdSetNum SMP_CFG_CONN_TIMEOUT (ucast (strtoul value)))"
    | "req = command_bytes (CmdSetAuth (if strtoul value \<noteq> 0 then 1 else 0))"
    by (auto simp: set_config_request_def command_bytes_def put32_bytes split: if_splits)
  then show ?thesis
    by cases (rule exI, rule conjI [rotated], assumption, simp add: smp_cfg_defs)+
qed

section \<open>Responses are read back\<close>

lemma get_u16_bytes: "get_u16 (bytes16 v @ r) = v"
proof (rule bit_word_eqI)
  fix n assume "n < LENGTH(16)"
  then consider "n < 8" | "8 \<le> n" "n < 16" by fastforce
  then show "bit (get_u16 (bytes16 v @ r)) n \<longleftrightarrow> bit v n"
    by cases (simp_all add: get_u16_def bytes16_def bit_simps, linarith+)
qed

lemma get_u32_bytes: "get_u32 (bytes32 v @ r) = v"
  using bytes32_join [of v] by (simp add: get_u32_def bytes32_def)

lemma get_u64_bytes: "get_u64 (bytes64 v @ r) = v"
proof -
  have join: "push_bit 8 (drop_bit (k + 8) v) OR ucast (ucast (drop_bit k v) :: byte) = drop_bit k v" for k
  proof (rule bit_word_eqI)
    fix n assume "n < LENGTH(64)"
    then show "bit (push_bit 8 (drop_bit (k + 8) v) OR ucast (ucast (drop_bit k v) :: byte)) n
        \<longleftrightarrow> bit (drop_bit k v) n"
      by (cases "n < 8") (auto simp: bit_simps add.assoc dest: bit_imp_le_length)
  qed
  have "drop_bit 64 v = 0" by (rule bit_word_eqI) (auto simp: bit_simps dest: bit_imp_le_length)
  then have "ucast (ucast (drop_bit 56 v) :: byte) = drop_bit 56 v"
    using join [of 56] by simp
  then show ?thesis
    using join [of 48] join [of 40] join [of 32] join [of 24] join [of 16] join [of 8] join [of 0]
    by (simp add: get_u64_def bytes64_def)
qed

lemma stream_malloc:
  assumes "stream_ok os fd sent avail budget"
  obtains m w' where "os_malloc os n w = (Some m, w')" "sent w' = sent w" "avail w' = avail w"
proof -
  note law = assms [unfolded stream_ok_def, THEN conjunct2, THEN conjunct2, rule_format,
    where n = n and w = w]
  obtain r w' where eq: "os_malloc os n w = (r, w')" by fastforce
  show thesis
  proof (cases r)
    case None
    with law eq show thesis by simp
  next
    case (Some m)
    show thesis by (rule that [of m w']) (use law eq Some in simp_all)
  qed
qed

lemma do_request_ok:
  assumes ok: "stream_ok os fd sent avail budget"
    and avail: "avail w = response_bytes cmd st d @ rest" and len: "length d < 2 ^ 16"
  shows "\<exists>w'. do_request os fd req w = Some (Some (cmd, st, d), w')
    \<and> sent w' = sent w @ req \<and> avail w' = rest"
proof -
  obtain w1 where w1: "send_all os fd req w = Some (0, w1)" "sent w1 = sent w @ req"
    "avail w1 = response_bytes cmd st d @ rest"
    using send_all_ok [OF ok, of req w] avail by auto
  let ?hdr = "[SMP_VERSION, cmd, st] @ bytes16 (of_nat (length d))"
  have hdr: "avail w1 = ?hdr @ d @ rest" "length ?hdr = 5"
    using w1(3) by (simp_all add: response_bytes_def)
  then obtain w2 where w2: "recv_exact os fd [] 5 w1 = Some (0, ?hdr, w2)"
    "avail w2 = d @ rest" "sent w2 = sent w1"
    using recv_exact_ok [OF ok, of 5 w1 "[]"] by auto
  have dl: "get_u16 (drop 3 ?hdr) = of_nat (length d)"
    using get_u16_bytes [of "of_nat (length d)" "[]"] by simp
  have nat: "unat (of_nat (length d) :: u16) = length d"
    using len by (simp add: unat_of_nat)
  show ?thesis
  proof (cases "d = []")
    case True
    with w1 w2 show ?thesis using dl
      by (auto simp: do_request_def Let_def)
  next
    case False
    then have pos: "(0 :: u16) < of_nat (length d)"
      using nat by (metis length_0_conv unat_gt_0 word_neq_0_conv neq0_conv)
    from ok obtain m w3 where w3: "os_malloc os (length d) w2 = (Some m, w3)"
      "sent w3 = sent w2" "avail w3 = avail w2"
      by (rule stream_malloc)
    obtain w4 where w4: "recv_exact os fd [] (length d) w3 = Some (0, d, w4)"
      "avail w4 = rest" "sent w4 = sent w3"
      using recv_exact_ok [OF ok, of "length d" w3 "[]"] w2(2) w3(3) by auto
    show ?thesis
      using w1 w2 w3 w4 dl nat pos by (auto simp: do_request_def Let_def)
  qed
qed

lemma run_request_ok:
  assumes "stream_ok os fd sent avail budget"
    and "avail w = response_bytes cmd st d @ rest" and "length d < 2 ^ 16"
  shows "\<exists>w'. run_request os fd req out w = Some (fst (out st d), snd (out st d), w')
    \<and> sent w' = sent w @ req \<and> avail w' = rest"
  using do_request_ok [OF assms, of req] by (auto simp: run_request_def split_beta)

lemma list_loop_names:
  assumes "\<And>n. n \<in> set ns \<Longrightarrow> cstring_field n"
  shows "list_loop (length ns) (pre @ names_bytes ns) (length pre) = map PrintName ns"
  using assms
proof (induction ns arbitrary: pre)
  case (Cons n ns)
  have n: "field_ok n" "cstr n = n"
    using Cons.prems [of n] by (simp_all add: field_ok_name cstring_field_def cstr_no_nul)
  have "list_loop (length ns) ((pre @ field_bytes n) @ names_bytes ns) (length (pre @ field_bytes n))
      = map PrintName ns"
    by (rule Cons.IH) (simp add: Cons.prems)
  with n show ?case
    by (simp add: names_bytes_def field_bytes_def nth_append Let_def)
qed (simp add: names_bytes_def)

lemma list_output_data:
  assumes "users_inv (sv_users sv)"
  shows "list_output SMP_OK (list_data sv) =
    (0, PrintCount (of_nat (users_count (sv_users sv))) # map PrintName (user_names (sv_users sv)))"
proof -
  let ?ns = "user_names (sv_users sv)"
  have count: "get_u16 (list_data sv) = of_nat (length ?ns)"
    by (simp add: list_data_def get_u16_bytes)
  have "length ?ns < 2 ^ 16"
    using users_count_le [OF assms] by (simp add: length_user_names USERS_MAX_def)
  then have "unat (of_nat (length ?ns) :: u16) = length ?ns"
    by (simp add: unat_of_nat)
  moreover have "list_loop (length ?ns) (list_data sv) 2 = map PrintName ?ns"
    using list_loop_names [of ?ns "bytes16 (of_nat (length ?ns))"] users_inv_names [OF assms]
    by (simp add: list_data_def)
  moreover have "2 \<le> length (list_data sv)" by (simp add: list_data_def)
  ultimately show ?thesis
    by (simp add: list_output_def count Let_def length_user_names)
qed

lemma metrics_output_data:
  "metrics_output SMP_OK (metrics_data sv) = (0,
     [PrintNum ''conexiones historicas'' (m_historic (sv_metrics sv)),
      PrintNum ''conexiones actuales'' (m_current (sv_metrics sv)),
      PrintNum ''bytes transferidos'' (metrics_bytes_transferred (sv_metrics sv)),
      PrintNum ''conexiones fallidas'' (m_failed (sv_metrics sv)),
      PrintNum ''usuarios registrados'' (of_nat (users_count (sv_users sv))),
      PrintNum ''bytes enviados (c->o)'' (m_sent (sv_metrics sv)),
      PrintNum ''bytes recibidos(o->c)'' (m_received (sv_metrics sv))])"
  using get_u64_bytes [where r = "[]"]
  by (simp add: metrics_output_def metrics_data_def Let_def get_u64_bytes metrics_bytes_transferred_def)

lemma config_output_data:
  assumes "config_inv (sv_cfg sv)"
  shows "config_output SMP_OK (config_data sv) = (0,
     [PrintNum ''io_buffer_size'' (cfg_io_buffer_size (sv_cfg sv)),
      PrintNum ''conn_timeout_secs'' (ucast (cfg_conn_timeout_secs (sv_cfg sv))),
      PrintFlag ''auth_required'' (cfg_auth_required (sv_cfg sv))])"
proof -
  have "unat (cfg_io_buffer_size (sv_cfg sv)) < 2 ^ 32"
    using assms by (simp add: config_inv_def config_limits)
  then have "(ucast (ucast (cfg_io_buffer_size (sv_cfg sv)) :: u32) :: u64) = cfg_io_buffer_size (sv_cfg sv)"
    by (simp add: word_unat_eq_iff unsigned_ucast_eq unsigned_take_bit_eq take_bit_nat_eq_self)
  then show ?thesis
    by (simp add: config_output_def config_data_def Let_def get_u32_bytes nth_append)
qed

section \<open>Properties\<close>

text \<open>C31: over any reliable stream, however the bytes are cut up and the calls interrupted,
  \<open>list-users\<close> against a server that answers with its user list returns, having sent exactly the
  command and consumed exactly the response, and prints exactly the registered names.\<close>

theorem client_lists_users:
  assumes "stream_ok os fd sent avail budget" and "services_inv sv"
    and "avail w = response_bytes SMP_CMD_LIST_USERS SMP_OK (list_data sv) @ rest"
  shows "\<exists>w'. cmd_list_users os fd w = Some (0,
        PrintCount (of_nat (users_count (sv_users sv))) # map PrintName (user_names (sv_users sv)), w')
    \<and> sent w' = sent w @ command_bytes CmdListUsers \<and> avail w' = rest"
proof -
  have inv: "users_inv (sv_users sv)" using assms(2) by (simp add: services_inv_def)
  have "length (list_data sv) < 2 ^ 16" using length_list_data [OF inv] by simp
  from run_request_ok [OF assms(1,3) this, of "command_bytes CmdListUsers" list_output]
  show ?thesis
    by (simp add: cmd_list_users_def request_bytes(3) list_output_data [OF inv])
qed

text \<open>A concrete stream for the witnesses: the world is the pair of the two byte streams.\<close>

definition pipe_os :: "(byte list \<times> byte list) os" where
  "pipe_os = \<lparr>
     os_recv = (\<lambda>fd n (s, a). (Inr (take n a), s, drop n a)),
     os_send = (\<lambda>fd bs (s, a). (Inr (length bs), s @ bs, a)),
     os_socket = (\<lambda>f w. (Inr 3, w)), os_getfl = (\<lambda>fd w. (Some 0, w)),
     os_setfl = (\<lambda>fd x w. (True, w)), os_O_NONBLOCK = 2048,
     os_connect = (\<lambda>fd a w. (None, w)), os_so_error = (\<lambda>fd w. (Inr ENOERROR, w)),
     os_getsockname = (\<lambda>fd w. (None, w)), os_accept = (\<lambda>fd w. (None, w)),
     os_close = (\<lambda>fd w. w), os_shutdown_wr = (\<lambda>fd w. w),
     os_malloc = (\<lambda>n w. (Some (replicate n 0), w)), os_calloc_ok = (\<lambda>w. (True, w)),
     os_thread_start = (\<lambda>w. (True, True, w)), os_inet_ntop = (\<lambda>a. []),
     os_inet_pton = (\<lambda>f a. None), os_setsockopt = (\<lambda>fd x w. w), os_bind = (\<lambda>fd a w. (True, w)),
     os_listen = (\<lambda>fd n w. (True, w)), os_sigprocmask = (\<lambda>w. (True, w)), os_sigaction = (\<lambda>w. (True, w)),
     os_getrlimit = (\<lambda>w. (None, w)), os_setrlimit = (\<lambda>n w. (True, w))\<rparr>"

lemma stream_ok_pipe: "stream_ok pipe_os fd fst snd (\<lambda>w. 0)"
  by (auto simp: stream_ok_def pipe_os_def)

theorem client_lists_users_witness:
  "\<exists>w'. cmd_list_users pipe_os 3 ([], response_bytes SMP_CMD_LIST_USERS SMP_OK (list_data demo_services) @ [7])
      = Some (0, [PrintCount 0], w')
    \<and> fst w' = [1, 3] \<and> snd w' = [7]"
  using client_lists_users [OF stream_ok_pipe services_inv_demo,
      of "([], response_bytes SMP_CMD_LIST_USERS SMP_OK (list_data demo_services) @ [7])" "[7]" 3]
  by (simp add: demo_services_def user_names_def users_count_filter users_init_def blank_user_def
      command_bytes_def SMP_VERSION_def SMP_CMD_LIST_USERS_def)

text \<open>C32: the numbers and the flag the client prints for \<open>metrics\<close> and \<open>get-config\<close> are the
  server's own values, all 64 bits of every counter.\<close>

theorem client_reads_values:
  assumes ok: "stream_ok os fd sent avail budget" and sv: "services_inv sv"
  shows "(avail w = response_bytes SMP_CMD_METRICS SMP_OK (metrics_data sv) @ rest \<longrightarrow>
      map_option (\<lambda>(rc, o', w'). (rc, o', avail w')) (cmd_metrics os fd w) = Some (0,
       [PrintNum ''conexiones historicas'' (m_historic (sv_metrics sv)),
        PrintNum ''conexiones actuales'' (m_current (sv_metrics sv)),
        PrintNum ''bytes transferidos'' (metrics_bytes_transferred (sv_metrics sv)),
        PrintNum ''conexiones fallidas'' (m_failed (sv_metrics sv)),
        PrintNum ''usuarios registrados'' (of_nat (users_count (sv_users sv))),
        PrintNum ''bytes enviados (c->o)'' (m_sent (sv_metrics sv)),
        PrintNum ''bytes recibidos(o->c)'' (m_received (sv_metrics sv))], rest))
   \<and> (avail w = response_bytes SMP_CMD_GET_CONFIG SMP_OK (config_data sv) @ rest \<longrightarrow>
      map_option (\<lambda>(rc, o', w'). (rc, o', avail w')) (cmd_get_config os fd w) = Some (0,
       [PrintNum ''io_buffer_size'' (cfg_io_buffer_size (sv_cfg sv)),
        PrintNum ''conn_timeout_secs'' (ucast (cfg_conn_timeout_secs (sv_cfg sv))),
        PrintFlag ''auth_required'' (cfg_auth_required (sv_cfg sv))], rest))"
proof (intro conjI impI, goal_cases)
  case 1
  moreover have "length (metrics_data sv) < 2 ^ 16" by (simp add: metrics_data_def Let_def)
  ultimately show ?case
    using run_request_ok [OF ok, of w SMP_CMD_METRICS SMP_OK "metrics_data sv" rest
        "command_bytes CmdMetrics" metrics_output]
    by (auto simp: cmd_metrics_def request_bytes(1) metrics_output_data)
next
  case 2
  moreover have "length (config_data sv) < 2 ^ 16" by (simp add: config_data_def Let_def)
  ultimately show ?case
    using run_request_ok [OF ok, of w SMP_CMD_GET_CONFIG SMP_OK "config_data sv" rest
        "command_bytes CmdGetConfig" config_output] sv
    by (auto simp: cmd_get_config_def request_bytes(2) config_output_data services_inv_def)
qed

theorem client_reads_values_witness:
  "\<exists>w'. cmd_get_config pipe_os 3 ([], response_bytes SMP_CMD_GET_CONFIG SMP_OK (config_data demo_services))
      = Some (0, [PrintNum ''io_buffer_size'' 8192, PrintNum ''conn_timeout_secs'' 0,
          PrintFlag ''auth_required'' False], w')"
  using client_reads_values [OF stream_ok_pipe services_inv_demo, of
      "([], response_bytes SMP_CMD_GET_CONFIG SMP_OK (config_data demo_services))" "[]" 3,
      THEN conjunct2]
  by (auto simp: demo_services_def config_init_defaults_def Let_def)



end
