(* ===== verification/Client_Main.thy ===== *)
theory Client_Main
  imports Client
begin

text \<open>
  \<open>src/client.c\<close>: \<open>main\<close> of the management client, from the options to the exit code, and \<open>connect_to\<close>.
  \<open>getopt\<close> and \<open>getaddrinfo\<close> are the C library's: the letters and arguments the first returns and the
  operands that are left are arguments of the model, the second is a function of it. The lemmas put the
  session together: what is sent, in which order, and what the exit code says.
\<close>

section \<open>The code\<close>

record options =
  op_host :: "byte list"
  op_port :: "byte list"
  op_user :: "byte list"
  op_pass :: "byte list"

definition client_defaults :: options where
  "client_defaults = \<lparr>op_host = ascii ''127.0.0.1'' @ [0], op_port = ascii ''8080'' @ [0],
     op_user = ascii ''admin'' @ [0], op_pass = ascii ''admin'' @ [0]\<rparr>"

text \<open>The loop over the options: \<^const>\<open>Inl\<close> is the exit code of a \<open>return\<close>.\<close>

primrec client_options :: "(char \<times> byte list) list \<Rightarrow> options \<Rightarrow> int + options" where
  "client_options [] o' = Inr o'"
| "client_options (opt # opts) o' =
     (let c = fst opt; optarg = snd opt in
      if c = CHR ''L'' then client_options opts (o'\<lparr>op_host := optarg\<rparr>)
      else if c = CHR ''P'' then client_options opts (o'\<lparr>op_port := optarg\<rparr>)
      else if c = CHR ''u'' then client_options opts (o'\<lparr>op_user := optarg\<rparr>)
      else if c = CHR ''w'' then client_options opts (o'\<lparr>op_pass := optarg\<rparr>)
      else if c = CHR ''h'' then Inl 0
      else Inl 1)"

type_synonym 'w resolver = "byte list \<Rightarrow> byte list \<Rightarrow> 'w \<Rightarrow> (family \<times> sockaddr) list option \<times> 'w"

text \<open>The loop of \<open>connect_to\<close> over the addresses, and the function; -1 when there is no connection.\<close>

primrec connect_first :: "'w os \<Rightarrow> (family \<times> sockaddr) list \<Rightarrow> 'w \<Rightarrow> int \<times> 'w" where
  "connect_first os [] w = (-1, w)"
| "connect_first os (ai # ais) w =
     (case os_socket os (fst ai) w of
        (Inl e, w) \<Rightarrow> connect_first os ais w
      | (Inr fd, w) \<Rightarrow>
          (case os_connect os fd (snd ai) w of
             (None, w) \<Rightarrow> (fd, w)
           | (Some e, w) \<Rightarrow> connect_first os ais (os_close os fd w)))"

definition connect_to :: "'w os \<Rightarrow> 'w resolver \<Rightarrow> byte list \<Rightarrow> byte list \<Rightarrow> 'w \<Rightarrow> int \<times> 'w" where
  "connect_to os gai host port w =
     (case gai host port w of
        (None, w) \<Rightarrow> (-1, w)
      | (Some res, w) \<Rightarrow> connect_first os res w)"

text \<open>The choice of the subcommand; \<open>rest\<close> are its operands.\<close>

definition run_subcommand ::
    "'w os \<Rightarrow> int \<Rightarrow> byte list \<Rightarrow> byte list list \<Rightarrow> 'w \<Rightarrow> (int \<times> printed list \<times> 'w) option" where
  "run_subcommand os fd sub rest w =
     (if strcmp_eq sub (ascii ''metrics'') \<and> length rest = 0 then cmd_metrics os fd w
      else if strcmp_eq sub (ascii ''get-config'') \<and> length rest = 0 then cmd_get_config os fd w
      else if strcmp_eq sub (ascii ''list-users'') \<and> length rest = 0 then cmd_list_users os fd w
      else if strcmp_eq sub (ascii ''add-user'') \<and> length rest = 2 then cmd_add_user os fd (rest ! 0) (rest ! 1) w
      else if strcmp_eq sub (ascii ''del-user'') \<and> length rest = 1 then cmd_del_user os fd (rest ! 0) w
      else if strcmp_eq sub (ascii ''set-config'') \<and> length rest = 2 then cmd_set_config os fd (rest ! 0) (rest ! 1) w
      else Some (1, [], w))"

definition client_main ::
    "'w os \<Rightarrow> 'w resolver \<Rightarrow> (char \<times> byte list) list \<Rightarrow> byte list list \<Rightarrow> 'w \<Rightarrow> (int \<times> printed list \<times> 'w) option" where
  "client_main os gai opts operands w =
     (case client_options opts client_defaults of
        Inl rc \<Rightarrow> Some (rc, [], w)
      | Inr o' \<Rightarrow>
          (case operands of
             [] \<Rightarrow> Some (1, [], w)
           | sub # rest \<Rightarrow>
               (case connect_to os gai (op_host o') (op_port o') w of
                  (fd, w) \<Rightarrow>
                    if fd < 0 then Some (1, [], w)
                    else do {
                      (r, w) \<leftarrow> do_auth os fd (op_user o') (op_pass o') w;
                      if r \<noteq> 0 then Some (1, [], os_close os fd w)
                      else do {
                        (rc, out, w) \<leftarrow> run_subcommand os fd sub rest w;
                        Some (rc, out, os_close os fd w)
                      }
                    })))"

section \<open>What a session is\<close>

text \<open>The command the operands mean\<close>

definition meant :: "byte list list \<Rightarrow> command option" where
  "meant operands = (case operands of
     [sub] \<Rightarrow> if cstr sub = ascii ''metrics'' then Some CmdMetrics
       else if cstr sub = ascii ''get-config'' then Some CmdGetConfig
       else if cstr sub = ascii ''list-users'' then Some CmdListUsers else None
   | [sub, name] \<Rightarrow> if cstr sub = ascii ''del-user'' \<and> field_ok (cstr name) then Some (CmdDelUser (cstr name)) else None
   | [sub, a, b] \<Rightarrow>
       if cstr sub = ascii ''add-user'' \<and> field_ok (cstr a) \<and> field_ok (cstr b) then Some (CmdAddUser (cstr a) (cstr b))
       else if cstr sub = ascii ''set-config'' \<and> cstr a = ascii ''buffer-size''
       then Some (CmdSetNum SMP_CFG_IO_BUFFER_SIZE (ucast (strtoul b)))
       else if cstr sub = ascii ''set-config'' \<and> cstr a = ascii ''timeout''
       then Some (CmdSetNum SMP_CFG_CONN_TIMEOUT (ucast (strtoul b)))
       else if cstr sub = ascii ''set-config'' \<and> cstr a = ascii ''auth-required''
       then Some (CmdSetAuth (if strtoul b \<noteq> 0 then 1 else 0)) else None
   | _ \<Rightarrow> None)"

text \<open>What a server with the services \<open>sv\<close> answers to credentials and to a command\<close>

definition admits :: "services \<Rightarrow> byte list \<Rightarrow> byte list \<Rightarrow> bool" where
  "admits sv user pass \<longleftrightarrow> strcmp_eq user (cfg_admin_user (sv_cfg sv)) \<and> strcmp_eq pass (cfg_admin_pass (sv_cfg sv))"

definition server_says :: "services \<Rightarrow> byte list \<Rightarrow> byte list \<Rightarrow> command \<Rightarrow> byte list" where
  "server_says sv user pass c =
     (if admits sv user pass
      then [SMP_VERSION, SMP_AUTH_OK] @ response_bytes (command_code c) (fst (fst (smp_exec c sv))) (snd (fst (smp_exec c sv)))
      else [SMP_VERSION, SMP_AUTH_FAILED])"

lemma do_auth_ok:
  assumes ok: "stream_ok os fd sent avail budget" and "valid_len user" and "valid_len pass"
    and "avail w = [v, a] @ tail"
  shows "\<exists>w'. do_auth os fd user pass w = Some (if v = SMP_VERSION \<and> a = SMP_AUTH_OK then 0 else -1, w')
    \<and> sent w' = sent w @ auth_bytes (cstr user) (cstr pass) \<and> avail w' = tail"
proof -
  obtain w1 where w1: "send_all os fd (auth_bytes (cstr user) (cstr pass)) w = Some (0, w1)"
    "sent w1 = sent w @ auth_bytes (cstr user) (cstr pass)" "avail w1 = [v, a] @ tail"
    using send_all_ok [OF ok, of "auth_bytes (cstr user) (cstr pass)" w] assms(4) by auto
  then obtain w2 where "recv_exact os fd [] 2 w1 = Some (0, [v, a], w2)" "avail w2 = tail" "sent w2 = sent w1"
    using recv_exact_ok [OF ok, of 2 w1 "[]"] by auto
  with w1 assms(2,3) show ?thesis by (simp add: do_auth_def auth_request_bytes)
qed

text \<open>A subcommand sends the command its operands mean and succeeds exactly when the server does.\<close>

fun shown :: "command \<Rightarrow> byte \<Rightarrow> byte list \<Rightarrow> int \<times> printed list" where
  "shown CmdMetrics = metrics_output"
| "shown CmdGetConfig = config_output"
| "shown CmdListUsers = list_output"
| "shown (CmdAddUser u p) = (\<lambda>st d. status_output ''add-user'' st)"
| "shown (CmdDelUser u) = (\<lambda>st d. status_output ''del-user'' st)"
| "shown _ = (\<lambda>st d. status_output ''set-config'' st)"

lemma valid_len_iff: "valid_len s \<longleftrightarrow> field_ok (cstr s)"
  by (auto simp: valid_len_def strlen_def field_ok_def)

lemma names [simp]:
  "cstr (ascii ''metrics'') = ascii ''metrics''" "cstr (ascii ''get-config'') = ascii ''get-config''"
  "cstr (ascii ''list-users'') = ascii ''list-users''" "cstr (ascii ''add-user'') = ascii ''add-user''"
  "cstr (ascii ''del-user'') = ascii ''del-user''" "cstr (ascii ''set-config'') = ascii ''set-config''"
  "cstr (ascii ''buffer-size'') = ascii ''buffer-size''" "cstr (ascii ''timeout'') = ascii ''timeout''"
  "cstr (ascii ''auth-required'') = ascii ''auth-required''"
  by (simp_all add: ascii_def cstr_def)

lemma names_differ:
  "ascii ''metrics'' \<noteq> ascii ''get-config''" "ascii ''metrics'' \<noteq> ascii ''list-users''"
  "ascii ''get-config'' \<noteq> ascii ''list-users''" "ascii ''add-user'' \<noteq> ascii ''set-config''"
  "ascii ''buffer-size'' \<noteq> ascii ''timeout''" "ascii ''buffer-size'' \<noteq> ascii ''auth-required''"
  "ascii ''timeout'' \<noteq> ascii ''auth-required''"
  by (simp_all add: ascii_def)

lemma set_config_requests:
  assumes "meant [sub, key, value] = Some c" and "cstr sub = ascii ''set-config''"
  shows "set_config_request key value = Some (command_bytes c)"
  using assms names_differ names_differ [symmetric]
  by (auto simp: meant_def set_config_request_def strcmp_eq_def command_bytes_def put32_bytes split: if_splits)

lemma subcommand_runs:
  assumes "meant (sub # rest) = Some c"
  shows "run_subcommand os fd sub rest w = run_request os fd (command_bytes c) (shown c) w"
proof -
  consider (none) "rest = []" | (one) a where "rest = [a]" | (two) a b where "rest = [a, b]"
    using assms by (auto simp: meant_def split: list.splits)
  then show ?thesis
  proof cases
    case none
    with assms names_differ names_differ [symmetric] show ?thesis
      by (auto simp: meant_def run_subcommand_def strcmp_eq_def cmd_metrics_def cmd_get_config_def cmd_list_users_def
          request_bytes split: if_splits)
  next
    case one
    with assms show ?thesis
      by (auto simp: meant_def run_subcommand_def strcmp_eq_def cmd_del_user_def valid_len_iff request_bytes split: if_splits)
  next
    case two
    show ?thesis
    proof (cases "cstr sub = ascii ''set-config''")
      case True
      then have "shown c = (\<lambda>st d. status_output ''set-config'' st)"
        using assms two names_differ by (auto simp: meant_def split: if_splits)
      with True two assms names_differ set_config_requests [of sub a b c] show ?thesis
        by (simp add: run_subcommand_def strcmp_eq_def cmd_set_config_def)
    next
      case False
      with assms two show ?thesis
        by (auto simp: meant_def run_subcommand_def strcmp_eq_def cmd_add_user_def valid_len_iff request_bytes split: if_splits)
    qed
  qed
qed

lemma shown_succeeds:
  assumes "services_inv sv" and "meant operands = Some c"
  shows "fst (shown c (fst (fst (smp_exec c sv))) (snd (fst (smp_exec c sv)))) = 0
    \<longleftrightarrow> fst (fst (smp_exec c sv)) = SMP_OK"
proof (cases c)
  case CmdListUsers
  then show ?thesis using assms(1) by (simp add: list_output_data services_inv_def)
next
  case CmdGetConfig
  then show ?thesis using assms(1) by (simp add: config_output_data services_inv_def)
qed (simp_all add: metrics_output_data status_output_def split_beta Let_def)

section \<open>Property\<close>

text \<open>C34: a session of the client over any reliable stream: with valid credentials and operands that mean a
  command, it sends the credentials and, if the server admits them, exactly that command; against a server
  that answers as specified the exit code is 0 exactly when the credentials are admitted and the command
  succeeds, the answer is consumed and the connection is closed.\<close>

theorem client_session:
  assumes "client_options opts client_defaults = Inr opt"
    and "valid_len (op_user opt)" and "valid_len (op_pass opt)" and "meant operands = Some c"
    and "connect_to os gai (op_host opt) (op_port opt) w = (fd, w1)" and "0 \<le> fd"
    and ok: "stream_ok os fd sent avail budget" and sv: "services_inv sv"
    and "avail w1 = server_says sv (op_user opt) (op_pass opt) c @ tail"
  shows "\<exists>rc out w'. client_main os gai opts operands w = Some (rc, out, os_close os fd w')
    \<and> sent w' = sent w1 @ auth_bytes (cstr (op_user opt)) (cstr (op_pass opt))
        @ (if admits sv (op_user opt) (op_pass opt) then command_bytes c else [])
    \<and> avail w' = tail
    \<and> (rc = 0 \<longleftrightarrow> admits sv (op_user opt) (op_pass opt) \<and> fst (fst (smp_exec c sv)) = SMP_OK)"
proof (cases "admits sv (op_user opt) (op_pass opt)")
  case True
  let ?st = "fst (fst (smp_exec c sv))" and ?d = "snd (fst (smp_exec c sv))"
  obtain sub rest where operands: "operands = sub # rest" using assms(4) by (cases operands) (auto simp: meant_def)
  have "avail w1 = [SMP_VERSION, SMP_AUTH_OK] @ response_bytes (command_code c) ?st ?d @ tail"
    using assms(9) True by (simp add: server_says_def)
  from do_auth_ok [OF ok assms(2,3) this] obtain w2 where
    w2: "do_auth os fd (op_user opt) (op_pass opt) w1 = Some (0, w2)"
      "sent w2 = sent w1 @ auth_bytes (cstr (op_user opt)) (cstr (op_pass opt))"
      "avail w2 = response_bytes (command_code c) ?st ?d @ tail"
    by auto
  have "length ?d < 2 ^ 16" using length_smp_exec [OF sv, of c] by simp
  from run_request_ok [OF ok w2(3) this, of "command_bytes c" "shown c"] obtain w3 where
    w3: "run_request os fd (command_bytes c) (shown c) w2 = Some (fst (shown c ?st ?d), snd (shown c ?st ?d), w3)"
      "sent w3 = sent w2 @ command_bytes c" "avail w3 = tail"
    by blast
  have "client_main os gai opts operands w = Some (fst (shown c ?st ?d), snd (shown c ?st ?d), os_close os fd w3)"
    using assms(1,5,6) w2(1) w3(1) operands subcommand_runs [OF assms(4) [unfolded operands], of os fd w2]
    by (simp add: client_main_def)
  with w2 w3 True shown_succeeds [OF sv assms(4)] show ?thesis
    by (intro exI [of _ "fst (shown c ?st ?d)"] exI [of _ "snd (shown c ?st ?d)"] exI [of _ w3]) simp
next
  case False
  obtain sub rest where operands: "operands = sub # rest" using assms(4) by (cases operands) (auto simp: meant_def)
  have "avail w1 = [SMP_VERSION, SMP_AUTH_FAILED] @ tail"
    using assms(9) False by (simp add: server_says_def)
  from do_auth_ok [OF ok assms(2,3) this] obtain w2 where
    "do_auth os fd (op_user opt) (op_pass opt) w1 = Some (-1, w2)"
      "sent w2 = sent w1 @ auth_bytes (cstr (op_user opt)) (cstr (op_pass opt))" "avail w2 = tail"
    by (auto simp: SMP_AUTH_FAILED_def SMP_AUTH_OK_def)
  with assms(1,5,6) operands False show ?thesis
    by (intro exI [of _ 1] exI [of _ "[]"] exI [of _ w2]) (simp add: client_main_def)
qed

lemma client_session_witness:
  "\<exists>rc out w'. client_main pipe_os (\<lambda>h p w. (Some [(AF_INET, SockIn 8080 [127, 0, 0, 1])], w)) [(CHR ''w'', ascii ''x'')]
        [ascii ''metrics''] ([], [1, 1]) = Some (rc, out, w')
    \<and> fst w' = [1, 5, 97, 100, 109, 105, 110, 1, 120] \<and> snd w' = [] \<and> rc \<noteq> 0"
proof -
  let ?gai = "\<lambda>h p w :: byte list \<times> byte list. (Some [(AF_INET, SockIn 8080 [127, 0, 0, 1])], w)"
  let ?o = "client_defaults\<lparr>op_pass := ascii ''x''\<rparr>" and ?w = "([], [1, 1]) :: byte list \<times> byte list"
  have o': "client_options [(CHR ''w'', ascii ''x'')] client_defaults = Inr ?o" by simp
  have creds: "op_user ?o = ascii ''admin'' @ [0]" "op_pass ?o = ascii ''x''" by (simp_all add: client_defaults_def)
  have v: "valid_len (op_user ?o)" "valid_len (op_pass ?o)" unfolding creds by code_simp+
  have con: "connect_to pipe_os ?gai (op_host ?o) (op_port ?o) ?w = (3, ?w)" by (simp add: connect_to_def pipe_os_def)
  have no: "\<not> admits demo_services (ascii ''admin'' @ [0]) (ascii ''x'')"
    by (simp add: admits_def demo_services_def strcmp_eq_def config_admin_defaults) (simp add: ascii_def cstr_def)
  have says: "snd ?w = server_says demo_services (op_user ?o) (op_pass ?o) CmdMetrics @ []"
    using no by (simp add: creds server_says_def SMP_VERSION_def SMP_AUTH_FAILED_def del: smp_exec.simps)
  have m: "meant [ascii ''metrics''] = Some CmdMetrics" by (simp add: meant_def)
  have bytes: "auth_bytes (cstr (ascii ''admin'' @ [0])) (cstr (ascii ''x'')) = [1, 5, 97, 100, 109, 105, 110, 1, 120]"
    by code_simp
  have close: "os_close pipe_os 3 w' = w'" for w' by (simp add: pipe_os_def)
  have "(0 :: int) \<le> 3" by simp
  from client_session [OF o' v m con this stream_ok_pipe services_inv_demo says, unfolded creds bytes close]
  show ?thesis using no by (elim exE conjE) (intro exI conjI, assumption, simp_all del: smp_exec.simps)
qed

end
