(* ===== verification/Parser_Engine.thy ===== *)
theory Parser_Engine
  imports Prelude
begin

text \<open>
  \<open>src/parser.h\<close>, \<open>src/parser.c\<close>: the table-driven engine for lexers, and \<open>src/parser_utils.h\<close>,
  \<open>src/parser_utils.c\<close>: the definition it is given for comparing a text without regard to case. The server
  does not use them. \<^const>\<open>None\<close> is an access outside an array or a call through a NULL pointer. The
  lemmas say that the events of the comparison are exactly those of comparing the whole input so far, and
  that with the classes of \<open>parser_no_classes\<close> the byte 255 reads behind their table.
\<close>

section \<open>The engine\<close>

text \<open>\<open>e_next\<close> says whether \<open>next\<close> points to the second event.\<close>

record parser_event =
  e_type :: nat
  e_data :: "byte list"
  e_n :: byte
  e_next :: bool

type_synonym action = "parser_event \<Rightarrow> byte \<Rightarrow> parser_event"

record parser_state_transition =
  tr_when :: int
  tr_dest :: nat
  tr_act1 :: "action option"
  tr_act2 :: "action option"

definition ANY :: int where "ANY = 512"

text \<open>A row of \<open>states\<close> is what is found from its pointer on; \<open>states_n\<close> says how much of it belongs to the state.\<close>

record parser_definition =
  pd_states_count :: nat
  pd_states :: "parser_state_transition list list"
  pd_states_n :: "nat list"
  pd_start_state :: nat

record parser =
  pa_classes :: "u32 list"
  pa_def :: parser_definition
  pa_state :: nat
  pa_e1 :: parser_event
  pa_e2 :: parser_event

definition zero_event :: parser_event where
  "zero_event = \<lparr>e_type = 0, e_data = [0, 0, 0], e_n = 0, e_next = False\<rparr>"

definition parser_init :: "bool \<Rightarrow> u32 list \<Rightarrow> parser_definition \<Rightarrow> parser option" where
  "parser_init malloc_ok classes def =
     (if malloc_ok
      then Some \<lparr>pa_classes = classes, pa_def = def, pa_state = pd_start_state def, pa_e1 = zero_event, pa_e2 = zero_event\<rparr>
      else None)"

definition parser_reset :: "parser \<Rightarrow> parser" where
  "parser_reset p = p\<lparr>pa_state := pd_start_state (pa_def p)\<rparr>"

text \<open>The test of a transition: \<open>type\<close> is the class of the character.\<close>

definition matches :: "u32 \<Rightarrow> byte \<Rightarrow> int \<Rightarrow> bool" where
  "matches cls c w =
     (if w \<le> 0xFF then uint c = w
      else if w = ANY then True
      else cls AND word_of_int w \<noteq> 0)"

text \<open>The loop of \<open>parser_feed\<close>: the first of \<open>n\<close> transitions that matches\<close>

fun first_match :: "u32 \<Rightarrow> byte \<Rightarrow> parser_state_transition list \<Rightarrow> nat \<Rightarrow> parser_state_transition option option" where
  "first_match cls c ts 0 = Some None"
| "first_match cls c [] (Suc n) = None"
| "first_match cls c (t # ts) (Suc n) =
     (if matches cls c (tr_when t) then Some (Some t) else first_match cls c ts n)"

text \<open>The event returned is \<open>pa_e1\<close> of the parser after the call.\<close>

definition parser_feed :: "parser \<Rightarrow> byte \<Rightarrow> parser option" where
  "parser_feed p c = do {
     cls \<leftarrow> (if unat c < length (pa_classes p) then Some (pa_classes p ! unat c) else None);
     let p = p\<lparr>pa_e1 := (pa_e1 p)\<lparr>e_next := False\<rparr>, pa_e2 := (pa_e2 p)\<lparr>e_next := False\<rparr>\<rparr>;
     let d = pa_def p;
     row \<leftarrow> (if pa_state p < length (pd_states d) then Some (pd_states d ! pa_state p) else None);
     n \<leftarrow> (if pa_state p < length (pd_states_n d) then Some (pd_states_n d ! pa_state p) else None);
     m \<leftarrow> first_match cls c row n;
     case m of
       None \<Rightarrow> Some p
     | Some t \<Rightarrow> do {
         act1 \<leftarrow> tr_act1 t;
         let p = p\<lparr>pa_e1 := act1 (pa_e1 p) c\<rparr>;
         let p = (case tr_act2 t of
             None \<Rightarrow> p
           | Some act2 \<Rightarrow> p\<lparr>pa_e1 := (pa_e1 p)\<lparr>e_next := True\<rparr>, pa_e2 := act2 (pa_e2 p) c\<rparr>);
         Some (p\<lparr>pa_state := tr_dest t\<rparr>)
       }
   }"

text \<open>\<open>classes[0xFF]\<close>\<close>

definition parser_no_classes :: "u32 list" where
  "parser_no_classes = replicate 0xFF 0"

section \<open>Comparing a text\<close>

definition STRING_CMP_MAYEQ :: nat where "STRING_CMP_MAYEQ = 0"
definition STRING_CMP_EQ :: nat where "STRING_CMP_EQ = 1"
definition STRING_CMP_NEQ :: nat where "STRING_CMP_NEQ = 2"

text \<open>For another value the result is uninitialised.\<close>

definition parser_utils_strcmpi_event :: "nat \<Rightarrow> string option" where
  "parser_utils_strcmpi_event ty =
     (if ty = STRING_CMP_MAYEQ then Some ''wait(c)''
      else if ty = STRING_CMP_EQ then Some ''eq(c)''
      else if ty = STRING_CMP_NEQ then Some ''neq(c)''
      else None)"

definition may_eq :: action where
  "may_eq ret c = ret\<lparr>e_type := STRING_CMP_MAYEQ, e_n := 1, e_data := (e_data ret)[0 := c]\<rparr>"

definition eq :: action where
  "eq ret c = ret\<lparr>e_type := STRING_CMP_EQ, e_n := 1, e_data := (e_data ret)[0 := c]\<rparr>"

definition neq :: action where
  "neq ret c = ret\<lparr>e_type := STRING_CMP_NEQ, e_n := 1, e_data := (e_data ret)[0 := c]\<rparr>"

text \<open>\<open>tolower\<close> and \<open>toupper\<close> of the C locale, on the \<open>int\<close> that a \<open>char\<close> is promoted to: other
  arguments than \<open>EOF\<close> and those of an \<open>unsigned char\<close> are undefined.\<close>

definition c_tolower :: "int \<Rightarrow> int option" where
  "c_tolower x = (if x < -1 then None else Some (if 65 \<le> x \<and> x \<le> 90 then x + 32 else x))"

definition c_toupper :: "int \<Rightarrow> int option" where
  "c_toupper x = (if x < -1 then None else Some (if 97 \<le> x \<and> x \<le> 122 then x - 32 else x))"

definition zero_transition :: parser_state_transition where
  "zero_transition = \<lparr>tr_when = 0, tr_dest = 0, tr_act1 = None, tr_act2 = None\<rparr>"

text \<open>The three transitions of the state \<open>i\<close> of the \<open>n\<close> that compare a character: one round of the loop\<close>

definition strcmpi_state ::
    "byte list \<Rightarrow> nat \<Rightarrow> nat \<Rightarrow> parser_state_transition list \<Rightarrow> parser_state_transition list option" where
  "strcmpi_state s n i ts = do {
     let ch = sint (s ! i);
     let dest = (if i + 1 = n then n else i + 1);
     let act = (if i + 1 = n then eq else may_eq);
     lo \<leftarrow> c_tolower ch;
     hi \<leftarrow> c_toupper ch;
     Some (ts[i * 3 := (ts ! (i * 3))\<lparr>tr_when := lo, tr_dest := dest, tr_act1 := Some act\<rparr>,
       i * 3 + 1 := (ts ! (i * 3 + 1))\<lparr>tr_when := hi, tr_dest := dest, tr_act1 := Some act\<rparr>,
       i * 3 + 2 := (ts ! (i * 3 + 2))\<lparr>tr_when := ANY, tr_dest := n + 1, tr_act1 := Some neq\<rparr>])
   }"

primrec strcmpi_loop ::
    "byte list \<Rightarrow> nat \<Rightarrow> nat list \<Rightarrow> parser_state_transition list \<Rightarrow> parser_state_transition list option" where
  "strcmpi_loop s n [] ts = Some ts"
| "strcmpi_loop s n (i # is) ts = do { ts \<leftarrow> strcmpi_state s n i ts; strcmpi_loop s n is ts }"

definition no_definition :: parser_definition where
  "no_definition = \<lparr>pd_states_count = 0, pd_states = [], pd_states_n = [], pd_start_state = 0\<rparr>"

text \<open>\<open>ok\<close>: whether the three calls of \<open>calloc\<close> succeed. The pointer of the state \<open>i\<close> is the offset \<open>3 * i\<close>.\<close>

definition parser_utils_strcmpi :: "bool \<Rightarrow> byte list \<Rightarrow> parser_definition option" where
  "parser_utils_strcmpi ok str =
     (let s = cstr str; n = length s in
      if \<not> ok then Some no_definition
      else do {
        ts \<leftarrow> strcmpi_loop s n [0..<n] (replicate (3 * (n + 2)) zero_transition);
        let ts = ts[n * 3 := (ts ! (n * 3))\<lparr>tr_when := ANY, tr_dest := n + 1, tr_act1 := Some neq\<rparr>,
          (n + 1) * 3 := (ts ! ((n + 1) * 3))\<lparr>tr_when := ANY, tr_dest := n + 1, tr_act1 := Some neq\<rparr>];
        Some \<lparr>pd_states_count = n + 2, pd_states = map (\<lambda>i. drop (3 * i) ts) [0..<n + 2],
          pd_states_n = replicate n 3 @ [1, 1], pd_start_state = 0\<rparr>
      })"

text \<open>\<open>parser_utils_strcmpi_destroy\<close> reads \<open>states[0]\<close> of the definition it frees.\<close>

definition parser_utils_strcmpi_destroy :: "parser_definition \<Rightarrow> unit option" where
  "parser_utils_strcmpi_destroy d = (if pd_states d = [] then None else Some ())"

section \<open>Laws\<close>

text \<open>An ASCII character is compared without regard to case.\<close>

lemma uint_tolower: "uint (tolower b) = (if 65 \<le> uint b \<and> uint b \<le> 90 then uint b + 32 else uint b)"
proof (cases "65 \<le> b \<and> b \<le> 90")
  case True
  then have "uint b \<le> 90" "65 \<le> uint b" by (simp_all add: word_le_def)
  then have "uint (b + 32) = uint b + 32" by (simp add: uint_word_ariths)
  with True show ?thesis by (simp add: tolower_def word_le_def)
qed (auto simp: tolower_def word_le_def)

lemma sint_ascii: "(b :: byte) < 128 \<Longrightarrow> sint b = uint b"
  unfolding sint_uint by (rule signed_take_bit_int_eq_self) (simp_all add: word_less_def order_trans [OF _ uint_ge_0])

lemma folded:
  fixes b c :: byte
  assumes "c < 128"
  shows "\<exists>lo hi. c_tolower (sint c) = Some lo \<and> c_toupper (sint c) = Some hi
    \<and> (matches cls b lo \<or> matches cls b hi \<longleftrightarrow> tolower b = tolower c)"
proof -
  have c: "\<not> uint c < - 1" "uint c < 128"
    using assms uint_ge_0 [of c] unfolding word_less_def by (linarith, simp)
  have b: "uint b < 256" using uint_lt2p [of b] by simp
  have "tolower b = tolower c \<longleftrightarrow>
      (if 65 \<le> uint b \<and> uint b \<le> 90 then uint b + 32 else uint b) = (if 65 \<le> uint c \<and> uint c \<le> 90 then uint c + 32 else uint c)"
    by (simp only: word_uint_eq_iff uint_tolower)
  with b c show ?thesis
    by (auto simp: c_tolower_def c_toupper_def sint_ascii [OF assms] matches_def)
qed

text \<open>The rows of the table\<close>

definition row :: "byte list \<Rightarrow> nat \<Rightarrow> parser_state_transition list" where
  "row s i =
     (let act = Some (if i + 1 = length s then eq else may_eq) in
      [\<lparr>tr_when = the (c_tolower (sint (s ! i))), tr_dest = i + 1, tr_act1 = act, tr_act2 = None\<rparr>,
       \<lparr>tr_when = the (c_toupper (sint (s ! i))), tr_dest = i + 1, tr_act1 = act, tr_act2 = None\<rparr>,
       \<lparr>tr_when = ANY, tr_dest = length s + 1, tr_act1 = Some neq, tr_act2 = None\<rparr>])"

lemma length_rows: "length (concat (map (row s) is)) = 3 * length is"
  by (induction "is") (simp_all add: row_def Let_def)

lemma strcmpi_loop_append:
  "strcmpi_loop s n (is @ js) ts = Option.bind (strcmpi_loop s n is ts) (strcmpi_loop s n js)"
  by (induction "is" arbitrary: ts) (simp_all add: Option.bind_assoc)

lemma strcmpi_rows:
  assumes "\<forall>c \<in> set s. c < 128" and "k \<le> length s"
  shows "strcmpi_loop s (length s) [0..<k] (replicate (3 * (length s + 2)) zero_transition) =
    Some (concat (map (row s) [0..<k]) @ replicate (3 * (length s + 2 - k)) zero_transition)"
  using assms(2)
proof (induction k)
  case 0
  then show ?case by simp
next
  case (Suc k)
  let ?done = "concat (map (row s) [0..<k])" and ?z = zero_transition
  have len: "length ?done = 3 * k" by (simp add: length_rows)
  have "3 * (length s + 2 - k) = Suc (Suc (Suc (3 * (length s + 2 - Suc k))))" using Suc.prems by simp
  then have rest: "replicate (3 * (length s + 2 - k)) ?z = ?z # ?z # ?z # replicate (3 * (length s + 2 - Suc k)) ?z"
    by (simp only: replicate.simps)
  have "s ! k < 128" using assms(1) Suc.prems by simp
  from folded [OF this, of 0 0] obtain lo hi where ch: "c_tolower (sint (s ! k)) = Some lo" "c_toupper (sint (s ! k)) = Some hi"
    by blast
  have "strcmpi_state s (length s) k (?done @ ?z # ?z # ?z # replicate (3 * (length s + 2 - Suc k)) ?z) =
      Some (?done @ row s k @ replicate (3 * (length s + 2 - Suc k)) ?z)"
    using ch by (simp add: strcmpi_state_def Let_def len nth_append list_update_append row_def zero_transition_def mult.commute)
  then have "strcmpi_loop s (length s) ([0..<k] @ [k]) (replicate (3 * (length s + 2)) ?z) =
      Some (?done @ row s k @ replicate (3 * (length s + 2 - Suc k)) ?z)"
    unfolding strcmpi_loop_append Suc.IH [OF Suc_leD [OF Suc.prems]] rest Option.bind.bind_lunit strcmpi_loop.simps
    by (simp only: Option.bind.bind_lunit)
  then show ?case by simp
qed

text \<open>The definition that results\<close>

definition sink :: "byte list \<Rightarrow> parser_state_transition" where
  "sink s = \<lparr>tr_when = ANY, tr_dest = length s + 1, tr_act1 = Some neq, tr_act2 = None\<rparr>"

definition rows :: "byte list \<Rightarrow> parser_state_transition list" where
  "rows s = concat (map (row s) [0..<length s]) @
     [sink s, zero_transition, zero_transition, sink s, zero_transition, zero_transition]"

lemma strcmpi_defined:
  assumes "\<forall>c \<in> set (cstr str). c < 128"
  defines "s \<equiv> cstr str"
  shows "parser_utils_strcmpi True str = Some \<lparr>pd_states_count = length s + 2,
     pd_states = map (\<lambda>i. drop (3 * i) (rows s)) [0..<length s + 2],
     pd_states_n = replicate (length s) 3 @ [1, 1], pd_start_state = 0\<rparr>"
proof -
  let ?done = "concat (map (row s) [0..<length s])" and ?z = zero_transition
  have len: "length ?done = 3 * length s" by (simp add: length_rows)
  have six: "replicate (3 * (length s + 2 - length s)) ?z = [?z, ?z, ?z, ?z, ?z, ?z]"
    by (simp add: numeral_eq_Suc)
  show ?thesis
    unfolding parser_utils_strcmpi_def s_def [symmetric]
    using strcmpi_rows [OF assms(1) [folded s_def] order_refl, unfolded six]
    by (simp add: Let_def len list_update_append nth_append rows_def sink_def zero_transition_def mult.commute)
qed


definition compares :: "byte list \<Rightarrow> parser_definition" where
  "compares s = \<lparr>pd_states_count = length s + 2, pd_states = map (\<lambda>i. drop (3 * i) (rows s)) [0..<length s + 2],
     pd_states_n = replicate (length s) 3 @ [1, 1], pd_start_state = 0\<rparr>"

lemma drop_rows: "i \<le> length s \<Longrightarrow> drop (3 * i) (rows s) = concat (map (row s) [i..<length s]) @
    [sink s, zero_transition, zero_transition, sink s, zero_transition, zero_transition]"
proof -
  assume "i \<le> length s"
  then have "[0..<length s] = [0..<i] @ [i..<length s]" using upt_add_eq_append [of 0 i "length s - i"] by simp
  then show ?thesis by (simp add: rows_def length_rows)
qed

lemma row_at:
  assumes "k < length s"
  shows "\<exists>r. drop (3 * k) (rows s) = row s k @ r"
  using assms drop_rows [of k s] by (simp add: upt_conv_Cons)

lemma first_match_three:
  "first_match cls c (t1 # t2 # t3 # r) 3 = Some (if matches cls c (tr_when t1) then Some t1
     else if matches cls c (tr_when t2) then Some t2 else if matches cls c (tr_when t3) then Some t3 else None)"
  by (simp add: numeral_3_eq_3)

text \<open>What one byte does\<close>

lemma parser_feed_compares:
  assumes "pa_def p = compares s" and "\<forall>c \<in> set s. c < 128" and "pa_state p \<le> length s + 1"
    and "unat b < length (pa_classes p)" and "length (e_data (pa_e1 p)) = 3"
  defines "hit \<equiv> pa_state p < length s \<and> tolower b = tolower (s ! pa_state p)"
  shows "\<exists>q. parser_feed p b = Some q \<and> pa_def q = compares s \<and> pa_classes q = pa_classes p
    \<and> pa_state q = (if hit then pa_state p + 1 else length s + 1)
    \<and> e_type (pa_e1 q) = (if hit then if pa_state p + 1 = length s then STRING_CMP_EQ else STRING_CMP_MAYEQ else STRING_CMP_NEQ)
    \<and> e_n (pa_e1 q) = 1 \<and> e_data (pa_e1 q) ! 0 = b \<and> length (e_data (pa_e1 q)) = 3 \<and> \<not> e_next (pa_e1 q)"
proof (cases "pa_state p < length s")
  case True
  let ?k = "pa_state p"
  from row_at [OF True] obtain r where r: "drop (3 * ?k) (rows s) = row s ?k @ r" by blast
  have "s ! ?k < 128" using True assms(2) by simp
  from folded [OF this, of "pa_classes p ! unat b" b] obtain lo hi where
    ch: "c_tolower (sint (s ! ?k)) = Some lo" "c_toupper (sint (s ! ?k)) = Some hi"
      "matches (pa_classes p ! unat b) b lo \<or> matches (pa_classes p ! unat b) b hi \<longleftrightarrow> tolower b = tolower (s ! ?k)"
    by blast
  have any: "matches cls b ANY" for cls by (simp add: matches_def ANY_def)
  have "pd_states (compares s) ! ?k = row s ?k @ r" "pd_states_n (compares s) ! ?k = 3"
    using True r by (simp_all add: compares_def nth_append del: upt_Suc)
  moreover have "length (pd_states (compares s)) = length s + 2" "length (pd_states_n (compares s)) = length s + 2"
    by (simp_all add: compares_def)
  ultimately show ?thesis
    using True assms(1,3-5) ch(3) any
    by (auto simp: parser_feed_def row_def Let_def ch(1,2) hit_def first_match_three eq_def may_eq_def neq_def)
next
  case False
  have any: "matches cls b ANY" for cls by (simp add: matches_def ANY_def)
  have "\<exists>r. pd_states (compares s) ! pa_state p = sink s # r \<and> pd_states_n (compares s) ! pa_state p = 1"
  proof (cases "pa_state p = length s")
    case True
    then show ?thesis using drop_rows [of "length s" s] by (simp add: compares_def nth_append del: upt_Suc)
  next
    case other: False
    then have "pa_state p = length s + 1" using assms(3) \<open>\<not> pa_state p < length s\<close> by simp
    then show ?thesis by (simp add: compares_def nth_append rows_def length_rows del: upt_Suc)
  qed
  then show ?thesis
    using False assms(1,3-5) any
    by (auto simp: parser_feed_def sink_def Let_def hit_def neq_def compares_def simp del: upt_Suc)
qed


text \<open>What \<open>parser_utils_strcmpi\<close> returns when an allocation fails may not be destroyed.\<close>

lemma strcmpi_destroyed:
  "Option.bind (parser_utils_strcmpi ok str) parser_utils_strcmpi_destroy = Some () \<Longrightarrow> ok"
  by (cases ok) (simp_all add: parser_utils_strcmpi_def parser_utils_strcmpi_destroy_def no_definition_def Let_def)

section \<open>The events of an input\<close>

text \<open>An input is fed byte by byte; the events returned are collected.\<close>

primrec feeds :: "parser \<Rightarrow> byte list \<Rightarrow> (parser_event list \<times> parser) option" where
  "feeds p [] = Some ([], p)"
| "feeds p (b # bs) = do { p \<leftarrow> parser_feed p b; (es, q) \<leftarrow> feeds p bs; Some (pa_e1 p # es, q) }"

text \<open>What has to be said of the input \<open>t\<close>, as a whole, when it is compared with \<open>s\<close>\<close>

definition verdict :: "byte list \<Rightarrow> byte list \<Rightarrow> nat" where
  "verdict s t =
     (if map tolower t = map tolower s then STRING_CMP_EQ
      else if length t < length s \<and> map tolower t = map tolower (take (length t) s) then STRING_CMP_MAYEQ
      else STRING_CMP_NEQ)"

definition agrees :: "byte list \<Rightarrow> byte list \<Rightarrow> bool" where
  "agrees s t \<longleftrightarrow> length t \<le> length s \<and> map tolower t = map tolower (take (length t) s)"

lemma agrees_snoc: "agrees s (t @ [b]) \<longleftrightarrow> agrees s t \<and> length t < length s \<and> tolower b = tolower (s ! length t)"
  by (auto simp: agrees_def take_Suc_conv_app_nth)

lemma verdict_agrees:
  "verdict s t = (if agrees s t then if length t = length s then STRING_CMP_EQ else STRING_CMP_MAYEQ else STRING_CMP_NEQ)"
  by (auto simp: verdict_def agrees_def dest: map_eq_imp_length_eq)

definition comparing :: "byte list \<Rightarrow> byte list \<Rightarrow> parser \<Rightarrow> bool" where
  "comparing s t p \<longleftrightarrow> pa_def p = compares s \<and> length (e_data (pa_e1 p)) = 3
     \<and> pa_state p = (if agrees s t then length t else length s + 1)"

definition reports :: "byte list \<Rightarrow> byte list \<Rightarrow> parser_event \<Rightarrow> bool" where
  "reports s t e \<longleftrightarrow> e_type e = verdict s t \<and> e_n e = 1 \<and> e_data e ! 0 = last t \<and> \<not> e_next e"

lemma comparing_step:
  assumes "comparing s t p" and "\<forall>c \<in> set s. c < 128" and "unat b < length (pa_classes p)"
  shows "\<exists>q. parser_feed p b = Some q \<and> comparing s (t @ [b]) q \<and> pa_classes q = pa_classes p \<and> reports s (t @ [b]) (pa_e1 q)"
proof -
  have "pa_def p = compares s" "pa_state p \<le> length s + 1" "length (e_data (pa_e1 p)) = 3"
    using assms(1) by (auto simp: comparing_def agrees_def)
  from parser_feed_compares [OF this(1) assms(2) this(2) assms(3) this(3)] show ?thesis
    using assms(1) by (fastforce simp: comparing_def reports_def verdict_agrees agrees_snoc)
qed

lemma comparing_feeds:
  assumes "comparing s t p" and "\<forall>c \<in> set s. c < 128" and "\<forall>b \<in> set bs. unat b < length (pa_classes p)"
  shows "\<exists>es q. feeds p bs = Some (es, q) \<and> comparing s (t @ bs) q \<and> pa_classes q = pa_classes p \<and> length es = length bs
    \<and> (\<forall>i < length bs. reports s (t @ take (i + 1) bs) (es ! i))"
  using assms(1,3)
proof (induction bs arbitrary: p t)
  case Nil
  then show ?case by simp
next
  case (Cons b bs)
  then have "unat b < length (pa_classes p)" by simp
  from comparing_step [OF Cons.prems(1) assms(2) this] obtain q where
    q: "parser_feed p b = Some q" "comparing s (t @ [b]) q" "pa_classes q = pa_classes p" "reports s (t @ [b]) (pa_e1 q)"
    by blast
  have "\<forall>b \<in> set bs. unat b < length (pa_classes q)" using Cons.prems(2) q(3) by simp
  from Cons.IH [OF q(2) this] obtain es r where
    r: "feeds q bs = Some (es, r)" "comparing s (t @ b # bs) r" "pa_classes r = pa_classes q" "length es = length bs"
      "\<forall>i < length bs. reports s (t @ b # take (i + 1) bs) (es ! i)"
    by auto
  have "reports s (t @ take (i + 1) (b # bs)) ((pa_e1 q # es) ! i)" if "i < length (b # bs)" for i
    using that q(4) r(5) by (cases i) simp_all
  with q(1,3) r show ?case by simp
qed

lemma reset_feeds:
  assumes "pa_def p = compares s" and "length (e_data (pa_e1 p)) = 3"
    and "\<forall>c \<in> set s. c < 128" and "\<forall>b \<in> set bs. unat b < length (pa_classes p)"
  shows "\<exists>es q. feeds (parser_reset p) bs = Some (es, q) \<and> comparing s bs q \<and> pa_classes q = pa_classes p \<and> length es = length bs
    \<and> (\<forall>i < length bs. reports s (take (i + 1) bs) (es ! i))"
proof -
  have "comparing s [] (parser_reset p)"
    using assms(1,2) by (simp add: comparing_def parser_reset_def agrees_def compares_def)
  moreover have eq: "pa_classes (parser_reset p) = pa_classes p" by (simp add: parser_reset_def)
  ultimately show ?thesis
    using comparing_feeds [of s "[]" "parser_reset p" bs] assms(3,4) by (simp only: eq append_Nil)
qed

text \<open>C40: for an ASCII text and classes with an entry for every byte that is fed, \<open>parser_utils_strcmpi\<close> gives
  a definition with which the engine, initialised, fed with anything and reset, returns for every byte one
  event, with that byte as data, that says what is true of the whole input since the reset: equal to the
  text but for case, a proper prefix of it but for case, or neither.\<close>

theorem comparison_reports:
  assumes "\<forall>c \<in> set (cstr str). c < 128" and "\<forall>b \<in> set (earlier @ bs). unat b < length classes"
  shows "\<exists>d p es0 p1 es p2. parser_utils_strcmpi True str = Some d \<and> parser_init True classes d = Some p
    \<and> feeds p earlier = Some (es0, p1) \<and> feeds (parser_reset p1) bs = Some (es, p2)
    \<and> map e_type es = map (\<lambda>i. verdict (cstr str) (take (i + 1) bs)) [0..<length bs]
    \<and> map (\<lambda>e. e_data e ! 0) es = bs \<and> list_all (\<lambda>e. e_n e = 1 \<and> \<not> e_next e) es"
proof -
  let ?s = "cstr str"
  define p where "p = the (parser_init True classes (compares ?s))"
  have p: "parser_init True classes (compares ?s) = Some p" "pa_def p = compares ?s" "pa_classes p = classes"
      "length (e_data (pa_e1 p)) = 3" "parser_reset p = p"
    by (simp_all add: p_def parser_init_def zero_event_def parser_reset_def)
  have cover: "\<forall>b \<in> set earlier. unat b < length (pa_classes p)" "\<forall>b \<in> set bs. unat b < length classes"
    using assms(2) p(3) by simp_all
  from reset_feeds [OF p(2,4) assms(1) cover(1), unfolded p(3,5)] obtain es0 p1 where
    p1: "feeds p earlier = Some (es0, p1)" "comparing ?s earlier p1" "pa_classes p1 = classes"
    by (elim exE conjE)
  have "pa_def p1 = compares ?s" "length (e_data (pa_e1 p1)) = 3" using p1(2) by (simp_all add: comparing_def)
  from reset_feeds [OF this assms(1), of bs, unfolded p1(3), OF cover(2)] obtain es p2 where
    p2: "feeds (parser_reset p1) bs = Some (es, p2)" "length es = length bs"
      "\<forall>i < length bs. reports ?s (take (i + 1) bs) (es ! i)"
    by (elim exE conjE)
  have "map e_type es = map (\<lambda>i. verdict ?s (take (i + 1) bs)) [0..<length bs]"
    using p2(2,3) by (intro nth_equalityI) (simp_all add: reports_def)
  moreover have "map (\<lambda>e. e_data e ! 0) es = bs"
    using p2(2,3) by (intro nth_equalityI) (simp_all add: reports_def take_Suc_conv_app_nth)
  moreover have "list_all (\<lambda>e. e_n e = 1 \<and> \<not> e_next e) es"
    using p2(2,3) by (simp add: list_all_length reports_def)
  moreover note strcmpi_defined [OF assms(1), folded compares_def] p(1) p1(1) p2(1)
  ultimately show ?thesis by (intro exI conjI)
qed

lemma comparison_reports_witness:
  "\<exists>d p es0 p1 es p2. parser_utils_strcmpi True [102, 79, 0] = Some d \<and> parser_init True parser_no_classes d = Some p
    \<and> feeds p [120] = Some (es0, p1) \<and> feeds (parser_reset p1) [70, 111, 111] = Some (es, p2)
    \<and> map e_type es = [STRING_CMP_MAYEQ, STRING_CMP_EQ, STRING_CMP_NEQ]
    \<and> map (\<lambda>e. e_data e ! 0) es = [70, 111, 111] \<and> list_all (\<lambda>e. e_n e = 1 \<and> \<not> e_next e) es"
proof -
  have "cstr [102, 79, 0] = [102, 79 :: byte]" by (simp add: cstr_def)
  moreover have "map (\<lambda>i. verdict [102, 79] (take (i + 1) [70, 111, 111])) [0..<length [70, 111, 111 :: byte]] =
      [STRING_CMP_MAYEQ, STRING_CMP_EQ, STRING_CMP_NEQ]"
    by (simp add: verdict_def tolower_def upt_rec)
  ultimately show ?thesis
    using comparison_reports [of "[102, 79, 0]" "[120]" "[70, 111, 111]" parser_no_classes]
    by (simp add: parser_no_classes_def)
qed

text \<open>With the classes of \<open>parser_no_classes\<close>, whatever the definition and the state, the byte 255 makes
  the engine read behind the table of classes; \<open>parser.h\<close> asks for 256 entries.\<close>

lemma no_classes_short:
  assumes "parser_init malloc_ok parser_no_classes def = Some p"
  shows "parser_feed (p\<lparr>pa_state := st\<rparr>) 255 = None"
  using assms by (auto simp: parser_init_def parser_feed_def parser_no_classes_def split: if_splits)

lemma no_classes_short_example:
  "\<exists>p. parser_init True parser_no_classes no_definition = Some p \<and> parser_feed (p\<lparr>pa_state := 1\<rparr>) 255 = None"
  using no_classes_short [of True no_definition "the (parser_init True parser_no_classes no_definition)" 1]
  by (simp add: parser_init_def)

end
