(* ===== verification/Incremental.thy ===== *)
theory Incremental
  imports Buffer
begin

text \<open>
  The interface the three SOCKS5 parsers share: a \<open>feed\<close> function that takes one byte, a set
  of final states, and the \<open>consume\<close> loop over a buffer. \<open>eat\<close> is the reference: what the
  parser makes of a list of bytes, and which bytes it leaves. The lemmas of the locale say that
  the loop computes \<open>eat\<close>, that it always stops, and that the result does not depend on how
  the input was cut into pieces.
\<close>

fun eat :: "('p \<Rightarrow> byte \<Rightarrow> 'p) \<Rightarrow> ('p \<Rightarrow> bool) \<Rightarrow> 'p \<Rightarrow> byte list \<Rightarrow> 'p \<times> byte list" where
  "eat feed final p [] = (p, [])"
| "eat feed final p (b # bs) =
     (let p' = feed p b in if final p' then (p', bs) else eat feed final p' bs)"

lemma eat_append:
  assumes "\<not> final p"
  shows "eat feed final p (xs @ ys) =
     (let (p', rest) = eat feed final p xs
      in if final p' then (p', rest @ ys) else eat feed final p' ys)"
  using assms by (induction xs arbitrary: p) (auto simp: Let_def split: prod.splits)

lemma eat_rest_Nil: "\<not> final (fst (eat feed final p bs)) \<Longrightarrow> snd (eat feed final p bs) = []"
  by (induction bs arbitrary: p) (auto simp: Let_def split: if_splits)

lemma eat_suffix: "\<exists>used. bs = used @ snd (eat feed final p bs)"
proof (induction bs arbitrary: p)
  case (Cons b bs)
  obtain used where "bs = used @ snd (eat feed final (feed p b) bs)"
    using Cons.IH by blast
  then show ?case
    by (cases "final (feed p b)") (auto simp: Let_def intro: exI [of _ "[b]"] exI [of _ "b # used"])
qed simp

text \<open>
  A field of \<open>n\<close> bytes: \<open>S xs\<close> is the parser with the prefix \<open>xs\<close> of the field read, \<open>T xs\<close> the
  parser once the field \<open>xs\<close> is complete.
\<close>

lemma eat_field:
  assumes more: "\<And>xs b. Suc (length xs) < n \<Longrightarrow> feed (S xs) b = S (xs @ [b])"
    and last: "\<And>xs b. Suc (length xs) = n \<Longrightarrow> feed (S xs) b = T (xs @ [b])"
    and going: "\<And>xs. length xs < n \<Longrightarrow> \<not> final (S xs)"
    and "length xs < n"
  shows "eat feed final (S xs) bs =
    (if length bs < n - length xs then (S (xs @ bs), [])
     else let fld = xs @ take (n - length xs) bs; rest = drop (n - length xs) bs
          in if final (T fld) then (T fld, rest) else eat feed final (T fld) rest)"
  using assms(4)
proof (induction bs arbitrary: xs)
  case Nil
  then show ?case by simp
next
  case (Cons b bs)
  show ?case
  proof (cases "Suc (length xs) = n")
    case True
    then have "n - length xs = 1" by simp
    then show ?thesis using last [OF True, of b] by (simp add: Let_def)
  next
    case False
    then have lt: "Suc (length xs) < n" using Cons.prems by simp
    moreover have "n - length xs = Suc (n - Suc (length xs))" using lt by simp
    ultimately show ?thesis
      using Cons.IH [of "xs @ [b]"] more [OF lt, of b] going [of "xs @ [b]"]
      by (simp add: Let_def)
  qed
qed

text \<open>A property of the parser kept by every byte holds after a run.\<close>

lemma eat_invariant:
  assumes "P p" and "\<And>p b. P p \<Longrightarrow> P (feed p b)"
  shows "P (fst (eat feed final p bs))"
  using assms(1) by (induction bs arbitrary: p) (auto simp: Let_def assms(2))

text \<open>
  The loop \<open>while (buffer_can_read(buf)) { b = buffer_read(buf); feed(p, b); ... }\<close>, which
  \<open>hello_parser_consume\<close>, \<open>auth_parser_consume\<close> and \<open>request_parser_consume\<close> write out
  three times. The flag says whether the loop was left by \<open>return true\<close>.
\<close>

lemma buffer_read_shrinks:
  "buffer_can_read b \<Longrightarrow> buffer_read b = Some (c, b') \<Longrightarrow>
     b_write b' - b_read b' < b_write b - b_read b"
  by (auto simp: buffer_read_def buffer_read_adv_def buffer_can_read_def buffer_compact_def Let_def
      split: if_splits)

function consume_buffer ::
    "('p \<Rightarrow> byte \<Rightarrow> 'p) \<Rightarrow> ('p \<Rightarrow> bool) \<Rightarrow> 'p \<Rightarrow> buffer \<Rightarrow> ('p \<times> buffer \<times> bool) option" where
  "consume_buffer feed final p buf =
     (if buffer_can_read buf
      then (case buffer_read buf of
              None \<Rightarrow> None
            | Some (b, buf) \<Rightarrow>
                (let p = feed p b
                 in if final p then Some (p, buf, True) else consume_buffer feed final p buf))
      else Some (p, buf, False))"
  by pat_completeness auto
termination
  by (relation "measure (\<lambda>(feed, final, p, b). b_write b - b_read b)")
    (auto dest: buffer_read_shrinks)

declare consume_buffer.simps [simp del]

lemma consume_buffer_unfold:
  "consume_buffer feed final p b =
    (if buffer_can_read b
     then Option.bind (buffer_read b) (\<lambda>(c, b).
       let p = feed p c in if final p then Some (p, b, True) else consume_buffer feed final p b)
     else Some (p, b, False))"
  by (subst consume_buffer.simps) (auto split: option.splits)

locale incremental_parser = byte_source inv contents can_read get
  for inv :: "'b \<Rightarrow> bool" and contents :: "'b \<Rightarrow> byte list"
    and can_read :: "'b \<Rightarrow> bool" and get :: "'b \<Rightarrow> (byte \<times> 'b) option" +
  fixes feed :: "'p \<Rightarrow> byte \<Rightarrow> 'p"
    and final :: "'p \<Rightarrow> bool"
    and consume :: "'p \<Rightarrow> 'b \<Rightarrow> ('p \<times> 'b \<times> bool) option"
  assumes final_absorbs: "final p \<Longrightarrow> feed p b = p"
    and consume_loop: "consume p s =
      (if can_read s
       then Option.bind (get s) (\<lambda>(b, s).
         let p = feed p b in if final p then Some (p, s, True) else consume p s)
       else Some (p, s, False))"
begin

text \<open>The loop returns, and it computes \<open>eat\<close>.\<close>

lemma consume_eat:
  assumes "inv s"
  shows "\<exists>s'. consume p s = Some (fst (eat feed final p (contents s)), s',
           contents s \<noteq> [] \<and> final (fst (eat feed final p (contents s))))
         \<and> inv s' \<and> contents s' = snd (eat feed final p (contents s))"
  using assms
proof (induction "contents s" arbitrary: p s)
  case Nil
  then have c: "contents s = []" by simp
  then have "consume p s = Some (p, s, False)"
    using Nil.prems by (simp add: consume_loop [of p s] can_read)
  with c Nil.prems show ?case by simp
next
  case (Cons b bs)
  obtain s1 where s1: "get s = Some (b, s1)" "inv s1" "contents s1 = bs"
    using get [OF Cons.prems Cons.hyps(2) [symmetric]] by blast
  have step: "consume p s =
      (if final (feed p b) then Some (feed p b, s1, True) else consume (feed p b) s1)"
    using Cons.prems Cons.hyps(2) [symmetric] s1(1)
    by (simp add: consume_loop [of p s] can_read Let_def)
  show ?case
  proof (cases "final (feed p b)")
    case True
    with step s1 Cons.hyps(2) [symmetric] show ?thesis by simp
  next
    case False
    have nf: "bs = [] \<Longrightarrow> \<not> final (fst (eat feed final (feed p b) bs))"
      using False by simp
    from Cons.hyps(1) [OF s1(3) [symmetric] s1(2), of "feed p b"] step False s1(3) nf
    show ?thesis by (auto simp flip: Cons.hyps(2))
  qed
qed

lemma eat_final_absorbs: "final p \<Longrightarrow> foldl feed p bs = p"
  by (induction bs) (simp_all add: final_absorbs)

text \<open>The parser state reached is the plain left fold over all bytes offered.\<close>

lemma eat_foldl: "fst (eat feed final p bs) = foldl feed p bs"
  by (induction bs arbitrary: p) (simp_all add: Let_def eat_final_absorbs)

text \<open>
  Partial reads: two calls of the loop, with more bytes appended in between, end in the same
  parser state as one call over everything.
\<close>

lemma eat_chunks:
  "foldl feed p (xs @ ys) = foldl feed (fst (eat feed final p xs)) ys"
  by (simp add: eat_foldl)

end

section \<open>Messages that arrive in pieces\<close>

text \<open>
  The reading side of a handshake state: every time the socket is readable, the received bytes are
  put behind the write pointer, \<open>buffer_write_adv\<close> is called and the parser's consume function
  runs; the state is left when that returns true. The result is the parser, the buffer, whether the
  state was left, and \<open>*error\<close>.
\<close>

type_synonym 'p consume_fun = "'p \<Rightarrow> buffer \<Rightarrow> bool \<Rightarrow> ('p \<times> buffer \<times> bool \<times> bool) option"

fun deliver :: "'p consume_fun \<Rightarrow> 'p \<Rightarrow> buffer \<Rightarrow> byte list list \<Rightarrow> ('p \<times> buffer \<times> bool \<times> bool) option"
  where
  "deliver consume p b [] = Some (p, b, False, False)"
| "deliver consume p b (c # cs) =
     do { b \<leftarrow> buffer_write_adv (buffer_poke b (b_write b) c) (int (length c));
          (p, b, fin, err) \<leftarrow> consume p b False;
          if fin then Some (p, b, fin, err) else deliver consume p b cs }"

text \<open>Chunks a receive into the buffer can produce: not empty, and no longer than the buffer.\<close>

definition chunks_ok :: "buffer \<Rightarrow> byte list list \<Rightarrow> bool" where
  "chunks_ok b cs \<longleftrightarrow> (\<forall>c \<in> set cs. c \<noteq> [] \<and> length c \<le> b_limit b)"

lemma buffer_read_limit: "buffer_read b = Some (c, b') \<Longrightarrow> b_limit b' = b_limit b"
  by (auto simp: buffer_read_def buffer_read_adv_def buffer_compact_def Let_def split: if_splits)

lemma consume_buffer_limit:
  "consume_buffer feed final p b = Some (p', b', fin) \<Longrightarrow> b_limit b' = b_limit b"
proof (induction feed final p b rule: consume_buffer.induct)
  case (1 feed final p b)
  from "1.prems" show ?case
    unfolding consume_buffer.simps [of feed final p b]
    by (auto simp: Let_def buffer_read_limit dest!: "1.IH"
        split: if_splits option.splits prod.splits)
qed

text \<open>
  A parser with its C entry point \<open>consume\<close>, which adds the error flag to the loop.
\<close>

locale buffered_parser =
  incremental_parser buf_inv buf_contents buffer_can_read buffer_read feed final
    "consume_buffer feed final"
  for feed :: "'p \<Rightarrow> byte \<Rightarrow> 'p" and final :: "'p \<Rightarrow> bool" +
  fixes failed :: "'p \<Rightarrow> bool" and entry :: "'p consume_fun"
  assumes entry: "entry p b e = map_option (\<lambda>(p, buf, fin).
      (p, buf, fin, if fin then failed p else e)) (consume_buffer feed final p b)"
begin

lemma entry_eat:
  assumes "buf_inv b" "\<not> final p"
  shows "\<exists>b'. entry p b e = Some (fst (eat feed final p (buf_contents b)), b',
       final (fst (eat feed final p (buf_contents b))),
       if final (fst (eat feed final p (buf_contents b)))
       then failed (fst (eat feed final p (buf_contents b))) else e)
     \<and> buf_inv b' \<and> buf_contents b' = snd (eat feed final p (buf_contents b))
     \<and> b_limit b' = b_limit b"
proof -
  let ?r = "eat feed final p (buf_contents b)"
  obtain b' where b': "consume_buffer feed final p b =
      Some (fst ?r, b', buf_contents b \<noteq> [] \<and> final (fst ?r))"
    "buf_inv b'" "buf_contents b' = snd ?r"
    using consume_eat [OF assms(1), of p] by blast
  moreover have "(buf_contents b \<noteq> [] \<and> final (fst ?r)) = final (fst ?r)"
    using assms(2) by auto
  ultimately show ?thesis
    using consume_buffer_limit [OF b'(1)] by (simp add: entry)
qed

text \<open>A parser that has been fed \<open>seen\<close> goes on as if the bytes had come at once.\<close>

lemma eat_resume:
  assumes "\<not> final (foldl feed p seen)"
  shows "eat feed final p (seen @ bs) = eat feed final (foldl feed p seen) bs"
proof -
  have "\<not> final p" using assms eat_final_absorbs by metis
  then show ?thesis
    using eat_append [of final p feed seen bs] assms eat_foldl [of p seen]
    by (auto split: prod.splits)
qed

lemma entry_resume:
  assumes "buf_inv b" and "\<not> final (foldl feed p seen)"
  defines "r \<equiv> eat feed final p (seen @ buf_contents b)"
  shows "\<exists>b'. entry (foldl feed p seen) b e = Some (fst r, b', final (fst r), if final (fst r) then failed (fst r) else e)
     \<and> buf_inv b' \<and> buf_contents b' = snd r \<and> b_limit b' = b_limit b"
  unfolding r_def eat_resume [OF assms(2)] by (rule entry_eat [OF assms(1,2)])

text \<open>Whatever the state of the parser, the entry point returns; the buffer stays well formed and
  every invariant of the parser is kept.\<close>

lemma entry_total:
  assumes "buf_inv b" and "P p" and feed: "\<And>p c. P p \<Longrightarrow> P (feed p c)"
  shows "\<exists>p' b' fin err. entry p b e = Some (p', b', fin, err) \<and> buf_inv b' \<and> b_limit b' = b_limit b \<and> P p'"
proof -
  let ?r = "eat feed final p (buf_contents b)"
  have "P (foldl feed p bs)" for bs
    using assms(2) by (induction bs arbitrary: p) (simp_all add: feed)
  then have "P (fst ?r)" by (simp add: eat_foldl)
  moreover obtain b' where b': "consume_buffer feed final p b =
      Some (fst ?r, b', buf_contents b \<noteq> [] \<and> final (fst ?r))" "buf_inv b'"
    using consume_eat [OF assms(1), of p] by blast
  ultimately show ?thesis
    using consume_buffer_limit [OF b'(1)] by (simp add: entry)
qed

lemma deliver_eat:
  assumes "buf_inv b" "buf_contents b = []" "chunks_ok b cs" "\<not> final p"
  defines "r \<equiv> eat feed final p (concat cs)"
  shows "\<exists>b' n. deliver entry p b cs =
       Some (fst r, b', final (fst r), final (fst r) \<and> failed (fst r))
     \<and> buf_contents b' @ concat (drop n cs) = snd r"
  using assms(1-4) unfolding r_def
proof (induction cs arbitrary: p b)
  case Nil
  then show ?case by simp
next
  case (Cons c cs)
  have "length c \<le> buf_room b" "c \<noteq> []"
    using Cons.prems by (auto simp: chunks_ok_def buf_defs)
  then obtain b1 where b1: "buffer_write_adv (buffer_poke b (b_write b) c) (int (length c)) = Some b1"
    "buf_inv b1" "buf_contents b1 = c" "b_limit b1 = b_limit b"
    using buf_poke_adv [OF Cons.prems(1), of c] Cons.prems(2) by auto
  let ?r = "eat feed final p c"
  obtain b2 where b2: "entry p b1 False = Some (fst ?r, b2, final (fst ?r), final (fst ?r) \<and> failed (fst ?r))"
    "buf_inv b2" "buf_contents b2 = snd ?r" "b_limit b2 = b_limit b"
    using entry_eat [OF b1(2) Cons.prems(4), of False] b1(3,4) by auto
  have split: "eat feed final p (concat (c # cs)) =
      (if final (fst ?r) then (fst ?r, snd ?r @ concat cs) else eat feed final (fst ?r) (concat cs))"
    using eat_append [of final p feed c "concat cs"] Cons.prems(4) by (simp split: prod.split)
  show ?case
  proof (cases "final (fst ?r)")
    case True
    with b1(1) b2 split show ?thesis by (auto intro: exI [of _ 1])
  next
    case False
    then have "buf_contents b2 = []" by (simp add: b2(3) eat_rest_Nil)
    moreover have "chunks_ok b2 cs" using Cons.prems(3) b2(4) by (simp add: chunks_ok_def)
    ultimately obtain b' n where "deliver entry (fst ?r) b2 cs =
        Some (fst (eat feed final (fst ?r) (concat cs)), b', final (fst (eat feed final (fst ?r) (concat cs))),
          final (fst (eat feed final (fst ?r) (concat cs))) \<and> failed (fst (eat feed final (fst ?r) (concat cs))))"
      "buf_contents b' @ concat (drop n cs) = snd (eat feed final (fst ?r) (concat cs))"
      using Cons.IH [OF b2(2) _ _ False] by blast
    with b1(1) b2(1) False split show ?thesis by (auto intro: exI [of _ "Suc n"])
  qed
qed

end

end
