(* ===== verification/Socks5_Parsers.thy ===== *)
theory Socks5_Parsers
  imports Incremental
begin

text \<open>
  \<open>src/socks5_parsers.h\<close>, \<open>src/socks5_parsers.c\<close>: the byte-at-a-time parsers for the greeting
  (RFC 1928), the user/password sub-negotiation (RFC 1929) and the request. Each parser is an
  interpretation of \<open>incremental_parser\<close>, and each is shown equivalent to a reference that reads
  the whole message: what the incremental parser accepts is exactly the message format, it keeps
  exactly the fields of the message, and it takes no byte beyond its end.
\<close>

section \<open>Protocol constants\<close>

definition SOCKS5_METHOD_NO_AUTH :: byte where "SOCKS5_METHOD_NO_AUTH = 0x00"
definition SOCKS5_METHOD_USERPASS :: byte where "SOCKS5_METHOD_USERPASS = 0x02"
definition SOCKS5_METHOD_NONE :: byte where "SOCKS5_METHOD_NONE = 0xFF"

definition SOCKS5_CMD_CONNECT :: byte where "SOCKS5_CMD_CONNECT = 0x01"

definition SOCKS5_ATYP_IPV4 :: byte where "SOCKS5_ATYP_IPV4 = 0x01"
definition SOCKS5_ATYP_DOMAIN :: byte where "SOCKS5_ATYP_DOMAIN = 0x03"
definition SOCKS5_ATYP_IPV6 :: byte where "SOCKS5_ATYP_IPV6 = 0x04"

definition SOCKS5_REP_SUCCESS :: byte where "SOCKS5_REP_SUCCESS = 0x00"
definition SOCKS5_REP_GENERAL_FAILURE :: byte where "SOCKS5_REP_GENERAL_FAILURE = 0x01"
definition SOCKS5_REP_NOT_ALLOWED :: byte where "SOCKS5_REP_NOT_ALLOWED = 0x02"
definition SOCKS5_REP_NETWORK_UNREACHABLE :: byte where "SOCKS5_REP_NETWORK_UNREACHABLE = 0x03"
definition SOCKS5_REP_HOST_UNREACHABLE :: byte where "SOCKS5_REP_HOST_UNREACHABLE = 0x04"
definition SOCKS5_REP_CONNECTION_REFUSED :: byte where "SOCKS5_REP_CONNECTION_REFUSED = 0x05"
definition SOCKS5_REP_TTL_EXPIRED :: byte where "SOCKS5_REP_TTL_EXPIRED = 0x06"
definition SOCKS5_REP_COMMAND_NOT_SUPPORTED :: byte where "SOCKS5_REP_COMMAND_NOT_SUPPORTED = 0x07"
definition SOCKS5_REP_ATYP_NOT_SUPPORTED :: byte where "SOCKS5_REP_ATYP_NOT_SUPPORTED = 0x08"

lemmas method_defs = SOCKS5_METHOD_NO_AUTH_def SOCKS5_METHOD_USERPASS_def SOCKS5_METHOD_NONE_def

lemmas atyp_defs = SOCKS5_ATYP_IPV4_def SOCKS5_ATYP_DOMAIN_def SOCKS5_ATYP_IPV6_def

lemmas rep_defs = SOCKS5_REP_SUCCESS_def SOCKS5_REP_GENERAL_FAILURE_def SOCKS5_REP_NOT_ALLOWED_def
  SOCKS5_REP_NETWORK_UNREACHABLE_def SOCKS5_REP_HOST_UNREACHABLE_def
  SOCKS5_REP_CONNECTION_REFUSED_def SOCKS5_REP_TTL_EXPIRED_def
  SOCKS5_REP_COMMAND_NOT_SUPPORTED_def SOCKS5_REP_ATYP_NOT_SUPPORTED_def

section \<open>Greeting\<close>

datatype hello_state = HELLO_VERSION | HELLO_NMETHODS | HELLO_METHODS | HELLO_DONE | HELLO_ERROR

record hello_parser =
  hp_state :: hello_state
  hp_remaining :: byte
  has_noauth :: bool
  has_userpass :: bool

definition hello_parser_init :: hello_parser where
  "hello_parser_init = \<lparr>hp_state = HELLO_VERSION, hp_remaining = 0, has_noauth = False,
     has_userpass = False\<rparr>"

definition hello_parser_feed :: "hello_parser \<Rightarrow> byte \<Rightarrow> hello_parser" where
  "hello_parser_feed p b =
     (case hp_state p of
        HELLO_VERSION \<Rightarrow> p\<lparr>hp_state := (if b = 0x05 then HELLO_NMETHODS else HELLO_ERROR)\<rparr>
      | HELLO_NMETHODS \<Rightarrow>
          p\<lparr>hp_remaining := b, hp_state := (if b = 0 then HELLO_DONE else HELLO_METHODS)\<rparr>
      | HELLO_METHODS \<Rightarrow>
          let p = (if b = SOCKS5_METHOD_NO_AUTH then p\<lparr>has_noauth := True\<rparr> else p);
              p = (if b = SOCKS5_METHOD_USERPASS then p\<lparr>has_userpass := True\<rparr> else p);
              p = p\<lparr>hp_remaining := hp_remaining p - 1\<rparr>
          in if hp_remaining p = 0 then p\<lparr>hp_state := HELLO_DONE\<rparr> else p
      | HELLO_DONE \<Rightarrow> p
      | HELLO_ERROR \<Rightarrow> p)"

definition hello_final :: "hello_parser \<Rightarrow> bool" where
  "hello_final p \<longleftrightarrow> hp_state p = HELLO_DONE \<or> hp_state p = HELLO_ERROR"

text \<open>
  The result is the parser, the buffer, the return value and \<open>*error\<close>; the latter is written only
  when the function returns true, so the caller's value of it is an argument.
\<close>

definition hello_parser_consume ::
    "hello_parser \<Rightarrow> buffer \<Rightarrow> bool \<Rightarrow> (hello_parser \<times> buffer \<times> bool \<times> bool) option" where
  "hello_parser_consume p buf error =
     map_option (\<lambda>(p, buf, fin). (p, buf, fin, if fin then hp_state p = HELLO_ERROR else error))
       (consume_buffer hello_parser_feed hello_final p buf)"

section \<open>User/password sub-negotiation\<close>

datatype auth_state = AUTH_VERSION | AUTH_ULEN | AUTH_UNAME | AUTH_PLEN | AUTH_PASSWD
  | AUTH_DONE | AUTH_ERROR

record auth_parser =
  ap_state :: auth_state
  ap_ulen :: byte
  ap_plen :: byte
  ap_idx :: byte
  ap_username :: "byte list"
  ap_password :: "byte list"

definition auth_parser_init :: "auth_parser \<Rightarrow> auth_parser" where
  "auth_parser_init p = p\<lparr>ap_state := AUTH_VERSION, ap_ulen := 0, ap_plen := 0, ap_idx := 0,
     ap_username := (ap_username p)[0 := 0], ap_password := (ap_password p)[0 := 0]\<rparr>"

definition auth_parser_feed :: "auth_parser \<Rightarrow> byte \<Rightarrow> auth_parser" where
  "auth_parser_feed p b =
     (case ap_state p of
        AUTH_VERSION \<Rightarrow> p\<lparr>ap_state := (if b = 0x01 then AUTH_ULEN else AUTH_ERROR)\<rparr>
      | AUTH_ULEN \<Rightarrow>
          p\<lparr>ap_ulen := b, ap_idx := 0, ap_state := (if b = 0 then AUTH_ERROR else AUTH_UNAME)\<rparr>
      | AUTH_UNAME \<Rightarrow>
          let p = p\<lparr>ap_username := (ap_username p)[unat (ap_idx p) := b], ap_idx := ap_idx p + 1\<rparr>
          in if ap_idx p = ap_ulen p
             then p\<lparr>ap_username := (ap_username p)[unat (ap_idx p) := 0], ap_state := AUTH_PLEN\<rparr>
             else p
      | AUTH_PLEN \<Rightarrow>
          p\<lparr>ap_plen := b, ap_idx := 0, ap_state := (if b = 0 then AUTH_ERROR else AUTH_PASSWD)\<rparr>
      | AUTH_PASSWD \<Rightarrow>
          let p = p\<lparr>ap_password := (ap_password p)[unat (ap_idx p) := b], ap_idx := ap_idx p + 1\<rparr>
          in if ap_idx p = ap_plen p
             then p\<lparr>ap_password := (ap_password p)[unat (ap_idx p) := 0], ap_state := AUTH_DONE\<rparr>
             else p
      | AUTH_DONE \<Rightarrow> p
      | AUTH_ERROR \<Rightarrow> p)"

definition auth_final :: "auth_parser \<Rightarrow> bool" where
  "auth_final p \<longleftrightarrow> ap_state p = AUTH_DONE \<or> ap_state p = AUTH_ERROR"

definition auth_parser_consume ::
    "auth_parser \<Rightarrow> buffer \<Rightarrow> bool \<Rightarrow> (auth_parser \<times> buffer \<times> bool \<times> bool) option" where
  "auth_parser_consume p buf error =
     map_option (\<lambda>(p, buf, fin). (p, buf, fin, if fin then ap_state p = AUTH_ERROR else error))
       (consume_buffer auth_parser_feed auth_final p buf)"

section \<open>Request\<close>

datatype request_state = REQ_VERSION | REQ_CMD | REQ_RSV | REQ_ATYP | REQ_DADDR_IPV4
  | REQ_DADDR_DOMAIN_LEN | REQ_DADDR_DOMAIN | REQ_DADDR_IPV6 | REQ_DPORT | REQ_DONE | REQ_ERROR

record request_parser =
  rp_state :: request_state
  rp_cmd :: byte
  rp_atyp :: byte
  rp_addr_len :: byte
  rp_idx :: byte
  rp_addr :: "byte list"
  rp_port :: u16
  rp_port_idx :: byte

definition request_parser_init :: "request_parser \<Rightarrow> request_parser" where
  "request_parser_init p = p\<lparr>rp_state := REQ_VERSION, rp_cmd := 0, rp_atyp := 0, rp_addr_len := 0,
     rp_idx := 0, rp_port := 0, rp_port_idx := 0\<rparr>"

definition request_parser_feed :: "request_parser \<Rightarrow> byte \<Rightarrow> request_parser" where
  "request_parser_feed p b =
     (case rp_state p of
        REQ_VERSION \<Rightarrow> p\<lparr>rp_state := (if b = 0x05 then REQ_CMD else REQ_ERROR)\<rparr>
      | REQ_CMD \<Rightarrow> p\<lparr>rp_cmd := b, rp_state := REQ_RSV\<rparr>
      | REQ_RSV \<Rightarrow> p\<lparr>rp_state := (if b = 0x00 then REQ_ATYP else REQ_ERROR)\<rparr>
      | REQ_ATYP \<Rightarrow>
          let p = p\<lparr>rp_atyp := b, rp_idx := 0\<rparr>
          in if b = SOCKS5_ATYP_IPV4 then p\<lparr>rp_addr_len := 4, rp_state := REQ_DADDR_IPV4\<rparr>
             else if b = SOCKS5_ATYP_IPV6 then p\<lparr>rp_addr_len := 16, rp_state := REQ_DADDR_IPV6\<rparr>
             else if b = SOCKS5_ATYP_DOMAIN then p\<lparr>rp_state := REQ_DADDR_DOMAIN_LEN\<rparr>
             else p\<lparr>rp_state := REQ_ERROR\<rparr>
      | REQ_DADDR_IPV4 \<Rightarrow>
          let p = p\<lparr>rp_addr := (rp_addr p)[unat (rp_idx p) := b], rp_idx := rp_idx p + 1\<rparr>
          in if rp_idx p = 4 then p\<lparr>rp_port_idx := 0, rp_state := REQ_DPORT\<rparr> else p
      | REQ_DADDR_DOMAIN_LEN \<Rightarrow>
          p\<lparr>rp_addr_len := b, rp_idx := 0,
            rp_state := (if b = 0 then REQ_ERROR else REQ_DADDR_DOMAIN)\<rparr>
      | REQ_DADDR_DOMAIN \<Rightarrow>
          let p = p\<lparr>rp_addr := (rp_addr p)[unat (rp_idx p) := b], rp_idx := rp_idx p + 1\<rparr>
          in if rp_idx p = rp_addr_len p
             then p\<lparr>rp_addr := (rp_addr p)[unat (rp_idx p) := 0], rp_port_idx := 0,
                    rp_state := REQ_DPORT\<rparr>
             else p
      | REQ_DADDR_IPV6 \<Rightarrow>
          let p = p\<lparr>rp_addr := (rp_addr p)[unat (rp_idx p) := b], rp_idx := rp_idx p + 1\<rparr>
          in if rp_idx p = 16 then p\<lparr>rp_port_idx := 0, rp_state := REQ_DPORT\<rparr> else p
      | REQ_DPORT \<Rightarrow>
          let p = p\<lparr>rp_port := push_bit 8 (rp_port p) OR ucast b, rp_port_idx := rp_port_idx p + 1\<rparr>
          in if rp_port_idx p = 2 then p\<lparr>rp_state := REQ_DONE\<rparr> else p
      | REQ_DONE \<Rightarrow> p
      | REQ_ERROR \<Rightarrow> p)"

definition request_final :: "request_parser \<Rightarrow> bool" where
  "request_final p \<longleftrightarrow> rp_state p = REQ_DONE \<or> rp_state p = REQ_ERROR"

definition request_parser_consume ::
    "request_parser \<Rightarrow> buffer \<Rightarrow> bool \<Rightarrow> (request_parser \<times> buffer \<times> bool \<times> bool) option" where
  "request_parser_consume p buf error =
     map_option (\<lambda>(p, buf, fin). (p, buf, fin, if fin then rp_state p = REQ_ERROR else error))
       (consume_buffer request_parser_feed request_final p buf)"

section \<open>The three parsers as incremental parsers\<close>

interpretation hello: buffered_parser hello_parser_feed hello_final
  "\<lambda>p. hp_state p = HELLO_ERROR" hello_parser_consume
proof
  show "hello_parser_feed p b = p" if "hello_final p" for p b
    using that by (auto simp: hello_final_def hello_parser_feed_def)
qed (rule consume_buffer_unfold, rule hello_parser_consume_def)

interpretation auth: buffered_parser auth_parser_feed auth_final
  "\<lambda>p. ap_state p = AUTH_ERROR" auth_parser_consume
proof
  show "auth_parser_feed p b = p" if "auth_final p" for p b
    using that by (auto simp: auth_final_def auth_parser_feed_def)
qed (rule consume_buffer_unfold, rule auth_parser_consume_def)

interpretation request: buffered_parser request_parser_feed request_final
  "\<lambda>p. rp_state p = REQ_ERROR" request_parser_consume
proof
  show "request_parser_feed p b = p" if "request_final p" for p b
    using that by (auto simp: request_final_def request_parser_feed_def)
qed (rule consume_buffer_unfold, rule request_parser_consume_def)


section \<open>References that read whole messages\<close>

datatype 'm verdict = Incomplete | Malformed | Accepted 'm "byte list"

text \<open>RFC 1928 section 3: version, number of methods, methods.\<close>

fun hello_message :: "byte list \<Rightarrow> (bool \<times> bool) verdict" where
  "hello_message [] = Incomplete"
| "hello_message (v # bs) =
     (if v \<noteq> 5 then Malformed
      else case bs of
        [] \<Rightarrow> Incomplete
      | n # bs \<Rightarrow>
          if length bs < unat n then Incomplete
          else Accepted (0 \<in> set (take (unat n) bs), 2 \<in> set (take (unat n) bs))
            (drop (unat n) bs))"

definition hello_verdict :: "hello_parser \<times> byte list \<Rightarrow> (bool \<times> bool) verdict" where
  "hello_verdict r =
     (case hp_state (fst r) of
        HELLO_DONE \<Rightarrow> Accepted (has_noauth (fst r), has_userpass (fst r)) (snd r)
      | HELLO_ERROR \<Rightarrow> Malformed
      | _ \<Rightarrow> Incomplete)"

lemma hello_methods_run:
  assumes "hp_state p = HELLO_METHODS" and "hp_remaining p \<noteq> 0"
  shows "hello_verdict (eat hello_parser_feed hello_final p bs) =
    (if length bs < unat (hp_remaining p) then Incomplete
     else Accepted (has_noauth p \<or> 0 \<in> set (take (unat (hp_remaining p)) bs),
                    has_userpass p \<or> 2 \<in> set (take (unat (hp_remaining p)) bs))
       (drop (unat (hp_remaining p)) bs))"
  using assms
proof (induction bs arbitrary: p)
  case Nil
  then show ?case by (simp add: hello_verdict_def unat_gt_0)
next
  case (Cons b bs)
  obtain n where n: "unat (hp_remaining p) = Suc n"
    using Cons.prems(2) by (metis not0_implies_Suc unat_eq_zero)
  have pred: "unat (hp_remaining p - 1) = n"
    using Cons.prems(2) n by (simp add: unat_byte_pred)
  show ?case
  proof (cases "n = 0")
    case True
    then have "hp_remaining p - 1 = 0" using pred by (simp add: unat_eq_zero)
    then show ?thesis
      using Cons.prems n True
      by (auto simp: hello_parser_feed_def Let_def hello_final_def hello_verdict_def method_defs)
  next
    case False
    let ?p = "hello_parser_feed p b"
    have p': "hp_state ?p = HELLO_METHODS" "hp_remaining ?p = hp_remaining p - 1"
      "has_noauth ?p \<longleftrightarrow> has_noauth p \<or> b = 0" "has_userpass ?p \<longleftrightarrow> has_userpass p \<or> b = 2"
      using Cons.prems(1) False pred
      by (auto simp: hello_parser_feed_def Let_def method_defs)
    have "hp_remaining ?p \<noteq> 0" using False pred p'(2) by auto
    from Cons.IH [OF p'(1) this] p' pred n show ?thesis
      by (auto simp: Let_def hello_final_def)
  qed
qed

lemma hello_eat_message:
  "hello_verdict (eat hello_parser_feed hello_final hello_parser_init bs) = hello_message bs"
proof (cases bs)
  case Nil
  then show ?thesis by (simp add: hello_verdict_def hello_parser_init_def)
next
  case (Cons v ms)
  then show ?thesis
  proof (cases ms)
    case (Cons n ns)
    with \<open>bs = v # ms\<close> show ?thesis
      by (cases "n = 0")
        (simp_all add: hello_parser_init_def hello_parser_feed_def hello_final_def Let_def
          hello_methods_run, simp_all add: hello_verdict_def)
  qed (simp add: hello_parser_init_def hello_parser_feed_def hello_final_def Let_def
      hello_verdict_def)
qed

text \<open>RFC 1929 section 2: version, length, user name, length, password; neither may be empty.\<close>

fun auth_message :: "byte list \<Rightarrow> (byte list \<times> byte list) verdict" where
  "auth_message [] = Incomplete"
| "auth_message (v # bs) =
     (if v \<noteq> 1 then Malformed
      else case bs of
        [] \<Rightarrow> Incomplete
      | ulen # bs \<Rightarrow>
          if ulen = 0 then Malformed
          else case drop (unat ulen) bs of
            [] \<Rightarrow> Incomplete
          | plen # cs \<Rightarrow>
              if plen = 0 then Malformed
              else if length cs < unat plen then Incomplete
              else Accepted (take (unat ulen) bs, take (unat plen) cs) (drop (unat plen) cs))"

text \<open>
  What the code takes from the parser: the two arrays. They hold the fields followed by a NUL,
  at the position the length says.
\<close>

definition field_of :: "byte list \<Rightarrow> byte \<Rightarrow> byte list option" where
  "field_of arr n = (if arr ! unat n = 0 then Some (take (unat n) arr) else None)"

definition auth_verdict ::
    "auth_parser \<times> byte list \<Rightarrow> (byte list option \<times> byte list option) verdict" where
  "auth_verdict r =
     (case ap_state (fst r) of
        AUTH_DONE \<Rightarrow> Accepted (field_of (ap_username (fst r)) (ap_ulen (fst r)),
          field_of (ap_password (fst r)) (ap_plen (fst r))) (snd r)
      | AUTH_ERROR \<Rightarrow> Malformed
      | _ \<Rightarrow> Incomplete)"

definition auth_arrays :: "auth_parser \<Rightarrow> bool" where
  "auth_arrays p \<longleftrightarrow> length (ap_username p) = 256 \<and> length (ap_password p) = 256"

lemma auth_arrays_feed [intro]: "auth_arrays p \<Longrightarrow> auth_arrays (auth_parser_feed p b)"
  by (auto simp: auth_arrays_def auth_parser_feed_def Let_def split: auth_state.splits)

text \<open>The array of a finished field.\<close>

lemma field_of_filled:
  "length xs = unat n \<Longrightarrow> length arr = 256 \<Longrightarrow>
     field_of ((memcpy_at arr 0 xs)[unat n := 0]) n = Some xs"
  using unat_byte_lt [of n] nul_after_memcpy [of xs "unat n" arr 0]
  by (simp add: field_of_def del: take_update_cancel)

lemma filled_array:
  fixes n :: byte
  assumes "\<not> length bs < unat n" and "length arr = 256"
  shows "field_of ((memcpy_at arr 0 (take (unat n) bs))[unat n := 0]) n = Some (take (unat n) bs)"
    and "length (memcpy_at arr 0 (take (unat n) bs)) = 256"
    and "take (unat n) (memcpy_at arr 0 (take (unat n) bs)) = take (unat n) bs"
  using assms unat_byte_lt [of n] by (simp_all add: field_of_filled, simp_all add: memcpy_at_0)

fun map_verdict :: "('a \<Rightarrow> 'b) \<Rightarrow> 'a verdict \<Rightarrow> 'b verdict" where
  "map_verdict f (Accepted m rest) = Accepted (f m) rest"
| "map_verdict f Incomplete = Incomplete"
| "map_verdict f Malformed = Malformed"

lemma index_byte_simps:
  fixes n :: byte
  assumes "Suc k \<le> unat n"
  shows "unat (of_nat k :: byte) = k" and "of_nat k + 1 = n \<longleftrightarrow> Suc k = unat n"
proof -
  have "Suc k < 256" using assms unat_byte_lt [of n] by linarith
  then show "unat (of_nat k :: byte) = k" and "of_nat k + 1 = n \<longleftrightarrow> Suc k = unat n"
    by (simp_all add: unat_of_nat_byte of_nat_byte_Suc_eq_iff)
qed

lemma auth_uname_run:
  assumes p: "ap_state p = AUTH_UNAME" "ap_idx p = 0" "auth_arrays p" and n: "ap_ulen p \<noteq> 0"
  defines "k \<equiv> unat (ap_ulen p)" and "u \<equiv> ap_username p"
  shows "eat auth_parser_feed auth_final p bs =
    (if length bs < k then (p\<lparr>ap_username := memcpy_at u 0 bs, ap_idx := of_nat (length bs)\<rparr>, [])
     else eat auth_parser_feed auth_final
       (p\<lparr>ap_username := (memcpy_at u 0 (take k bs))[k := 0], ap_idx := ap_ulen p,
          ap_state := AUTH_PLEN\<rparr>) (drop k bs))"
proof -
  let ?S = "\<lambda>xs. p\<lparr>ap_username := memcpy_at u 0 xs, ap_idx := of_nat (length xs)\<rparr>"
  let ?T = "\<lambda>xs. p\<lparr>ap_username := (memcpy_at u 0 xs)[k := 0], ap_idx := ap_ulen p, ap_state := AUTH_PLEN\<rparr>"
  have k: "0 < k" "k < 256" and u: "length u = 256"
    using n p(3) unat_byte_lt [of "ap_ulen p"] by (simp_all add: k_def u_def auth_arrays_def unat_gt_0)
  have S0: "?S [] = p" using p(2) by (cases p) (simp add: u_def)
  have "eat auth_parser_feed auth_final (?S []) bs =
    (if length bs < k - length ([] :: byte list) then (?S ([] @ bs), [])
     else let fld = [] @ take (k - length ([] :: byte list)) bs;
              rest = drop (k - length ([] :: byte list)) bs
          in if auth_final (?T fld) then (?T fld, rest) else eat auth_parser_feed auth_final (?T fld) rest)"
  proof (rule eat_field)
    fix xs :: "byte list" and b
    have lt: "length xs < length u" if "Suc (length xs) \<le> k" using that k(2) u by simp
    show "auth_parser_feed (?S xs) b = ?S (xs @ [b])" if "Suc (length xs) < k"
      using that p(1) lt index_byte_simps [of "length xs" "ap_ulen p"]
      by (cases p) (simp add: auth_parser_feed_def Let_def memcpy_at_snoc k_def add.commute)
    show "auth_parser_feed (?S xs) b = ?T (xs @ [b])" if "Suc (length xs) = k"
      using that p(1) lt index_byte_simps [of "length xs" "ap_ulen p"]
      by (cases p) (simp add: auth_parser_feed_def Let_def memcpy_at_snoc k_def)
  qed (use p(1) k in \<open>simp_all add: auth_final_def\<close>)
  then show ?thesis by (simp only: S0) (simp add: Let_def auth_final_def)
qed

lemma auth_passwd_run:
  assumes p: "ap_state p = AUTH_PASSWD" "ap_idx p = 0" "auth_arrays p" and n: "ap_plen p \<noteq> 0"
  defines "k \<equiv> unat (ap_plen p)" and "u \<equiv> ap_password p"
  shows "eat auth_parser_feed auth_final p bs =
    (if length bs < k then (p\<lparr>ap_password := memcpy_at u 0 bs, ap_idx := of_nat (length bs)\<rparr>, [])
     else (p\<lparr>ap_password := (memcpy_at u 0 (take k bs))[k := 0], ap_idx := ap_plen p,
          ap_state := AUTH_DONE\<rparr>, drop k bs))"
proof -
  let ?S = "\<lambda>xs. p\<lparr>ap_password := memcpy_at u 0 xs, ap_idx := of_nat (length xs)\<rparr>"
  let ?T = "\<lambda>xs. p\<lparr>ap_password := (memcpy_at u 0 xs)[k := 0], ap_idx := ap_plen p, ap_state := AUTH_DONE\<rparr>"
  have k: "0 < k" "k < 256" and u: "length u = 256"
    using n p(3) unat_byte_lt [of "ap_plen p"] by (simp_all add: k_def u_def auth_arrays_def unat_gt_0)
  have S0: "?S [] = p" using p(2) by (cases p) (simp add: u_def)
  have "eat auth_parser_feed auth_final (?S []) bs =
    (if length bs < k - length ([] :: byte list) then (?S ([] @ bs), [])
     else let fld = [] @ take (k - length ([] :: byte list)) bs;
              rest = drop (k - length ([] :: byte list)) bs
          in if auth_final (?T fld) then (?T fld, rest) else eat auth_parser_feed auth_final (?T fld) rest)"
  proof (rule eat_field)
    fix xs :: "byte list" and b
    have lt: "length xs < length u" if "Suc (length xs) \<le> k" using that k(2) u by simp
    show "auth_parser_feed (?S xs) b = ?S (xs @ [b])" if "Suc (length xs) < k"
      using that p(1) lt index_byte_simps [of "length xs" "ap_plen p"]
      by (cases p) (simp add: auth_parser_feed_def Let_def memcpy_at_snoc k_def add.commute)
    show "auth_parser_feed (?S xs) b = ?T (xs @ [b])" if "Suc (length xs) = k"
      using that p(1) lt index_byte_simps [of "length xs" "ap_plen p"]
      by (cases p) (simp add: auth_parser_feed_def Let_def memcpy_at_snoc k_def)
  qed (use p(1) k in \<open>simp_all add: auth_final_def\<close>)
  then show ?thesis by (simp only: S0) (simp add: Let_def auth_final_def)
qed

text \<open>The password part, from the state in which the user name is complete.\<close>

lemma auth_plen_run:
  assumes p: "ap_state p = AUTH_PLEN" "auth_arrays p"
    and u: "field_of (ap_username p) (ap_ulen p) = Some u"
  shows "auth_verdict (eat auth_parser_feed auth_final p bs) =
    (case bs of
       [] \<Rightarrow> Incomplete
     | plen # cs \<Rightarrow>
         if plen = 0 then Malformed
         else if length cs < unat plen then Incomplete
         else Accepted (Some u, Some (take (unat plen) cs)) (drop (unat plen) cs))"
proof (cases bs)
  case Nil
  then show ?thesis using p by (simp add: auth_verdict_def)
next
  case (Cons plen cs)
  show ?thesis
  proof (cases "plen = 0")
    case True
    then show ?thesis
      using Cons p by (simp add: auth_parser_feed_def auth_final_def auth_verdict_def Let_def)
  next
    case False
    let ?p = "p\<lparr>ap_plen := plen, ap_idx := 0, ap_state := AUTH_PASSWD\<rparr>"
    have "eat auth_parser_feed auth_final p bs = eat auth_parser_feed auth_final ?p cs"
      using Cons False p(1) by (simp add: auth_parser_feed_def auth_final_def Let_def)
    then show ?thesis
      using auth_passwd_run [of ?p cs] Cons False p(2) u
      by (simp add: auth_arrays_def auth_verdict_def field_of_filled)
  qed
qed

lemma auth_eat_message:
  assumes "auth_arrays p"
  shows "auth_verdict (eat auth_parser_feed auth_final (auth_parser_init p) bs) =
    map_verdict (\<lambda>(u, w). (Some u, Some w)) (auth_message bs)"
proof -
  note run = auth_parser_init_def auth_parser_feed_def auth_final_def auth_verdict_def Let_def
  consider "bs = []" | (short) v where "bs = [v]" | (long) v ulen ns where "bs = v # ulen # ns"
    by (cases bs; cases "tl bs") auto
  then show ?thesis
  proof cases
    case long
    show ?thesis
    proof (cases "v = 1 \<and> ulen \<noteq> 0")
      case False
      with long show ?thesis by (auto simp: run)
    next
      case True
      let ?p = "auth_parser_feed (auth_parser_feed (auth_parser_init p) 1) ulen"
      let ?k = "unat ulen"
      let ?q = "?p\<lparr>ap_username := (memcpy_at (ap_username ?p) 0 (take ?k ns))[?k := 0],
        ap_idx := ulen, ap_state := AUTH_PLEN\<rparr>"
      have p: "ap_state ?p = AUTH_UNAME" "ap_idx ?p = 0" "auth_arrays ?p" "ap_ulen ?p = ulen"
        using True assms by (auto simp: run auth_arrays_def)
      have "eat auth_parser_feed auth_final (auth_parser_init p) bs =
          eat auth_parser_feed auth_final ?p ns"
        using long True by (simp add: run)
      also have "\<dots> = (if length ns < ?k
          then (?p\<lparr>ap_username := memcpy_at (ap_username ?p) 0 ns, ap_idx := of_nat (length ns)\<rparr>, [])
          else eat auth_parser_feed auth_final ?q (drop ?k ns))"
        using auth_uname_run [OF p(1-3), of ns] p(4) True by simp
      finally have run2: "eat auth_parser_feed auth_final (auth_parser_init p) bs = \<dots>" .
      show ?thesis
      proof (cases "length ns < ?k")
        case True
        with run2 long p(1) \<open>v = 1 \<and> ulen \<noteq> 0\<close> show ?thesis by (simp add: auth_verdict_def)
      next
        case False
        have "auth_verdict (eat auth_parser_feed auth_final ?q (drop ?k ns)) =
          (case drop ?k ns of
             [] \<Rightarrow> Incomplete
           | plen # cs \<Rightarrow>
               if plen = 0 then Malformed
               else if length cs < unat plen then Incomplete
               else Accepted (Some (take ?k ns), Some (take (unat plen) cs)) (drop (unat plen) cs))"
          using False p(3,4) by (intro auth_plen_run) (simp_all add: filled_array auth_arrays_def)
        with run2 False long True show ?thesis by (simp split: list.split)
      qed
    qed
  qed (auto simp: run)
qed

text \<open>RFC 1928 section 4: version, command, reserved, address type, address, port.\<close>

type_synonym request_fields = "byte \<times> byte \<times> byte list \<times> u16"

definition request_tail :: "byte \<Rightarrow> byte \<Rightarrow> nat \<Rightarrow> byte list \<Rightarrow> request_fields verdict" where
  "request_tail cmd atyp n bs =
     (case drop n bs of
        hi # lo # rest \<Rightarrow> Accepted (cmd, atyp, take n bs, be16 hi lo) rest
      | _ \<Rightarrow> Incomplete)"

fun request_message :: "byte list \<Rightarrow> request_fields verdict" where
  "request_message (v # cmd # rsv # atyp # bs) =
     (if v \<noteq> 5 \<or> rsv \<noteq> 0 then Malformed
      else if atyp = 1 then request_tail cmd atyp 4 bs
      else if atyp = 4 then request_tail cmd atyp 16 bs
      else if atyp = 3 then
        (case bs of
           [] \<Rightarrow> Incomplete
         | n # bs \<Rightarrow> if n = 0 then Malformed else request_tail cmd atyp (unat n) bs)
      else Malformed)"
| "request_message [] = Incomplete"
| "request_message [v] = (if v \<noteq> 5 then Malformed else Incomplete)"
| "request_message [v, cmd] = (if v \<noteq> 5 then Malformed else Incomplete)"
| "request_message [v, cmd, rsv] = (if v \<noteq> 5 \<or> rsv \<noteq> 0 then Malformed else Incomplete)"

text \<open>
  What \<open>process_request\<close> takes from the parser: four or sixteen address bytes, or the domain
  name, which is NUL-terminated in \<open>addr\<close>.
\<close>

definition request_addr :: "request_parser \<Rightarrow> byte list option" where
  "request_addr p =
     (if rp_atyp p = SOCKS5_ATYP_DOMAIN then field_of (rp_addr p) (rp_addr_len p)
      else Some (take (unat (rp_addr_len p)) (rp_addr p)))"

definition request_verdict ::
    "request_parser \<times> byte list \<Rightarrow> (byte \<times> byte \<times> byte list option \<times> u16) verdict" where
  "request_verdict r =
     (case rp_state (fst r) of
        REQ_DONE \<Rightarrow> Accepted (rp_cmd (fst r), rp_atyp (fst r), request_addr (fst r), rp_port (fst r))
          (snd r)
      | REQ_ERROR \<Rightarrow> Malformed
      | _ \<Rightarrow> Incomplete)"

lemma request_port_run:
  assumes "rp_state p = REQ_DPORT" and "rp_port p = 0" and "rp_port_idx p = 0"
  shows "request_verdict (eat request_parser_feed request_final p bs) =
    (case bs of
       hi # lo # rest \<Rightarrow> Accepted (rp_cmd p, rp_atyp p, request_addr p, be16 hi lo) rest
     | _ \<Rightarrow> Incomplete)"
  using assms
  by (cases bs; cases "tl bs")
    (auto simp: request_verdict_def request_parser_feed_def request_final_def request_addr_def
      Let_def shift_or_be16)

lemma request_addr_feed:
  assumes "rp_state p = st"
    and "st = REQ_DADDR_IPV4 \<and> n = 4 \<or> st = REQ_DADDR_IPV6 \<and> n = 16
      \<or> st = REQ_DADDR_DOMAIN \<and> n = rp_addr_len p"
  shows "request_parser_feed p b =
    (let a = (rp_addr p)[unat (rp_idx p) := b]
     in if rp_idx p + 1 = n
        then p\<lparr>rp_addr := (if st = REQ_DADDR_DOMAIN then a[unat n := 0] else a), rp_idx := n,
               rp_port_idx := 0, rp_state := REQ_DPORT\<rparr>
        else p\<lparr>rp_addr := a, rp_idx := rp_idx p + 1\<rparr>)"
  using assms(2,1)
  by (elim disjE conjE; cases p; simp add: request_parser_feed_def Let_def)

lemma request_addr_run:
  assumes p: "rp_state p = st" "rp_idx p = 0" "length (rp_addr p) = 256" and n: "n \<noteq> 0"
    and st: "st = REQ_DADDR_IPV4 \<and> n = 4 \<or> st = REQ_DADDR_IPV6 \<and> n = 16
      \<or> st = REQ_DADDR_DOMAIN \<and> n = rp_addr_len p"
  defines "k \<equiv> unat n" and "a \<equiv> rp_addr p"
  defines "fill \<equiv> \<lambda>xs. if st = REQ_DADDR_DOMAIN then (memcpy_at a 0 xs)[k := 0] else memcpy_at a 0 xs"
  shows "eat request_parser_feed request_final p bs =
    (if length bs < k then (p\<lparr>rp_addr := memcpy_at a 0 bs, rp_idx := of_nat (length bs)\<rparr>, [])
     else eat request_parser_feed request_final
       (p\<lparr>rp_addr := fill (take k bs), rp_idx := n, rp_port_idx := 0, rp_state := REQ_DPORT\<rparr>)
       (drop k bs))"
proof -
  let ?S = "\<lambda>xs. p\<lparr>rp_addr := memcpy_at a 0 xs, rp_idx := of_nat (length xs)\<rparr>"
  let ?T = "\<lambda>xs. p\<lparr>rp_addr := fill xs, rp_idx := n, rp_port_idx := 0, rp_state := REQ_DPORT\<rparr>"
  have k: "0 < k" "k < 256" and a: "length a = 256"
    using n p(3) unat_byte_lt [of n] by (simp_all add: k_def a_def unat_gt_0)
  have S0: "?S [] = p" using p(2) by (cases p) (simp add: a_def)
  have "eat request_parser_feed request_final (?S []) bs =
    (if length bs < k - length ([] :: byte list) then (?S ([] @ bs), [])
     else let fld = [] @ take (k - length ([] :: byte list)) bs;
              rest = drop (k - length ([] :: byte list)) bs
          in if request_final (?T fld) then (?T fld, rest)
             else eat request_parser_feed request_final (?T fld) rest)"
  proof (rule eat_field)
    fix xs :: "byte list" and b
    have lt: "length xs < length a" if "Suc (length xs) \<le> k" using that k(2) a by simp
    show "request_parser_feed (?S xs) b = ?S (xs @ [b])" if "Suc (length xs) < k"
      using that p(1) st lt index_byte_simps [of "length xs" n]
      by (subst request_addr_feed [of _ st n])
        (simp_all add: Let_def memcpy_at_snoc k_def add.commute)
    show "request_parser_feed (?S xs) b = ?T (xs @ [b])" if "Suc (length xs) = k"
      using that p(1) st lt index_byte_simps [of "length xs" n]
      by (subst request_addr_feed [of _ st n])
        (simp_all add: Let_def memcpy_at_snoc k_def fill_def)
    show "\<not> request_final (?S xs)"
      using p(1) st by (auto simp: request_final_def)
  qed (use k in simp)
  then show ?thesis by (simp only: S0) (simp add: Let_def request_final_def)
qed

text \<open>Address and port together, for the three address types.\<close>

lemma request_dst_run:
  assumes p: "rp_state p = st" "rp_idx p = 0" "length (rp_addr p) = 256" "rp_port p = 0"
    and n: "n \<noteq> 0" "rp_addr_len p = n"
    and st: "st = REQ_DADDR_IPV4 \<and> n = 4 \<and> rp_atyp p = 1 \<or> st = REQ_DADDR_IPV6 \<and> n = 16 \<and> rp_atyp p = 4
      \<or> st = REQ_DADDR_DOMAIN \<and> rp_atyp p = 3"
  shows "request_verdict (eat request_parser_feed request_final p bs) =
    map_verdict (\<lambda>(c, t, a, port). (c, t, Some a, port))
      (request_tail (rp_cmd p) (rp_atyp p) (unat n) bs)"
proof -
  let ?k = "unat n"
  let ?a = "memcpy_at (rp_addr p) 0 (take ?k bs)"
  let ?q = "p\<lparr>rp_addr := (if st = REQ_DADDR_DOMAIN then ?a[?k := 0] else ?a), rp_idx := n,
    rp_port_idx := 0, rp_state := REQ_DPORT\<rparr>"
  have run: "eat request_parser_feed request_final p bs =
    (if length bs < ?k then (p\<lparr>rp_addr := memcpy_at (rp_addr p) 0 bs, rp_idx := of_nat (length bs)\<rparr>, [])
     else eat request_parser_feed request_final ?q (drop ?k bs))"
    using request_addr_run [OF p(1-3) n(1), of bs] st n(2) by auto
  show ?thesis
  proof (cases "length bs < ?k")
    case True
    with run p(1) st show ?thesis
      by (auto simp: request_verdict_def request_tail_def)
  next
    case False
    have "request_addr ?q = Some (take ?k bs)"
      using filled_array [OF False p(3)] st n(2) by (auto simp: request_addr_def atyp_defs)
    with False run p(4) show ?thesis
      by (auto simp: request_port_run request_tail_def split: list.split)
  qed
qed

lemma request_eat_message:
  assumes "length (rp_addr p) = 256"
  shows "request_verdict (eat request_parser_feed request_final (request_parser_init p) bs) =
    map_verdict (\<lambda>(c, t, a, port). (c, t, Some a, port)) (request_message bs)"
proof -
  note run = request_parser_init_def request_parser_feed_def request_final_def Let_def
  show ?thesis
  proof (cases bs rule: request_message.cases)
    case (1 v cmd rsv atyp ds)
    let ?p = "request_parser_feed (request_parser_feed (request_parser_feed
      (request_parser_feed (request_parser_init p) 5) cmd) 0) atyp"
    have start: "eat request_parser_feed request_final (request_parser_init p) bs =
        (if request_final ?p then (?p, ds) else eat request_parser_feed request_final ?p ds)"
      if "v = 5" "rsv = 0" using 1 that by (simp add: run atyp_defs)
    have bad: "v \<noteq> 5 \<or> rsv \<noteq> 0 \<Longrightarrow> ?thesis"
      using 1 by (auto simp: run request_verdict_def)
    have fields: "rp_idx ?p = 0" "length (rp_addr ?p) = 256" "rp_port ?p = 0" "rp_cmd ?p = cmd"
      "rp_atyp ?p = atyp"
      using assms by (simp_all add: run)
    consider "v \<noteq> 5 \<or> rsv \<noteq> 0" | (ip) "v = 5" "rsv = 0" "atyp = 1 \<or> atyp = 4"
      | (domain) "v = 5" "rsv = 0" "atyp = 3" | (other) "v = 5" "rsv = 0" "atyp \<notin> {1, 3, 4}"
      by blast
    then show ?thesis
    proof cases
      case ip
      then have "rp_state ?p = (if atyp = 1 then REQ_DADDR_IPV4 else REQ_DADDR_IPV6)"
        "rp_addr_len ?p = (if atyp = 1 then 4 else 16)"
        by (auto simp: run atyp_defs)
      with request_dst_run [OF this(1) fields(1-3) _ this(2), of ds] start fields ip 1
      show ?thesis by (auto simp: request_final_def)
    next
      case domain
      then have st: "rp_state ?p = REQ_DADDR_DOMAIN_LEN" by (simp add: run atyp_defs)
      show ?thesis
      proof (cases ds)
        case Nil
        with st start domain 1 show ?thesis by (simp add: request_final_def request_verdict_def)
      next
        case (Cons n es)
        let ?q = "request_parser_feed ?p n"
        have q: "?q = ?p\<lparr>rp_addr_len := n, rp_idx := 0,
            rp_state := (if n = 0 then REQ_ERROR else REQ_DADDR_DOMAIN)\<rparr>"
          using st by (simp add: request_parser_feed_def [of ?p])
        show ?thesis
        proof (cases "n = 0")
          case True
          with q Cons st start domain 1 show ?thesis
            by (simp add: request_final_def request_verdict_def Let_def)
        next
          case False
          then have "rp_state ?q = REQ_DADDR_DOMAIN" "rp_idx ?q = 0" "length (rp_addr ?q) = 256"
            "rp_port ?q = 0" "rp_addr_len ?q = n" "rp_atyp ?q = 3" "rp_cmd ?q = cmd"
            using q fields domain by simp_all
          with request_dst_run [OF this(1-4) False this(5), of es] False q Cons st start domain 1
          show ?thesis by (simp add: request_final_def Let_def)
        qed
      qed
    next
      case other
      then have "rp_state ?p = REQ_ERROR" by (simp add: run atyp_defs)
      with start other 1 show ?thesis by (simp add: request_final_def request_verdict_def)
    qed (use bad in simp)
  qed (auto simp: run request_verdict_def)
qed

section \<open>Properties\<close>

text \<open>
  Each entry point, called once per received chunk, decides the message format: however the bytes
  are cut into chunks, the outcome is the one the reference gives for their concatenation, the
  error flag is raised exactly for a malformed message, and the bytes behind the message are still
  in the buffer or not yet received.
\<close>

text \<open>C21: the greeting parser under arbitrary partial reads computes \<open>hello_message\<close>.\<close>

theorem hello_partial_reads:
  assumes "buf_inv b" and "buf_contents b = []" and "chunks_ok b cs"
  shows "\<exists>p b' fin n. deliver hello_parser_consume hello_parser_init b cs =
       Some (p, b', fin, hello_message (concat cs) = Malformed)
     \<and> (fin \<longleftrightarrow> hello_message (concat cs) \<noteq> Incomplete)
     \<and> hello_verdict (p, buf_contents b' @ concat (drop n cs)) = hello_message (concat cs)"
proof -
  have "\<not> hello_final hello_parser_init" by (simp add: hello_final_def hello_parser_init_def)
  from hello.deliver_eat [OF assms this] hello_eat_message [of "concat cs"]
  show ?thesis
    by (cases "hello_message (concat cs)")
      (auto simp: hello_verdict_def hello_final_def split: hello_state.splits)
qed

theorem hello_partial_reads_witness:
  "\<exists>p b' fin n. deliver hello_parser_consume hello_parser_init (buffer_init 8 (replicate 8 0))
       [[5], [2, 0], [2, 7]] = Some (p, b', fin, False)
     \<and> (fin \<longleftrightarrow> True)
     \<and> hello_verdict (p, buf_contents b' @ concat (drop n [[5], [2, 0], [2, 7]])) =
         Accepted (True, True) [7]"
proof -
  let ?b = "buffer_init 8 (replicate 8 0)"
  have "hello_message (concat [[5], [2, 0], [2, 7]]) = Accepted (True, True) [7]" by simp
  then show ?thesis
    using hello_partial_reads [of ?b "[[5], [2, 0], [2, 7]]"] by (simp add: chunks_ok_def)
qed

text \<open>C22: the user/password parser under arbitrary partial reads computes \<open>auth_message\<close>.\<close>

theorem auth_partial_reads:
  assumes "buf_inv b" and "buf_contents b = []" and "chunks_ok b cs" and "auth_arrays p0"
  shows "\<exists>p b' fin n. deliver auth_parser_consume (auth_parser_init p0) b cs =
       Some (p, b', fin, auth_message (concat cs) = Malformed)
     \<and> (fin \<longleftrightarrow> auth_message (concat cs) \<noteq> Incomplete)
     \<and> auth_verdict (p, buf_contents b' @ concat (drop n cs)) =
         map_verdict (\<lambda>(u, w). (Some u, Some w)) (auth_message (concat cs))"
proof -
  have "\<not> auth_final (auth_parser_init p0)" by (simp add: auth_final_def auth_parser_init_def)
  from auth.deliver_eat [OF assms(1-3) this] auth_eat_message [OF assms(4), of "concat cs"]
  show ?thesis
    by (cases "auth_message (concat cs)")
      (auto simp: auth_verdict_def auth_final_def split: auth_state.splits)
qed

theorem auth_partial_reads_witness:
  "\<exists>p b' fin n. deliver auth_parser_consume
       (auth_parser_init \<lparr>ap_state = AUTH_DONE, ap_ulen = 0, ap_plen = 0, ap_idx = 0,
          ap_username = replicate 256 0, ap_password = replicate 256 0\<rparr>)
       (buffer_init 8 (replicate 8 0)) [[1, 1], [65, 1], [66, 9]] = Some (p, b', fin, False)
     \<and> (fin \<longleftrightarrow> True)
     \<and> auth_verdict (p, buf_contents b' @ concat (drop n [[1, 1], [65, 1], [66, 9]])) =
         Accepted (Some [65], Some [66]) [9]"
proof -
  let ?b = "buffer_init 8 (replicate 8 0)"
  let ?p = "\<lparr>ap_state = AUTH_DONE, ap_ulen = 0, ap_plen = 0, ap_idx = 0,
    ap_username = replicate 256 0, ap_password = replicate 256 0\<rparr>"
  have "auth_message (concat [[1, 1], [65, 1], [66, 9]]) = Accepted ([65], [66]) [9]" by simp
  then show ?thesis
    using auth_partial_reads [of ?b "[[1, 1], [65, 1], [66, 9]]" ?p]
    by (simp add: chunks_ok_def auth_arrays_def)
qed

text \<open>C23: the request parser under arbitrary partial reads computes \<open>request_message\<close>.\<close>

theorem request_partial_reads:
  assumes "buf_inv b" and "buf_contents b = []" and "chunks_ok b cs"
    and "length (rp_addr p0) = 256"
  shows "\<exists>p b' fin n. deliver request_parser_consume (request_parser_init p0) b cs =
       Some (p, b', fin, request_message (concat cs) = Malformed)
     \<and> (fin \<longleftrightarrow> request_message (concat cs) \<noteq> Incomplete)
     \<and> request_verdict (p, buf_contents b' @ concat (drop n cs)) =
         map_verdict (\<lambda>(c, t, a, port). (c, t, Some a, port)) (request_message (concat cs))"
proof -
  have "\<not> request_final (request_parser_init p0)"
    by (simp add: request_final_def request_parser_init_def)
  from request.deliver_eat [OF assms(1-3) this] request_eat_message [OF assms(4), of "concat cs"]
  show ?thesis
    by (cases "request_message (concat cs)")
      (auto simp: request_verdict_def request_final_def split: request_state.splits)
qed

theorem request_partial_reads_witness:
  "\<exists>p b' fin n. deliver request_parser_consume
       (request_parser_init \<lparr>rp_state = REQ_DONE, rp_cmd = 0, rp_atyp = 0, rp_addr_len = 0,
          rp_idx = 0, rp_addr = replicate 256 0, rp_port = 0, rp_port_idx = 0\<rparr>)
       (buffer_init 8 (replicate 8 0)) [[5, 1, 0, 1], [127, 0, 0, 1, 1], [187]] = Some (p, b', fin, False)
     \<and> (fin \<longleftrightarrow> True)
     \<and> request_verdict (p, buf_contents b' @ concat (drop n [[5, 1, 0, 1], [127, 0, 0, 1, 1], [187]])) =
         Accepted (1, 1, Some [127, 0, 0, 1], 443) []"
proof -
  let ?b = "buffer_init 8 (replicate 8 0)"
  let ?p = "\<lparr>rp_state = REQ_DONE, rp_cmd = 0, rp_atyp = 0, rp_addr_len = 0,
    rp_idx = 0, rp_addr = replicate 256 0, rp_port = 0, rp_port_idx = 0\<rparr>"
  have "request_message (concat [[5, 1, 0, 1], [127, 0, 0, 1, 1], [187]]) =
      Accepted (1, 1, [127, 0, 0, 1], 443) []"
    by (simp add: request_tail_def be16_def)
  then show ?thesis
    using request_partial_reads [of ?b "[[5, 1, 0, 1], [127, 0, 0, 1, 1], [187]]" ?p]
    by (simp add: chunks_ok_def)
qed

end
