(* ===== verification/Pop3.thy ===== *)
theory Pop3
  imports Prelude
begin

text \<open>
  \<open>src/pop3.h\<close>, \<open>src/pop3.c\<close>: the dissector that watches the client-to-origin bytes of a POP3
  connection for \<open>USER\<close> and \<open>PASS\<close> lines. The callback is modelled by its calls: the model returns
  the list of the (user, password) pairs it is called with, in order. The property compares the
  byte-by-byte automaton, with its fixed line buffer, with a specification over whole lines.
\<close>

section \<open>The code\<close>

definition POP3_PORT :: nat where "POP3_PORT = 110"

text \<open>\<open>sizeof(p->line) - 1\<close>\<close>

definition LINE_LAST :: nat where "LINE_LAST = 512 - 1"

record pop3_sniffer =
  p3_line :: "byte list"
  p3_len :: nat
  p3_overflow :: bool
  p3_user :: "byte list"
  p3_have_user :: bool

type_synonym credential = "byte list \<times> byte list"

definition pop3_sniffer_init :: "pop3_sniffer \<Rightarrow> pop3_sniffer" where
  "pop3_sniffer_init p =
     p\<lparr>p3_len := 0, p3_overflow := False, p3_have_user := False, p3_user := (p3_user p)[0 := 0]\<rparr>"

text \<open>\<open>strncasecmp(a, b, n) == 0\<close>\<close>

definition strncasecmp_eq :: "byte list \<Rightarrow> byte list \<Rightarrow> nat \<Rightarrow> bool" where
  "strncasecmp_eq a b n \<longleftrightarrow> map tolower (take n (cstr a)) = map tolower (take n (cstr b))"

text \<open>\<open>snprintf(dst, size, "%s", src)\<close>\<close>

definition snprintf_s :: "byte list \<Rightarrow> nat \<Rightarrow> byte list \<Rightarrow> byte list" where
  "snprintf_s dst n src = memcpy_at dst 0 (take (n - 1) (cstr src) @ [0])"

definition process_line :: "pop3_sniffer \<Rightarrow> pop3_sniffer \<times> credential list" where
  "process_line p =
     (if strncasecmp_eq (p3_line p) (ascii ''USER '') 5
      then (p\<lparr>p3_user := snprintf_s (p3_user p) 256 (drop 5 (p3_line p)), p3_have_user := True\<rparr>, [])
      else if strncasecmp_eq (p3_line p) (ascii ''PASS '') 5 \<and> p3_have_user p
      then (p\<lparr>p3_have_user := False\<rparr>, [(cstr (p3_user p), cstr (drop 5 (p3_line p)))])
      else (p, []))"

text \<open>The body of the loop of \<open>pop3_sniffer_feed\<close>\<close>

definition pop3_feed_byte :: "pop3_sniffer \<Rightarrow> byte \<Rightarrow> pop3_sniffer \<times> credential list" where
  "pop3_feed_byte p c =
     (if c = 10
      then let e = p3_len p;
               e = (if e > 0 \<and> p3_line p ! (e - 1) = 13 then e - 1 else e);
               p = p\<lparr>p3_line := (p3_line p)[e := 0]\<rparr>;
               (p, creds) = (if \<not> p3_overflow p then process_line p else (p, []))
           in (p\<lparr>p3_len := 0, p3_overflow := False\<rparr>, creds)
      else if \<not> p3_overflow p
      then if p3_len p < LINE_LAST
           then (p\<lparr>p3_line := (p3_line p)[p3_len p := c], p3_len := p3_len p + 1\<rparr>, [])
           else (p\<lparr>p3_overflow := True\<rparr>, [])
      else (p, []))"

fun pop3_sniffer_feed :: "pop3_sniffer \<Rightarrow> byte list \<Rightarrow> pop3_sniffer \<times> credential list" where
  "pop3_sniffer_feed p [] = (p, [])"
| "pop3_sniffer_feed p (c # cs) =
     (let (p, e) = pop3_feed_byte p c; (p, e') = pop3_sniffer_feed p cs in (p, e @ e'))"

section \<open>Specification over lines\<close>

text \<open>A line without its terminator as a C string: one trailing CR removed, cut at the first NUL.\<close>

definition line_text :: "byte list \<Rightarrow> byte list" where
  "line_text l = cstr (if l \<noteq> [] \<and> last l = 13 then butlast l else l)"

definition is_command :: "string \<Rightarrow> byte list \<Rightarrow> bool" where
  "is_command w t \<longleftrightarrow> map tolower (take 5 t) = map tolower (ascii w)"

text \<open>One complete line, given the user name of the last unanswered \<open>USER\<close>; lines over 511 bytes
  are ignored, and user names are cut at 255 bytes.\<close>

definition pop3_line :: "byte list option \<Rightarrow> byte list \<Rightarrow> byte list option \<times> credential list" where
  "pop3_line u l =
     (let t = line_text l in
      if LINE_LAST < length l then (u, [])
      else if is_command ''USER '' t then (Some (take 255 (drop 5 t)), [])
      else if is_command ''PASS '' t then (None, case u of None \<Rightarrow> [] | Some n \<Rightarrow> [(n, drop 5 t)])
      else (u, []))"

fun pop3_lines :: "byte list option \<Rightarrow> byte list list \<Rightarrow> credential list" where
  "pop3_lines u [] = []"
| "pop3_lines u (l # ls) = (let (u, e) = pop3_line u l in e @ pop3_lines u ls)"

text \<open>The complete lines of a stream; \<open>acc\<close> is the beginning of the current one.\<close>

fun split_lines :: "byte list \<Rightarrow> byte list \<Rightarrow> byte list list" where
  "split_lines acc [] = []"
| "split_lines acc (c # cs) =
     (if c = 10 then acc # split_lines [] cs else split_lines (acc @ [c]) cs)"

section \<open>The automaton implements the specification\<close>

definition pop3_rel :: "pop3_sniffer \<Rightarrow> byte list \<Rightarrow> byte list option \<Rightarrow> bool" where
  "pop3_rel p acc u \<longleftrightarrow>
     length (p3_line p) = Suc LINE_LAST \<and> length (p3_user p) = 256 \<and>
     (p3_overflow p \<longleftrightarrow> LINE_LAST < length acc) \<and>
     p3_len p = min LINE_LAST (length acc) \<and> take (p3_len p) (p3_line p) = take LINE_LAST acc \<and>
     (p3_have_user p \<longleftrightarrow> u \<noteq> None) \<and> (\<forall>n. u = Some n \<longrightarrow> cstr (p3_user p) = n)"

lemma cstr_drop: "n \<le> length (cstr xs) \<Longrightarrow> cstr (drop n xs) = drop n (cstr xs)"
proof (induction xs arbitrary: n)
  case (Cons x xs)
  then show ?case by (cases n) (auto split: if_splits)
qed simp

lemma is_command_length: "is_command w t \<Longrightarrow> length w = 5 \<Longrightarrow> 5 \<le> length t"
  unfolding is_command_def by (metis ascii_def length_map length_take min.cobounded1 min_def)

lemma strncasecmp_command:
  "w = ''USER '' \<or> w = ''PASS '' \<Longrightarrow> strncasecmp_eq l (ascii w) 5 \<longleftrightarrow> is_command w (cstr l)"
  by (auto simp: strncasecmp_eq_def is_command_def ascii_def of_char_def)

lemma length_snprintf_s: "length dst = n \<Longrightarrow> 0 < n \<Longrightarrow> length (snprintf_s dst n src) = n"
  by (simp add: snprintf_s_def)

lemma cstr_snprintf_s: "cstr (snprintf_s dst n src) = take (n - 1) (cstr src)"
  by (simp add: snprintf_s_def cstr_memcpy_nul cstr_no_nul set_take_subset [THEN contra_subsetD])

text \<open>The line buffer at the newline of a line that fits\<close>

lemma newline_text:
  assumes "length line = Suc LINE_LAST" and "length acc \<le> LINE_LAST" and "take (length acc) line = acc"
  defines "e \<equiv> (if length acc > 0 \<and> line ! (length acc - 1) = 13 then length acc - 1 else length acc)"
  shows "cstr (line[e := 0]) = line_text acc"
proof -
  have last: "acc \<noteq> [] \<Longrightarrow> line ! (length acc - 1) = last acc"
    using assms(3) by (metis diff_less last_conv_nth length_greater_0_conv nth_take zero_less_one)
  have "e < length line" "e \<le> length acc" using assms by (auto simp: e_def)
  then have "cstr (line[e := 0]) = cstr (take e line)"
    using cstr_take_nul [of e "line[e := 0]"] by simp
  also have "take e line = take e acc"
    using \<open>e \<le> length acc\<close> assms(3) by (metis min.absorb1 take_take)
  also have "take e acc = (if acc \<noteq> [] \<and> last acc = 13 then butlast acc else acc)"
    using last by (auto simp: e_def butlast_conv_take)
  finally show ?thesis by (simp add: line_text_def)
qed

lemma process_line_spec:
  assumes "cstr (p3_line p) = t" and "length (p3_user p) = 256" and "length (p3_line p) = Suc LINE_LAST"
    and "p3_have_user p \<longleftrightarrow> u \<noteq> None" and "\<forall>n. u = Some n \<longrightarrow> cstr (p3_user p) = n"
    and "line_text l = t" and "length l \<le> LINE_LAST"
  shows "\<exists>p'. process_line p = (p', snd (pop3_line u l)) \<and> length (p3_user p') = 256
    \<and> length (p3_line p') = Suc LINE_LAST \<and> p3_overflow p' = p3_overflow p
    \<and> (p3_have_user p' \<longleftrightarrow> fst (pop3_line u l) \<noteq> None)
    \<and> (\<forall>n. fst (pop3_line u l) = Some n \<longrightarrow> cstr (p3_user p') = n)"
proof -
  have cmd: "strncasecmp_eq (p3_line p) (ascii ''USER '') 5 \<longleftrightarrow> is_command ''USER '' t"
    "strncasecmp_eq (p3_line p) (ascii ''PASS '') 5 \<longleftrightarrow> is_command ''PASS '' t"
    using strncasecmp_command assms(1) by blast+
  have drop5: "is_command w t \<Longrightarrow> length w = 5 \<Longrightarrow> cstr (drop 5 (p3_line p)) = drop 5 t" for w
    using cstr_drop [of 5 "p3_line p"] is_command_length [of w t] assms(1) by simp
  note defs = process_line_def pop3_line_def Let_def cmd assms(6)
  consider (user) "is_command ''USER '' t" | (pass) "\<not> is_command ''USER '' t" "is_command ''PASS '' t"
    | (other) "\<not> is_command ''USER '' t" "\<not> is_command ''PASS '' t"
    by blast
  then show ?thesis
  proof cases
    case user
    with assms(2,3,7) drop5 [OF user] show ?thesis
      by (simp add: defs cstr_snprintf_s length_snprintf_s)
  next
    case pass
    with assms(2-5,7) drop5 [OF pass(2)] show ?thesis
      by (cases u) (simp_all add: defs)
  next
    case other
    with assms(2-5,7) show ?thesis by (simp add: defs)
  qed
qed

lemma pop3_rel_short:
  assumes "pop3_rel p acc u" and "length acc \<le> LINE_LAST"
  shows "p3_len p = length acc" "\<not> p3_overflow p" "take (length acc) (p3_line p) = acc"
    "length (p3_line p) = Suc LINE_LAST"
proof -
  show len: "p3_len p = length acc" using assms unfolding pop3_rel_def by linarith
  show "\<not> p3_overflow p" using assms unfolding pop3_rel_def by linarith
  show "length (p3_line p) = Suc LINE_LAST" using assms unfolding pop3_rel_def by blast
  have "take (p3_len p) (p3_line p) = take LINE_LAST acc" using assms unfolding pop3_rel_def by blast
  with len assms(2) show "take (length acc) (p3_line p) = acc" by simp
qed

lemma pop3_rel_long:
  assumes "pop3_rel p acc u" and "LINE_LAST \<le> length acc"
  shows "p3_len p = LINE_LAST" "p3_overflow p \<longleftrightarrow> LINE_LAST < length acc"
    "take LINE_LAST (p3_line p) = take LINE_LAST acc"
proof -
  show len: "p3_len p = LINE_LAST" using assms unfolding pop3_rel_def by linarith
  show "p3_overflow p \<longleftrightarrow> LINE_LAST < length acc" using assms unfolding pop3_rel_def by blast
  have "take (p3_len p) (p3_line p) = take LINE_LAST acc" using assms unfolding pop3_rel_def by blast
  with len show "take LINE_LAST (p3_line p) = take LINE_LAST acc" by simp
qed

lemma feed_char_short:
  assumes "pop3_rel p acc u" and "c \<noteq> 10" and "length acc < LINE_LAST"
  shows "pop3_rel (p\<lparr>p3_line := (p3_line p)[p3_len p := c], p3_len := p3_len p + 1\<rparr>) (acc @ [c]) u"
    and "pop3_feed_byte p c = (p\<lparr>p3_line := (p3_line p)[p3_len p := c], p3_len := p3_len p + 1\<rparr>, [])"
proof -
  note len = pop3_rel_short [OF assms(1) less_imp_le [OF assms(3)]]
  have "take (Suc (length acc)) ((p3_line p)[length acc := c]) = acc @ [c]"
    using assms(3) len take_update_snoc [of "length acc" "p3_line p" c] by simp
  with assms(1,3) len(1,4)
  show "pop3_rel (p\<lparr>p3_line := (p3_line p)[p3_len p := c], p3_len := p3_len p + 1\<rparr>) (acc @ [c]) u"
    unfolding pop3_rel_def by simp
  show "pop3_feed_byte p c = (p\<lparr>p3_line := (p3_line p)[p3_len p := c], p3_len := p3_len p + 1\<rparr>, [])"
    using len(1,2) assms(2,3) by (simp add: pop3_feed_byte_def)
qed

lemma feed_char_long:
  assumes "pop3_rel p acc u" and "c \<noteq> 10" and "LINE_LAST \<le> length acc"
  shows "pop3_rel (p\<lparr>p3_overflow := True\<rparr>) (acc @ [c]) u"
    and "pop3_feed_byte p c = (p\<lparr>p3_overflow := True\<rparr>, [])"
proof -
  note len = pop3_rel_long [OF assms(1,3)]
  have "length (p3_line p) = Suc LINE_LAST" "length (p3_user p) = 256"
    "p3_have_user p \<longleftrightarrow> u \<noteq> None" "\<forall>n. u = Some n \<longrightarrow> cstr (p3_user p) = n"
    using assms(1) unfolding pop3_rel_def by blast+
  with len(1,3) assms(3) show "pop3_rel (p\<lparr>p3_overflow := True\<rparr>) (acc @ [c]) u"
    by (simp add: pop3_rel_def)
  show "pop3_feed_byte p c = (p\<lparr>p3_overflow := True\<rparr>, [])"
    using len(1,2) assms(2) by (simp add: pop3_feed_byte_def)
qed

lemma feed_newline:
  assumes "pop3_rel p acc u" and "c = 10"
  shows "\<exists>p'. pop3_feed_byte p c = (p', snd (pop3_line u acc))
    \<and> pop3_rel p' [] (fst (pop3_line u acc))"
proof -
  define e where "e = (if p3_len p > 0 \<and> p3_line p ! (p3_len p - 1) = 13 then p3_len p - 1 else p3_len p)"
  define q where "q = p\<lparr>p3_line := (p3_line p)[e := 0]\<rparr>"
  have eq: "pop3_feed_byte p c =
      (let (p, creds) = (if \<not> p3_overflow p then process_line q else (q, []))
       in (p\<lparr>p3_len := 0, p3_overflow := False\<rparr>, creds))"
    unfolding pop3_feed_byte_def e_def q_def Let_def using assms(2) by simp
  have q: "length (p3_line q) = Suc LINE_LAST" "length (p3_user q) = 256"
    "p3_have_user q \<longleftrightarrow> u \<noteq> None" "\<forall>n. u = Some n \<longrightarrow> cstr (p3_user q) = n"
    using assms(1) unfolding pop3_rel_def q_def by simp_all
  show ?thesis
  proof (cases "LINE_LAST < length acc")
    case over: True
    then have "p3_overflow p" using assms by (simp add: pop3_rel_def)
    with over q show ?thesis unfolding eq
      by (simp add: pop3_rel_def pop3_line_def Let_def)
  next
    case fits: False
    then have le: "length acc \<le> LINE_LAST" by simp
    note len = pop3_rel_short [OF assms(1) le]
    have txt_eq: "cstr (p3_line q) = line_text acc"
      unfolding q_def e_def len(1) using newline_text [OF len(4) le len(3)] by simp
    obtain p' where p': "process_line q = (p', snd (pop3_line u acc))"
      "length (p3_user p') = 256" "length (p3_line p') = Suc LINE_LAST"
      "p3_have_user p' \<longleftrightarrow> fst (pop3_line u acc) \<noteq> None"
      "\<forall>n. fst (pop3_line u acc) = Some n \<longrightarrow> cstr (p3_user p') = n"
      using process_line_spec [OF txt_eq q(2) q(1) q(3) q(4) refl le] by blast
    show ?thesis unfolding eq using p' len(2)
      by (simp add: pop3_rel_def)
  qed
qed

lemma feed_byte_rel:
  assumes "pop3_rel p acc u"
  shows "\<exists>p'. pop3_feed_byte p c = (p', if c = 10 then snd (pop3_line u acc) else [])
    \<and> pop3_rel p' (if c = 10 then [] else acc @ [c]) (if c = 10 then fst (pop3_line u acc) else u)"
proof (cases "c = 10")
  case True
  with feed_newline [OF assms True] show ?thesis by simp
next
  case False
  with feed_char_short [OF assms False] feed_char_long [OF assms False] show ?thesis
    by (cases "length acc < LINE_LAST") auto
qed

lemma feed_rel:
  "pop3_rel p acc u \<Longrightarrow> snd (pop3_sniffer_feed p cs) = pop3_lines u (split_lines acc cs)"
proof (induction cs arbitrary: p acc u)
  case (Cons c cs)
  obtain p' where "pop3_feed_byte p c = (p', if c = 10 then snd (pop3_line u acc) else [])"
    "pop3_rel p' (if c = 10 then [] else acc @ [c]) (if c = 10 then fst (pop3_line u acc) else u)"
    using feed_byte_rel [OF Cons.prems] by blast
  with Cons.IH show ?case by (cases "c = 10") (simp_all add: split_beta)
qed simp

lemma feed_append:
  "pop3_sniffer_feed p (xs @ ys) =
     (let (p, e) = pop3_sniffer_feed p xs; (p, e') = pop3_sniffer_feed p ys in (p, e @ e'))"
  by (induction xs arbitrary: p) (simp_all add: split_beta)

lemma pop3_rel_init:
  "length (p3_line p) = Suc LINE_LAST \<Longrightarrow> length (p3_user p) = 256 \<Longrightarrow> pop3_rel (pop3_sniffer_init p) [] None"
  by (simp add: pop3_rel_def pop3_sniffer_init_def)

section \<open>Properties\<close>

text \<open>C27: whatever way the client's bytes are cut into reads, the credentials reported are exactly
  those the line specification finds in the stream: each \<open>PASS\<close> line after a \<open>USER\<close> line, matched
  without regard to case, with over-long lines skipped and every index inside the 512-byte
  buffer.\<close>

theorem pop3_reports_lines:
  assumes "length (p3_line p) = 512" and "length (p3_user p) = 256"
  shows "(let (p, e) = pop3_sniffer_feed (pop3_sniffer_init p) xs;
              (p, e') = pop3_sniffer_feed p ys in e @ e') =
         pop3_lines None (split_lines [] (xs @ ys))"
proof -
  have "snd (pop3_sniffer_feed (pop3_sniffer_init p) (xs @ ys)) =
      pop3_lines None (split_lines [] (xs @ ys))"
    using assms by (intro feed_rel pop3_rel_init) (simp_all add: LINE_LAST_def)
  then show ?thesis by (simp add: feed_append split_beta)
qed

theorem pop3_reports_lines_witness:
  "pop3_lines None (split_lines [] (ascii ''user ana'' @ [13, 10] @ ascii ''Pass x'' @ [13, 10]))
     = [(ascii ''ana'', ascii ''x'')] \<and>
   (let (p, e) = pop3_sniffer_feed (pop3_sniffer_init
          \<lparr>p3_line = replicate 512 0, p3_len = 0, p3_overflow = False, p3_user = replicate 256 0,
           p3_have_user = False\<rparr>) (ascii ''user ana'' @ [13]);
        (p, e') = pop3_sniffer_feed p ([10] @ ascii ''Pass x'' @ [13, 10]) in e @ e')
     = [(ascii ''ana'', ascii ''x'')]"
proof -
  have eq: "pop3_lines None
      (split_lines [] (ascii ''user ana'' @ [13, 10] @ ascii ''Pass x'' @ [13, 10]))
     = [(ascii ''ana'', ascii ''x'')]"
    by code_simp
  with pop3_reports_lines [of "\<lparr>p3_line = replicate 512 0, p3_len = 0, p3_overflow = False,
      p3_user = replicate 256 0, p3_have_user = False\<rparr>" "ascii ''user ana'' @ [13]"
      "[10] @ ascii ''Pass x'' @ [13, 10]"]
  show ?thesis by simp
qed

end
