(* ===== verification/Stm.thy ===== *)
theory Stm
  imports Prelude
begin

text \<open>
  \<open>src/stm.h\<close>, \<open>src/stm.c\<close>: the state machine engine driven by the multiplexer's events. The states
  of a machine are a list; \<open>current\<close> is an index into it, \<^const>\<open>None\<close> being NULL. The machine is
  part of a larger program state of type \<open>'st\<close>, which the callbacks change: the engine reads and
  writes it with \<open>get\<close>, which fails when the memory the machine lives in has been released, and
  \<open>put\<close>. \<open>abort()\<close> is \<^const>\<open>None\<close>.
\<close>

section \<open>The code\<close>

record state_machine =
  sm_initial :: nat
  sm_max_state :: nat
  sm_current :: "nat option"

record ('k, 'st) state_definition =
  sd_state :: nat
  on_arrival :: "(nat \<Rightarrow> 'k \<Rightarrow> 'st \<Rightarrow> 'st option) option"
  on_departure :: "(nat \<Rightarrow> 'k \<Rightarrow> 'st \<Rightarrow> 'st option) option"
  on_read_ready :: "('k \<Rightarrow> 'st \<Rightarrow> (nat \<times> 'st) option) option"
  on_write_ready :: "('k \<Rightarrow> 'st \<Rightarrow> (nat \<times> 'st) option) option"
  on_block_ready :: "('k \<Rightarrow> 'st \<Rightarrow> (nat \<times> 'st) option) option"

text \<open>A state of which only the number is given; the other fields are NULL.\<close>

definition plain_state :: "nat \<Rightarrow> ('k, 'st) state_definition" where
  "plain_state n = \<lparr>sd_state = n, on_arrival = None, on_departure = None, on_read_ready = None,
     on_write_ready = None, on_block_ready = None\<rparr>"

definition stm_init :: "('k, 'st) state_definition list \<Rightarrow> state_machine \<Rightarrow> state_machine option" where
  "stm_init states m =
     (if (\<forall>i \<in> set [0..<Suc (sm_max_state m)]. i < length states \<and> sd_state (states ! i) = i)
      then if sm_initial m < sm_max_state m then Some (m\<lparr>sm_current := None\<rparr>) else None
      else None)"

text \<open>Calling \<open>on_arrival\<close> and \<open>on_departure\<close>, when they are not NULL\<close>

definition run_hook :: "(nat \<Rightarrow> 'k \<Rightarrow> 'st \<Rightarrow> 'st option) option \<Rightarrow> nat \<Rightarrow> 'k \<Rightarrow> 'st \<Rightarrow> 'st option" where
  "run_hook f n key st = (case f of None \<Rightarrow> Some st | Some f \<Rightarrow> f n key st)"

definition handle_first ::
    "('k, 'st) state_definition list \<Rightarrow> ('k \<Rightarrow> 'st \<Rightarrow> state_machine option) \<Rightarrow>
     ('k \<Rightarrow> state_machine \<Rightarrow> 'st \<Rightarrow> 'st) \<Rightarrow> 'k \<Rightarrow> 'st \<Rightarrow> 'st option" where
  "handle_first states get put key st = do {
     m \<leftarrow> get key st;
     if sm_current m = None
     then if sm_initial m < length states
          then let st = put key (m\<lparr>sm_current := Some (sm_initial m)\<rparr>) st; d = states ! sm_initial m
               in run_hook (on_arrival d) (sd_state d) key st
          else None
     else Some st
   }"

definition jump ::
    "('k, 'st) state_definition list \<Rightarrow> ('k \<Rightarrow> 'st \<Rightarrow> state_machine option) \<Rightarrow>
     ('k \<Rightarrow> state_machine \<Rightarrow> 'st \<Rightarrow> 'st) \<Rightarrow> nat \<Rightarrow> 'k \<Rightarrow> 'st \<Rightarrow> 'st option" where
  "jump states get put next key st = do {
     m \<leftarrow> get key st;
     if next > sm_max_state m then None
     else if sm_current m \<noteq> Some next
     then do {
       st \<leftarrow> (case sm_current m of None \<Rightarrow> Some st
              | Some c \<Rightarrow> if c < length states
                  then run_hook (on_departure (states ! c)) (sd_state (states ! c)) key st else None);
       m \<leftarrow> get key st;
       if next < length states
       then let st = put key (m\<lparr>sm_current := Some next\<rparr>) st; d = states ! next
            in run_hook (on_arrival d) (sd_state d) key st
       else None
     }
     else Some st
   }"

text \<open>The three event functions differ only in the column of the table they call.\<close>

definition stm_event ::
    "(('k, 'st) state_definition \<Rightarrow> ('k \<Rightarrow> 'st \<Rightarrow> (nat \<times> 'st) option) option) \<Rightarrow>
     ('k, 'st) state_definition list \<Rightarrow> ('k \<Rightarrow> 'st \<Rightarrow> state_machine option) \<Rightarrow>
     ('k \<Rightarrow> state_machine \<Rightarrow> 'st \<Rightarrow> 'st) \<Rightarrow> 'k \<Rightarrow> 'st \<Rightarrow> (nat \<times> 'st) option" where
  "stm_event column states get put key st = do {
     st \<leftarrow> handle_first states get put key st;
     m \<leftarrow> get key st;
     c \<leftarrow> sm_current m;
     f \<leftarrow> (if c < length states then column (states ! c) else None);
     (ret, st) \<leftarrow> f key st;
     st \<leftarrow> jump states get put ret key st;
     Some (ret, st)
   }"

definition stm_handler_read ::
    "('k, 'st) state_definition list \<Rightarrow> ('k \<Rightarrow> 'st \<Rightarrow> state_machine option) \<Rightarrow>
     ('k \<Rightarrow> state_machine \<Rightarrow> 'st \<Rightarrow> 'st) \<Rightarrow> 'k \<Rightarrow> 'st \<Rightarrow> (nat \<times> 'st) option" where
  "stm_handler_read = stm_event on_read_ready"

definition stm_handler_write ::
    "('k, 'st) state_definition list \<Rightarrow> ('k \<Rightarrow> 'st \<Rightarrow> state_machine option) \<Rightarrow>
     ('k \<Rightarrow> state_machine \<Rightarrow> 'st \<Rightarrow> 'st) \<Rightarrow> 'k \<Rightarrow> 'st \<Rightarrow> (nat \<times> 'st) option" where
  "stm_handler_write = stm_event on_write_ready"

definition stm_handler_block ::
    "('k, 'st) state_definition list \<Rightarrow> ('k \<Rightarrow> 'st \<Rightarrow> state_machine option) \<Rightarrow>
     ('k \<Rightarrow> state_machine \<Rightarrow> 'st \<Rightarrow> 'st) \<Rightarrow> 'k \<Rightarrow> 'st \<Rightarrow> (nat \<times> 'st) option" where
  "stm_handler_block = stm_event on_block_ready"

definition stm_handler_close ::
    "('k, 'st) state_definition list \<Rightarrow> ('k \<Rightarrow> 'st \<Rightarrow> state_machine option) \<Rightarrow> 'k \<Rightarrow> 'st \<Rightarrow> 'st option" where
  "stm_handler_close states get key st = do {
     m \<leftarrow> get key st;
     case sm_current m of None \<Rightarrow> Some st
     | Some c \<Rightarrow> if c < length states
         then run_hook (on_departure (states ! c)) (sd_state (states ! c)) key st else None
   }"

definition stm_state :: "('k, 'st) state_definition list \<Rightarrow> state_machine \<Rightarrow> nat option" where
  "stm_state states m =
     (case sm_current m of None \<Rightarrow> Some (sm_initial m)
      | Some c \<Rightarrow> if c < length states then Some (sd_state (states ! c)) else None)"

end
