(* ===== verification/Selector.thy ===== *)
theory Selector
  imports Os
begin

text \<open>
  \<open>src/selector.h\<close>, \<open>src/selector.c\<close>: the multiplexer over \<open>pselect\<close>. The jump table is the list
  \<open>s_fds\<close>, the empty list being the NULL pointer, so \<open>fd_size\<close> is its length and an access outside
  it is \<^const>\<open>None\<close>. A handler pointer is a name of type \<open>'h\<close>; the functions behind it are given
  by a table, because the callbacks work on the whole program state, a pair of the selector and
  the rest of type \<open>'s\<close>. What \<open>pselect\<close> answers is an argument of \<open>selector_select\<close>.

  The table is shown to refine a finite map from descriptors to registrations; the sets handed to
  \<open>pselect\<close> are exactly the interests of that map; and the interface \<open>event_client\<close> says what a
  program must guarantee of its callbacks so that a whole turn of the loop never touches a wrong
  slot, never finds a missing handler and keeps the program's invariant.
\<close>

section \<open>The code\<close>

type_synonym fd_interest = byte

definition OP_NOOP :: fd_interest where "OP_NOOP = 0"
definition OP_READ :: fd_interest where "OP_READ = 1"
definition OP_WRITE :: fd_interest where "OP_WRITE = 4"

lemmas op_defs = OP_NOOP_def OP_READ_def OP_WRITE_def

datatype selector_status = SELECTOR_SUCCESS | SELECTOR_ENOMEM | SELECTOR_MAXFD | SELECTOR_IARGS
  | SELECTOR_FDINUSE | SELECTOR_IO

definition ITEMS_MAX_SIZE :: nat where "ITEMS_MAX_SIZE = 1024"

record ('h, 'd) item =
  it_fd :: int
  it_interest :: fd_interest
  it_handler :: "'h option"
  it_data :: "'d option"

record ('h, 'd) selector =
  s_fds :: "('h, 'd) item list"
  s_max_fd :: nat
  s_master_r :: "nat set"
  s_master_w :: "nat set"
  s_slave_r :: "nat set"
  s_slave_w :: "nat set"
  s_jobs :: "int list"

definition FD_UNUSED :: int where "FD_UNUSED = -1"

definition item_used :: "('h, 'd) item \<Rightarrow> bool" where
  "item_used i \<longleftrightarrow> FD_UNUSED \<noteq> it_fd i"

text \<open>A zeroed item after \<open>item_init\<close>\<close>

definition unused_item :: "('h, 'd) item" where
  "unused_item = \<lparr>it_fd = FD_UNUSED, it_interest = 0, it_handler = None, it_data = None\<rparr>"

definition wants :: "fd_interest \<Rightarrow> fd_interest \<Rightarrow> bool" where
  "wants op i \<longleftrightarrow> op AND i \<noteq> 0"

text \<open>The loop counts the bits of \<open>n\<close>.\<close>

fun bit_count :: "nat \<Rightarrow> nat" where
  "bit_count tmp = (if tmp = 0 then 0 else Suc (bit_count (tmp div 2)))"

declare bit_count.simps [simp del]

definition next_capacity :: "nat \<Rightarrow> nat option" where
  "next_capacity n =
     (let tmp = 2 ^ bit_count n
      in if tmp \<ge> n then Some ((if tmp > ITEMS_MAX_SIZE then ITEMS_MAX_SIZE else tmp) + 1) else None)"

text \<open>The loop of \<open>items_init\<close> from the old size to the end of the table\<close>

definition items_init :: "nat \<Rightarrow> ('h, 'd) item list \<Rightarrow> ('h, 'd) item list" where
  "items_init old fds = take old fds @ map (\<lambda>i. i\<lparr>it_fd := FD_UNUSED\<rparr>) (drop old fds)"

fun max_fd_loop :: "('h, 'd) item list \<Rightarrow> int \<Rightarrow> int" where
  "max_fd_loop [] m = m"
| "max_fd_loop (i # is) m =
     max_fd_loop is (if item_used i then (if it_fd i > m then it_fd i else m) else m)"

definition items_max_fd :: "('h, 'd) selector \<Rightarrow> nat option" where
  "items_max_fd s =
     (if s_max_fd s < length (s_fds s)
      then Some (nat (max_fd_loop (take (Suc (s_max_fd s)) (s_fds s)) 0)) else None)"

definition items_update_fdset_for_fd ::
    "('h, 'd) item \<Rightarrow> ('h, 'd) selector \<Rightarrow> ('h, 'd) selector" where
  "items_update_fdset_for_fd i s =
     (let fd = nat (it_fd i);
          s = s\<lparr>s_master_r := s_master_r s - {fd}, s_master_w := s_master_w s - {fd}\<rparr>
      in if item_used i
         then let s = (if wants OP_READ (it_interest i) then s\<lparr>s_master_r := insert fd (s_master_r s)\<rparr> else s)
              in (if wants OP_WRITE (it_interest i) then s\<lparr>s_master_w := insert fd (s_master_w s)\<rparr> else s)
         else s)"

text \<open>\<open>alloc\<close> is whether \<open>calloc\<close> or \<open>realloc\<close> succeeds, \<open>mem\<close> what cells that \<open>realloc\<close> adds hold.\<close>

definition zero_item :: "('h, 'd) item" where
  "zero_item = \<lparr>it_fd = 0, it_interest = 0, it_handler = None, it_data = None\<rparr>"

definition ensure_capacity ::
    "bool \<Rightarrow> ('h, 'd) item \<Rightarrow> nat \<Rightarrow> ('h, 'd) selector \<Rightarrow> (selector_status \<times> ('h, 'd) selector) option" where
  "ensure_capacity alloc mem n s =
     (if n < length (s_fds s) then Some (SELECTOR_SUCCESS, s)
      else if n > ITEMS_MAX_SIZE then Some (SELECTOR_MAXFD, s)
      else do {
        new_size \<leftarrow> next_capacity n;
        let mem = (if s_fds s = [] then zero_item else mem);
        if \<not> alloc then Some (SELECTOR_ENOMEM, s)
        else Some (SELECTOR_SUCCESS, s\<lparr>s_fds :=
          items_init (length (s_fds s)) (s_fds s @ replicate (new_size - length (s_fds s)) mem)\<rparr>)
      })"

definition blank_selector :: "('h, 'd) selector" where
  "blank_selector = \<lparr>s_fds = [], s_max_fd = 0, s_master_r = {}, s_master_w = {},
     s_slave_r = {}, s_slave_w = {}, s_jobs = []\<rparr>"

text \<open>\<^const>\<open>None\<close> inside is the NULL the caller gets.\<close>

definition selector_new ::
    "bool \<Rightarrow> bool \<Rightarrow> ('h, 'd) item \<Rightarrow> nat \<Rightarrow> ('h, 'd) selector option option" where
  "selector_new malloc_ok alloc mem initial_elements =
     (if \<not> malloc_ok then Some None
      else do {
        (st, s) \<leftarrow> ensure_capacity alloc mem initial_elements blank_selector;
        Some (if st = SELECTOR_SUCCESS then Some s else None)
      })"

definition invalid_fd :: "int \<Rightarrow> bool" where
  "invalid_fd fd \<longleftrightarrow> fd < 0 \<or> fd \<ge> int ITEMS_MAX_SIZE"

definition selector_register ::
    "bool \<Rightarrow> ('h, 'd) item \<Rightarrow> int \<Rightarrow> 'h \<Rightarrow> fd_interest \<Rightarrow> 'd option \<Rightarrow> ('h, 'd) selector \<Rightarrow>
     (selector_status \<times> ('h, 'd) selector) option" where
  "selector_register alloc mem fd handler interest data s =
     (if invalid_fd fd then Some (SELECTOR_IARGS, s)
      else let ufd = nat fd in do {
        (ret, s) \<leftarrow> (if ufd > length (s_fds s) then ensure_capacity alloc mem ufd s
                     else Some (SELECTOR_SUCCESS, s));
        if ret \<noteq> SELECTOR_SUCCESS then Some (ret, s)
        else if \<not> ufd < length (s_fds s) then None
        else if item_used (s_fds s ! ufd) then Some (SELECTOR_FDINUSE, s)
        else let item = \<lparr>it_fd = fd, it_interest = interest, it_handler = Some handler, it_data = data\<rparr>;
                 s = s\<lparr>s_fds := (s_fds s)[ufd := item]\<rparr>;
                 s = (if ufd > s_max_fd s then s\<lparr>s_max_fd := ufd\<rparr> else s)
             in Some (SELECTOR_SUCCESS, items_update_fdset_for_fd item s)
      })"

definition selector_set_interest ::
    "int \<Rightarrow> fd_interest \<Rightarrow> ('h, 'd) selector \<Rightarrow> (selector_status \<times> ('h, 'd) selector) option" where
  "selector_set_interest fd i s =
     (if invalid_fd fd then Some (SELECTOR_IARGS, s)
      else if \<not> nat fd < length (s_fds s) then None
      else if \<not> item_used (s_fds s ! nat fd) then Some (SELECTOR_IARGS, s)
      else let item = (s_fds s ! nat fd)\<lparr>it_interest := i\<rparr>;
               s = s\<lparr>s_fds := (s_fds s)[nat fd := item]\<rparr>
           in Some (SELECTOR_SUCCESS, items_update_fdset_for_fd item s))"

text \<open>The key passed to a callback: descriptor and data.\<close>

type_synonym 'd key = "int \<times> 'd option"

text \<open>The key holds a selector here: the NULL checks of the source are those of the pointer \<open>key\<close>.\<close>

definition selector_set_interest_key ::
    "'d key option \<Rightarrow> fd_interest \<Rightarrow> ('h, 'd) selector \<Rightarrow> (selector_status \<times> ('h, 'd) selector) option" where
  "selector_set_interest_key key i s =
     (case key of
        None \<Rightarrow> Some (SELECTOR_IARGS, s)
      | Some (fd, data) \<Rightarrow> if invalid_fd fd then Some (SELECTOR_IARGS, s) else selector_set_interest fd i s)"

text \<open>\<open>SELECTOR_FDINUSE\<close> has no text of its own.\<close>

definition selector_error :: "selector_status \<Rightarrow> string" where
  "selector_error status = (case status of
     SELECTOR_SUCCESS \<Rightarrow> ''Success''
   | SELECTOR_ENOMEM \<Rightarrow> ''Not enough memory''
   | SELECTOR_MAXFD \<Rightarrow> ''Can'' @ [CHR 0x27] @ ''t handle any more file descriptors''
   | SELECTOR_IARGS \<Rightarrow> ''Illegal argument''
   | SELECTOR_IO \<Rightarrow> ''I/O error''
   | _ \<Rightarrow> ''something failed'')"

definition selector_close :: selector_status where
  "selector_close = SELECTOR_SUCCESS"

type_synonym ('d, 'st) callback = "'d key \<Rightarrow> 'st \<Rightarrow> 'st option"

record ('d, 'st) fd_handler =
  handle_read :: "('d, 'st) callback option"
  handle_write :: "('d, 'st) callback option"
  handle_block :: "('d, 'st) callback option"
  handle_close :: "('d, 'st) callback option"

text \<open>\<open>close_of\<close> is the \<open>handle_close\<close> column of the table.\<close>

definition selector_unregister_fd ::
    "('h \<Rightarrow> ('d, ('h, 'd) selector \<times> 's) callback option) \<Rightarrow> int \<Rightarrow> ('h, 'd) selector \<times> 's \<Rightarrow>
     (selector_status \<times> ('h, 'd) selector \<times> 's) option" where
  "selector_unregister_fd close_of fd st =
     (if invalid_fd fd then Some (SELECTOR_IARGS, st)
      else if \<not> nat fd < length (s_fds (fst st)) then None
      else let item = s_fds (fst st) ! nat fd in
        if \<not> item_used item then Some (SELECTOR_IARGS, st)
        else do {
          h \<leftarrow> it_handler item;
          (s, x) \<leftarrow> (case close_of h of None \<Rightarrow> Some st | Some f \<Rightarrow> f (it_fd item, it_data item) st);
          if \<not> nat fd < length (s_fds s) then None
          else let item = (s_fds s ! nat fd)\<lparr>it_interest := OP_NOOP\<rparr>;
                   s = items_update_fdset_for_fd item s;
                   s = s\<lparr>s_fds := (s_fds s)[nat fd := unused_item]\<rparr>
               in do {
                 m \<leftarrow> items_max_fd s;
                 Some (SELECTOR_SUCCESS, s\<lparr>s_max_fd := m\<rparr>, x)
               }
        })"

text \<open>One descriptor of \<open>handle_iteration\<close>; a missing handler is the failing assertion.\<close>

definition handle_item ::
    "('h \<Rightarrow> ('d, ('h, 'd) selector \<times> 's) fd_handler) \<Rightarrow> nat \<Rightarrow> ('h, 'd) selector \<times> 's \<Rightarrow>
     (('h, 'd) selector \<times> 's) option" where
  "handle_item tbl i st =
     (if \<not> i < length (s_fds (fst st)) then None
      else let item = s_fds (fst st) ! i in
        if \<not> item_used item then Some st
        else let key = (it_fd item, it_data item) in do {
          st \<leftarrow> (if nat (it_fd item) \<in> s_slave_r (fst st) \<and> wants OP_READ (it_interest item)
                 then do { h \<leftarrow> it_handler item; f \<leftarrow> handle_read (tbl h); f key st }
                 else Some st);
          if \<not> i < length (s_fds (fst st)) then None
          else let item = s_fds (fst st) ! i in
            if i \<in> s_slave_w (fst st) \<and> wants OP_WRITE (it_interest item)
            then do { h \<leftarrow> it_handler item; f \<leftarrow> handle_write (tbl h); f key st }
            else Some st
        })"

primrec handle_items ::
    "('h \<Rightarrow> ('d, ('h, 'd) selector \<times> 's) fd_handler) \<Rightarrow> nat list \<Rightarrow> ('h, 'd) selector \<times> 's \<Rightarrow>
     (('h, 'd) selector \<times> 's) option" where
  "handle_items tbl [] st = Some st"
| "handle_items tbl (i # is) st = do { st \<leftarrow> handle_item tbl i st; handle_items tbl is st }"

definition handle_iteration ::
    "('h \<Rightarrow> ('d, ('h, 'd) selector \<times> 's) fd_handler) \<Rightarrow> ('h, 'd) selector \<times> 's \<Rightarrow>
     (('h, 'd) selector \<times> 's) option" where
  "handle_iteration tbl st = handle_items tbl [0..<Suc (s_max_fd (fst st))] st"

text \<open>One job of \<open>handle_block_notifications\<close>; \<open>handle_block\<close> is called without a check for NULL.\<close>

definition handle_job ::
    "('h \<Rightarrow> ('d, ('h, 'd) selector \<times> 's) fd_handler) \<Rightarrow> int \<Rightarrow> ('h, 'd) selector \<times> 's \<Rightarrow>
     (('h, 'd) selector \<times> 's) option" where
  "handle_job tbl fd st =
     (if fd < 0 \<or> \<not> nat fd < length (s_fds (fst st)) then None
      else let item = s_fds (fst st) ! nat fd in
        if item_used item
        then do { h \<leftarrow> it_handler item; f \<leftarrow> handle_block (tbl h); f (it_fd item, it_data item) st }
        else Some st)"

primrec handle_jobs ::
    "('h \<Rightarrow> ('d, ('h, 'd) selector \<times> 's) fd_handler) \<Rightarrow> int list \<Rightarrow> ('h, 'd) selector \<times> 's \<Rightarrow>
     (('h, 'd) selector \<times> 's) option" where
  "handle_jobs tbl [] st = Some st"
| "handle_jobs tbl (j # js) st = do { st \<leftarrow> handle_job tbl j st; handle_jobs tbl js st }"

definition handle_block_notifications ::
    "('h \<Rightarrow> ('d, ('h, 'd) selector \<times> 's) fd_handler) \<Rightarrow> ('h, 'd) selector \<times> 's \<Rightarrow>
     (('h, 'd) selector \<times> 's) option" where
  "handle_block_notifications tbl st = do {
     (s, x) \<leftarrow> handle_jobs tbl (s_jobs (fst st)) st;
     Some (s\<lparr>s_jobs := []\<rparr>, x)
   }"

definition selector_notify_block ::
    "bool \<Rightarrow> int \<Rightarrow> ('h, 'd) selector \<Rightarrow> selector_status \<times> ('h, 'd) selector" where
  "selector_notify_block malloc_ok fd s =
     (if \<not> malloc_ok then (SELECTOR_ENOMEM, s)
      else (SELECTOR_SUCCESS, s\<lparr>s_jobs := fd # s_jobs s\<rparr>))"

text \<open>What \<open>pselect\<close> returns: an error, or the descriptors that are ready.\<close>

datatype pselect_answer = PselectError errno | PselectReady "nat set" "nat set"

definition selector_select ::
    "('h \<Rightarrow> ('d, ('h, 'd) selector \<times> 's) fd_handler) \<Rightarrow> pselect_answer \<Rightarrow> ('h, 'd) selector \<times> 's \<Rightarrow>
     (selector_status \<times> ('h, 'd) selector \<times> 's) option" where
  "selector_select tbl answer st =
     (let s = fst st; s = s\<lparr>s_slave_r := s_master_r s, s_slave_w := s_master_w s\<rparr>; st = (s, snd st)
      in case answer of
           PselectError e \<Rightarrow>
             if e = EAGAIN \<or> e = EINTR
             then map_option (Pair SELECTOR_SUCCESS) (handle_block_notifications tbl st)
             else Some (SELECTOR_IO, st)
         | PselectReady r w \<Rightarrow> do {
             st \<leftarrow> handle_iteration tbl (s\<lparr>s_slave_r := r, s_slave_w := w\<rparr>, snd st);
             map_option (Pair SELECTOR_SUCCESS) (handle_block_notifications tbl st)
           })"

text \<open>The loop of \<open>selector_destroy\<close> over all slots; the memory is then released.\<close>

primrec unregister_all ::
    "('h \<Rightarrow> ('d, ('h, 'd) selector \<times> 's) callback option) \<Rightarrow> nat list \<Rightarrow> ('h, 'd) selector \<times> 's \<Rightarrow>
     (('h, 'd) selector \<times> 's) option" where
  "unregister_all close_of [] st = Some st"
| "unregister_all close_of (i # is) st =
     (if \<not> i < length (s_fds (fst st)) then None
      else if item_used (s_fds (fst st) ! i)
      then do { (r, st) \<leftarrow> selector_unregister_fd close_of (int i) st; unregister_all close_of is st }
      else unregister_all close_of is st)"

definition selector_destroy ::
    "('h \<Rightarrow> ('d, ('h, 'd) selector \<times> 's) callback option) \<Rightarrow> ('h, 'd) selector \<times> 's \<Rightarrow>
     (('h, 'd) selector \<times> 's) option" where
  "selector_destroy close_of st = do {
     (s, x) \<leftarrow> unregister_all close_of [0..<length (s_fds (fst st))] st;
     Some (s\<lparr>s_fds := [], s_jobs := []\<rparr>, x)
   }"

section \<open>Abstraction and invariant\<close>

text \<open>A registration: interest, handler and data.\<close>

type_synonym ('h, 'd) registration = "fd_interest \<times> 'h \<times> 'd option"

definition sel_map :: "('h, 'd) selector \<Rightarrow> int \<Rightarrow> ('h, 'd) registration option" where
  "sel_map s fd =
     (if 0 \<le> fd \<and> nat fd < length (s_fds s) \<and> item_used (s_fds s ! nat fd)
      then map_option (\<lambda>h. (it_interest (s_fds s ! nat fd), h, it_data (s_fds s ! nat fd)))
        (it_handler (s_fds s ! nat fd))
      else None)"

text \<open>The descriptors that want an operation\<close>

definition sel_wanting :: "fd_interest \<Rightarrow> ('h, 'd) selector \<Rightarrow> nat set" where
  "sel_wanting op s = {i. i < length (s_fds s) \<and> item_used (s_fds s ! i) \<and> wants op (it_interest (s_fds s ! i))}"

definition sel_inv :: "('h, 'd) selector \<Rightarrow> bool" where
  "sel_inv s \<longleftrightarrow> length (s_fds s) = Suc ITEMS_MAX_SIZE \<and> s_max_fd s < ITEMS_MAX_SIZE
     \<and> (\<forall>i < length (s_fds s). item_used (s_fds s ! i) \<longrightarrow>
          it_fd (s_fds s ! i) = int i \<and> it_handler (s_fds s ! i) \<noteq> None \<and> i \<le> s_max_fd s)
     \<and> (\<forall>i < length (s_fds s). \<not> item_used (s_fds s ! i) \<longrightarrow> it_interest (s_fds s ! i) = 0)
     \<and> s_master_r s = sel_wanting OP_READ s \<and> s_master_w s = sel_wanting OP_WRITE s"

lemma item_used_unused [simp]: "\<not> item_used unused_item"
  by (simp add: item_used_def unused_item_def)

lemma bit_count_1024: "bit_count 1024 = 11"
  by (simp add: bit_count.simps)

lemma selector_new_ok:
  "selector_new True True mem 1024 = Some (Some
     (blank_selector\<lparr>s_fds := replicate (Suc ITEMS_MAX_SIZE) unused_item\<rparr>))"
  by (simp add: selector_new_def ensure_capacity_def next_capacity_def bit_count_1024
      ITEMS_MAX_SIZE_def blank_selector_def items_init_def unused_item_def zero_item_def Let_def)

lemma sel_inv_new:
  "sel_inv (blank_selector\<lparr>s_fds := replicate (Suc ITEMS_MAX_SIZE) unused_item\<rparr>)"
  "sel_map (blank_selector\<lparr>s_fds := replicate (Suc ITEMS_MAX_SIZE) unused_item\<rparr>) fd = None"
  by (auto simp: sel_inv_def sel_map_def sel_wanting_def blank_selector_def
      ITEMS_MAX_SIZE_def simp del: replicate.simps) (simp_all add: unused_item_def)

lemma sel_map_slot:
  assumes "sel_inv s" and "sel_map s fd = Some (i, h, d)"
  shows "0 \<le> fd" "nat fd < ITEMS_MAX_SIZE" "nat fd \<le> s_max_fd s" "\<not> invalid_fd fd"
    "item_used (s_fds s ! nat fd)" "it_fd (s_fds s ! nat fd) = fd"
    "it_interest (s_fds s ! nat fd) = i" "it_handler (s_fds s ! nat fd) = Some h"
    "it_data (s_fds s ! nat fd) = d"
  using assms by (auto simp: sel_inv_def sel_map_def invalid_fd_def split: if_splits)

lemma slot_sel_map:
  assumes "sel_inv s" and "i < length (s_fds s)" and "item_used (s_fds s ! i)"
  shows "\<exists>h. it_handler (s_fds s ! i) = Some h \<and>
    sel_map s (int i) = Some (it_interest (s_fds s ! i), h, it_data (s_fds s ! i))"
  using assms by (auto simp: sel_inv_def sel_map_def)

lemma unused_wants:
  "sel_inv s \<Longrightarrow> i < length (s_fds s) \<Longrightarrow> wants op (it_interest (s_fds s ! i)) \<Longrightarrow>
     item_used (s_fds s ! i)"
  by (auto simp: sel_inv_def wants_def)

text \<open>Writing one slot and refreshing the sets, as every operation does.\<close>

definition put_slot :: "nat \<Rightarrow> ('h, 'd) item \<Rightarrow> ('h, 'd) selector \<Rightarrow> ('h, 'd) selector" where
  "put_slot i it s = items_update_fdset_for_fd it (s\<lparr>s_fds := (s_fds s)[i := it]\<rparr>)"

lemma put_slot_fields [simp]:
  "s_fds (put_slot i it s) = (s_fds s)[i := it]"
  "s_max_fd (put_slot i it s) = s_max_fd s"
  "s_jobs (put_slot i it s) = s_jobs s"
  "s_slave_r (put_slot i it s) = s_slave_r s" "s_slave_w (put_slot i it s) = s_slave_w s"
  by (simp_all add: put_slot_def items_update_fdset_for_fd_def Let_def)

lemma put_slot_sets:
  assumes "i < length (s_fds s)" and "it_fd it = int i"
    and "s_master_r s = sel_wanting OP_READ s" and "s_master_w s = sel_wanting OP_WRITE s"
  shows "s_master_r (put_slot i it s) = sel_wanting OP_READ (put_slot i it s)"
    and "s_master_w (put_slot i it s) = sel_wanting OP_WRITE (put_slot i it s)"
  using assms
  by (auto simp: put_slot_def items_update_fdset_for_fd_def Let_def sel_wanting_def nth_list_update
      item_used_def FD_UNUSED_def split: if_splits)

section \<open>The operations on the map\<close>

lemma wants_noop [simp]: "\<not> wants op OP_NOOP"
  by (simp add: wants_def op_defs)

lemma register_law:
  assumes inv: "sel_inv s"
  shows "\<exists>s'. selector_register alloc mem fd h i d s =
      Some (if invalid_fd fd then SELECTOR_IARGS
            else if sel_map s fd \<noteq> None then SELECTOR_FDINUSE else SELECTOR_SUCCESS, s')
    \<and> sel_inv s' \<and> s_jobs s' = s_jobs s
    \<and> s_slave_r s' = s_slave_r s \<and> s_slave_w s' = s_slave_w s \<and> s_max_fd s \<le> s_max_fd s'
    \<and> sel_map s' = (if \<not> invalid_fd fd \<and> sel_map s fd = None
        then (sel_map s)(fd \<mapsto> (i, h, d)) else sel_map s)"
proof (cases "invalid_fd fd \<or> sel_map s fd \<noteq> None")
  case True
  have "selector_register alloc mem fd h i d s =
      Some (if invalid_fd fd then SELECTOR_IARGS else SELECTOR_FDINUSE, s)"
    using True inv sel_map_slot(5) [OF inv, of fd]
    by (auto simp: selector_register_def invalid_fd_def sel_inv_def Let_def)
  with True inv show ?thesis by auto
next
  case False
  let ?n = "nat fd"
  let ?it = "\<lparr>it_fd = fd, it_interest = i, it_handler = Some h, it_data = d\<rparr>"
  let ?m = "if ?n > s_max_fd s then ?n else s_max_fd s"
  let ?s = "(put_slot ?n ?it s)\<lparr>s_max_fd := ?m\<rparr>"
  have fd: "0 \<le> fd" "?n < ITEMS_MAX_SIZE" "?n < length (s_fds s)"
    using False inv by (auto simp: invalid_fd_def sel_inv_def)
  have used: "item_used ?it" using fd by (simp add: item_used_def FD_UNUSED_def)
  have "\<not> item_used (s_fds s ! ?n)"
    using False fd slot_sel_map [OF inv fd(3)] by (auto simp: invalid_fd_def)
  then have "selector_register alloc mem fd h i d s = Some (SELECTOR_SUCCESS, ?s)"
    using False fd inv
    by (auto simp: selector_register_def Let_def put_slot_def sel_inv_def
        items_update_fdset_for_fd_def)
  moreover have "sel_inv ?s"
    using inv fd used put_slot_sets [of ?n s ?it]
    by (auto simp: sel_inv_def nth_list_update sel_wanting_def)
  moreover have "sel_map ?s = (sel_map s)(fd \<mapsto> (i, h, d))"
    using fd by (auto simp: fun_eq_iff sel_map_def nth_list_update item_used_def FD_UNUSED_def)
  ultimately show ?thesis using False by auto
qed

lemma set_interest_law:
  assumes inv: "sel_inv s"
  shows "\<exists>s'. selector_set_interest fd i s =
      Some (if sel_map s fd = None then SELECTOR_IARGS else SELECTOR_SUCCESS, s')
    \<and> sel_inv s' \<and> s_jobs s' = s_jobs s
    \<and> s_slave_r s' = s_slave_r s \<and> s_slave_w s' = s_slave_w s \<and> s_max_fd s' = s_max_fd s
    \<and> sel_map s' = (case sel_map s fd of None \<Rightarrow> sel_map s
        | Some (_, h, d) \<Rightarrow> (sel_map s)(fd \<mapsto> (i, h, d)))"
proof (cases "sel_map s fd")
  case None
  then have "selector_set_interest fd i s = Some (SELECTOR_IARGS, s)"
    using inv slot_sel_map [OF inv, of "nat fd"]
    by (auto simp: selector_set_interest_def invalid_fd_def sel_inv_def)
  with None inv show ?thesis by auto
next
  case (Some r)
  then obtain j h d where r: "sel_map s fd = Some (j, h, d)" by (cases r) auto
  note slot = sel_map_slot [OF inv r]
  let ?n = "nat fd"
  let ?it = "(s_fds s ! ?n)\<lparr>it_interest := i\<rparr>"
  let ?s = "put_slot ?n ?it s"
  have len: "?n < length (s_fds s)" using slot(2) inv by (simp add: sel_inv_def)
  have used: "item_used ?it" using slot(5) by (simp add: item_used_def)
  have "selector_set_interest fd i s = Some (SELECTOR_SUCCESS, ?s)"
    using slot len by (simp add: selector_set_interest_def Let_def put_slot_def)
  moreover have "sel_inv ?s"
    using inv len slot used put_slot_sets [of ?n s ?it]
    by (auto simp: sel_inv_def nth_list_update)
  moreover have "sel_map ?s = (sel_map s)(fd \<mapsto> (i, h, d))"
    using slot len used by (auto simp: fun_eq_iff sel_map_def nth_list_update)
  ultimately show ?thesis using r by auto
qed

lemma max_fd_loop_props:
  "m \<le> max_fd_loop is m"
  "i \<in> set is \<Longrightarrow> item_used i \<Longrightarrow> it_fd i \<le> max_fd_loop is m"
  "max_fd_loop is m = m \<or> (\<exists>i \<in> set is. item_used i \<and> max_fd_loop is m = it_fd i)"
proof -
  show ge: "m \<le> max_fd_loop is m" for "is" m
    by (induction "is" m rule: max_fd_loop.induct) (auto split: if_splits)
  show "i \<in> set is \<Longrightarrow> item_used i \<Longrightarrow> it_fd i \<le> max_fd_loop is m"
    by (induction "is" m rule: max_fd_loop.induct) (auto split: if_splits intro: order_trans [OF _ ge])
  show "max_fd_loop is m = m \<or> (\<exists>i \<in> set is. item_used i \<and> max_fd_loop is m = it_fd i)"
    by (induction "is" m rule: max_fd_loop.induct) auto
qed

lemma items_max_fd_law:
  assumes "s_max_fd s < length (s_fds s)"
    and "\<forall>i < length (s_fds s). item_used (s_fds s ! i) \<longrightarrow>
      it_fd (s_fds s ! i) = int i \<and> i \<le> s_max_fd s"
  shows "\<exists>m. items_max_fd s = Some m \<and> m \<le> s_max_fd s
    \<and> (\<forall>i < length (s_fds s). item_used (s_fds s ! i) \<longrightarrow> i \<le> m)"
proof -
  let ?is = "take (Suc (s_max_fd s)) (s_fds s)"
  let ?m = "max_fd_loop ?is 0"
  have "nat ?m \<le> s_max_fd s"
    using max_fd_loop_props(3) [of ?is 0] assms
    by (auto simp: in_set_conv_nth)
  moreover have "i \<le> nat ?m" if "i < length (s_fds s)" "item_used (s_fds s ! i)" for i
  proof -
    have "i \<le> s_max_fd s" "it_fd (s_fds s ! i) = int i" using assms(2) that by auto
    moreover from this have "s_fds s ! i \<in> set ?is"
      using assms(1) by (auto simp: in_set_conv_nth intro!: exI [of _ i])
    ultimately show ?thesis
      using max_fd_loop_props(2) [of "s_fds s ! i" ?is 0] that(2) by simp
  qed
  ultimately show ?thesis using assms(1) by (auto simp: items_max_fd_def)
qed

text \<open>Unregistering, when the callback leaves the selector alone, as all those of the program do.\<close>

lemma unregister_law:
  assumes inv: "sel_inv s"
    and close: "\<And>i h d. sel_map s fd = Some (i, h, d) \<Longrightarrow>
      (case close_of h of None \<Rightarrow> x' = x | Some f \<Rightarrow> f (fd, d) (s, x) = Some (s, x'))"
  shows "\<exists>s'. selector_unregister_fd close_of fd (s, x) =
      Some (if sel_map s fd = None then SELECTOR_IARGS else SELECTOR_SUCCESS, s',
            if sel_map s fd = None then x else x')
    \<and> sel_inv s' \<and> s_jobs s' = s_jobs s
    \<and> s_slave_r s' = s_slave_r s \<and> s_slave_w s' = s_slave_w s
    \<and> sel_map s' = (sel_map s)(fd := None)"
proof (cases "sel_map s fd")
  case None
  then have "selector_unregister_fd close_of fd (s, x) = Some (SELECTOR_IARGS, s, x)"
    using inv slot_sel_map [OF inv, of "nat fd"]
    by (auto simp: selector_unregister_fd_def invalid_fd_def sel_inv_def Let_def)
  with None inv show ?thesis by (auto simp: fun_upd_idem)
next
  case (Some r)
  then obtain j h d where r: "sel_map s fd = Some (j, h, d)" by (cases r) auto
  note slot = sel_map_slot [OF inv r]
  let ?n = "nat fd"
  let ?it = "(s_fds s ! ?n)\<lparr>it_interest := OP_NOOP\<rparr>"
  let ?s1 = "put_slot ?n ?it s"
  let ?s = "?s1\<lparr>s_fds := (s_fds s)[?n := unused_item]\<rparr>"
  have len: "?n < length (s_fds s)" using slot(2) inv by (simp add: sel_inv_def)
  have eq: "?s = items_update_fdset_for_fd ?it s\<lparr>s_fds := (s_fds s)[?n := unused_item]\<rparr>"
    by (simp add: put_slot_def items_update_fdset_for_fd_def Let_def)
  have fds: "s_fds (items_update_fdset_for_fd it s) = s_fds s" for it and s :: "('h, 'd) selector"
    by (simp add: items_update_fdset_for_fd_def Let_def)
  have slots: "\<forall>i < length (s_fds ?s). item_used (s_fds ?s ! i) \<longrightarrow>
      it_fd (s_fds ?s ! i) = int i \<and> it_handler (s_fds ?s ! i) \<noteq> None \<and> i \<le> s_max_fd s"
    using inv len by (auto simp: sel_inv_def nth_list_update split: if_splits)
  have max: "s_max_fd ?s < length (s_fds ?s)" using inv by (simp add: sel_inv_def)
  obtain m where m: "items_max_fd ?s = Some m" "m \<le> s_max_fd ?s"
    "\<forall>i < length (s_fds ?s). item_used (s_fds ?s ! i) \<longrightarrow> i \<le> m"
    using items_max_fd_law [OF max] slots by auto
  have "(case close_of h of None \<Rightarrow> Some (s, x)
      | Some f \<Rightarrow> f (it_fd (s_fds s ! ?n), it_data (s_fds s ! ?n)) (s, x)) = Some (s, x')"
    using close [OF r] slot(6,9) by (auto split: option.splits)
  then have "selector_unregister_fd close_of fd (s, x) = Some (SELECTOR_SUCCESS, ?s\<lparr>s_max_fd := m\<rparr>, x')"
    using slot len m(1) unfolding eq by (simp add: selector_unregister_fd_def Let_def fds)
  moreover have "sel_inv (?s\<lparr>s_max_fd := m\<rparr>)"
  proof -
    have "sel_wanting op ?s = sel_wanting op ?s1" for op
      using len by (auto simp: sel_wanting_def nth_list_update)
    moreover have "s_master_r ?s1 = sel_wanting OP_READ ?s1" "s_master_w ?s1 = sel_wanting OP_WRITE ?s1"
      using put_slot_sets [OF len, of ?it] slot inv by (auto simp: sel_inv_def)
    moreover have "sel_wanting op (?s\<lparr>s_max_fd := m\<rparr>) = sel_wanting op ?s" for op
      by (simp add: sel_wanting_def)
    moreover have "\<forall>i < length (s_fds ?s). \<not> item_used (s_fds ?s ! i) \<longrightarrow> it_interest (s_fds ?s ! i) = 0"
      using inv len by (auto simp: sel_inv_def nth_list_update unused_item_def split: if_splits)
    moreover have "length (s_fds ?s) = Suc ITEMS_MAX_SIZE" "m < ITEMS_MAX_SIZE"
      using inv m(2) by (simp_all add: sel_inv_def)
    ultimately show ?thesis
      using slots m(3) unfolding sel_inv_def by simp
  qed
  moreover have "sel_map (?s\<lparr>s_max_fd := m\<rparr>) = (sel_map s)(fd := None)"
    using len slot(1) by (auto simp: fun_eq_iff sel_map_def nth_list_update)
  ultimately show ?thesis using r by auto
qed

section \<open>The interfaces\<close>

text \<open>What the users of the multiplexer rely on when they register descriptors and change
  interests: a finite map, in which the operations that succeed write one entry.\<close>

locale fd_table =
  fixes inv :: "'t \<Rightarrow> bool"
    and entry :: "'t \<Rightarrow> int \<Rightarrow> ('h, 'd) registration option"
    and valid :: "int \<Rightarrow> bool"
    and reg :: "int \<Rightarrow> 'h \<Rightarrow> fd_interest \<Rightarrow> 'd option \<Rightarrow> 't \<Rightarrow> (selector_status \<times> 't) option"
    and set_interest :: "int \<Rightarrow> fd_interest \<Rightarrow> 't \<Rightarrow> (selector_status \<times> 't) option"
  assumes reg: "inv t \<Longrightarrow> \<exists>t'. reg fd h i d t =
        Some (if \<not> valid fd then SELECTOR_IARGS
              else if entry t fd \<noteq> None then SELECTOR_FDINUSE else SELECTOR_SUCCESS, t')
      \<and> inv t' \<and> entry t' = (if valid fd \<and> entry t fd = None then (entry t)(fd \<mapsto> (i, h, d)) else entry t)"
    and set_interest: "inv t \<Longrightarrow> \<exists>t'. set_interest fd i t =
        Some (if entry t fd = None then SELECTOR_IARGS else SELECTOR_SUCCESS, t')
      \<and> inv t' \<and> entry t' = (case entry t fd of None \<Rightarrow> entry t
          | Some (_, h, d) \<Rightarrow> (entry t)(fd \<mapsto> (i, h, d)))"
    and entry_valid: "inv t \<Longrightarrow> entry t fd \<noteq> None \<Longrightarrow> valid fd"
begin

text \<open>Registering twice fails the second time and changes nothing.\<close>

lemma reg_twice:
  assumes "inv t" and "reg fd h i d t = Some (SELECTOR_SUCCESS, t1)"
  shows "\<exists>t2. reg fd h' i' d' t1 = Some (SELECTOR_FDINUSE, t2) \<and> entry t2 = entry t1"
  using reg [OF assms(1), of fd h i d] reg [of t1 fd h' i' d'] assms(2)
  by (auto split: if_splits)

text \<open>The last interest set is the one in force, whatever other descriptors do.\<close>

lemma interest_in_force:
  assumes "inv t" and "entry t fd = Some (j, h, d)" and "set_interest fd i t = Some (r, t1)"
    and "fd' \<noteq> fd" and "set_interest fd' i' t1 = Some (r', t2)"
  shows "r = SELECTOR_SUCCESS \<and> entry t2 fd = Some (i, h, d)"
proof -
  have t1: "r = SELECTOR_SUCCESS" "inv t1" "entry t1 fd = Some (i, h, d)"
    using set_interest [OF assms(1), of fd i] assms(2,3) by auto
  have "entry t2 = (case entry t1 fd' of None \<Rightarrow> entry t1
      | Some (_, h, d) \<Rightarrow> (entry t1)(fd' \<mapsto> (i', h, d)))"
    using set_interest [OF t1(2), of fd' i'] assms(5) by auto
  with t1 assms(4) show ?thesis by (auto split: option.splits)
qed

end

interpretation fdt: fd_table sel_inv sel_map "\<lambda>fd. \<not> invalid_fd fd" "selector_register alloc mem"
  selector_set_interest
proof
  fix s :: "('a, 'b) selector" and fd h i d
  assume inv: "sel_inv s"
  show "\<exists>t'. selector_register alloc mem fd h i d s =
        Some (if \<not> \<not> invalid_fd fd then SELECTOR_IARGS
              else if sel_map s fd \<noteq> None then SELECTOR_FDINUSE else SELECTOR_SUCCESS, t')
      \<and> sel_inv t' \<and> sel_map t' = (if \<not> invalid_fd fd \<and> sel_map s fd = None
          then (sel_map s)(fd \<mapsto> (i, h, d)) else sel_map s)"
    using register_law [OF inv, of alloc mem fd h i d] by (simp only: not_not) blast
  show "\<exists>t'. selector_set_interest fd i s =
        Some (if sel_map s fd = None then SELECTOR_IARGS else SELECTOR_SUCCESS, t')
      \<and> sel_inv t' \<and> sel_map t' = (case sel_map s fd of None \<Rightarrow> sel_map s
          | Some (_, h, d) \<Rightarrow> (sel_map s)(fd \<mapsto> (i, h, d)))"
    using set_interest_law [OF inv, of fd i] by blast
  show "sel_map s fd \<noteq> None \<Longrightarrow> \<not> invalid_fd fd"
    using sel_map_slot(4) [OF inv] by auto
qed

text \<open>
  What a program must guarantee of its callbacks: for every registration the callback of each
  wanted operation exists, does not fault, keeps the invariant of the program and, if the
  descriptor is still registered afterwards, has not handed it to another owner. The invariant is
  relative to the notifications still to be handled.
\<close>

locale event_client =
  fixes tbl :: "'h \<Rightarrow> ('d, ('h, 'd) selector \<times> 's) fd_handler"
    and inv :: "int list \<Rightarrow> ('h, 'd) selector \<times> 's \<Rightarrow> bool"
  assumes sel_law: "inv js st \<Longrightarrow> sel_inv (fst st)"
    and slaves_law: "inv js (s, x) \<Longrightarrow> inv js (s\<lparr>s_slave_r := r, s_slave_w := w\<rparr>, x)"
    and jobs_law: "inv js (s, x) \<Longrightarrow> inv js (s\<lparr>s_jobs := k\<rparr>, x)"
    and read_law: "inv js st \<Longrightarrow> sel_map (fst st) fd = Some (i, h, d) \<Longrightarrow> wants OP_READ i \<Longrightarrow>
      \<exists>f st'. handle_read (tbl h) = Some f \<and> f (fd, d) st = Some st' \<and> inv js st'
        \<and> s_jobs (fst st') = s_jobs (fst st)
        \<and> (\<forall>i' h' d'. sel_map (fst st') fd = Some (i', h', d') \<longrightarrow> h' = h \<and> d' = d)"
    and write_law: "inv js st \<Longrightarrow> sel_map (fst st) fd = Some (i, h, d) \<Longrightarrow> wants OP_WRITE i \<Longrightarrow>
      \<exists>f st'. handle_write (tbl h) = Some f \<and> f (fd, d) st = Some st' \<and> inv js st'
        \<and> s_jobs (fst st') = s_jobs (fst st)"
    and block_law: "inv (fd # js) st \<Longrightarrow> sel_map (fst st) fd = Some (i, h, d) \<Longrightarrow>
      \<exists>f st'. handle_block (tbl h) = Some f \<and> f (fd, d) st = Some st' \<and> inv js st'
        \<and> s_jobs (fst st') = s_jobs (fst st)"
    and block_gone: "inv (fd # js) st \<Longrightarrow> sel_map (fst st) fd = None \<Longrightarrow> inv js st"
    and job_fd: "inv (fd # js) st \<Longrightarrow> \<not> invalid_fd fd"
begin

lemma item_step:
  assumes inv: "inv js st" and i: "i \<le> ITEMS_MAX_SIZE"
  shows "\<exists>st'. handle_item tbl i st = Some st' \<and> inv js st' \<and> s_jobs (fst st') = s_jobs (fst st)"
proof (cases "item_used (s_fds (fst st) ! i)")
  case False
  then show ?thesis using inv i sel_law [OF inv] by (simp add: handle_item_def sel_inv_def)
next
  case used: True
  let ?it = "s_fds (fst st) ! i"
  have len: "i < length (s_fds (fst st'))" if "inv js st'" for st'
    using sel_law [OF that] i by (simp add: sel_inv_def)
  obtain h where h: "it_handler ?it = Some h"
    "sel_map (fst st) (int i) = Some (it_interest ?it, h, it_data ?it)"
    using slot_sel_map [OF sel_law [OF inv] len [OF inv] used] by blast
  have fd: "it_fd ?it = int i" using sel_map_slot(6) [OF sel_law [OF inv] h(2)] by simp
  define st1 where "st1 = (if nat (it_fd ?it) \<in> s_slave_r (fst st) \<and> wants OP_READ (it_interest ?it)
      then do { h \<leftarrow> it_handler ?it; f \<leftarrow> handle_read (tbl h); f (it_fd ?it, it_data ?it) st }
      else Some st)"
  have "\<exists>st'. st1 = Some st' \<and> inv js st' \<and> s_jobs (fst st') = s_jobs (fst st)
      \<and> (\<forall>i' h' d'. sel_map (fst st') (int i) = Some (i', h', d') \<longrightarrow> h' = h \<and> d' = it_data ?it)"
  proof (cases "nat (it_fd ?it) \<in> s_slave_r (fst st) \<and> wants OP_READ (it_interest ?it)")
    case True
    with read_law [OF inv h(2)] h(1) fd show ?thesis by (auto simp: st1_def)
  next
    case False
    with inv h(2) show ?thesis by (intro exI [of _ st]) (auto simp: st1_def)
  qed
  then obtain st' where st': "st1 = Some st'" "inv js st'" "s_jobs (fst st') = s_jobs (fst st)"
    "\<And>i' h' d'. sel_map (fst st') (int i) = Some (i', h', d') \<Longrightarrow> h' = h \<and> d' = it_data ?it"
    by blast
  let ?it' = "s_fds (fst st') ! i"
  define st2 where "st2 = (if i \<in> s_slave_w (fst st') \<and> wants OP_WRITE (it_interest ?it')
      then do { h \<leftarrow> it_handler ?it'; f \<leftarrow> handle_write (tbl h); f (it_fd ?it, it_data ?it) st' }
      else Some st')"
  have step: "handle_item tbl i st = st2"
    using used len [OF inv] len [OF st'(2)] st'(1)
    by (simp add: handle_item_def Let_def st1_def [symmetric] st2_def)
  show ?thesis
  proof (cases "i \<in> s_slave_w (fst st') \<and> wants OP_WRITE (it_interest ?it')")
    case True
    have "item_used ?it'" using True unused_wants [OF sel_law [OF st'(2)] len [OF st'(2)]] by blast
    then obtain h' where h': "it_handler ?it' = Some h'"
      "sel_map (fst st') (int i) = Some (it_interest ?it', h', it_data ?it')"
      using slot_sel_map [OF sel_law [OF st'(2)] len [OF st'(2)]] by blast
    with st'(4) have "h' = h" "it_data ?it' = it_data ?it" by blast+
    with write_law [OF st'(2) h'(2)] True h' st'(3) fd step show ?thesis by (auto simp: st2_def)
  next
    case False
    with step st' show ?thesis by (simp add: st2_def)
  qed
qed

lemma items_step:
  "inv js st \<Longrightarrow> \<forall>i \<in> set is. i \<le> ITEMS_MAX_SIZE \<Longrightarrow>
     \<exists>st'. handle_items tbl is st = Some st' \<and> inv js st' \<and> s_jobs (fst st') = s_jobs (fst st)"
proof (induction "is" arbitrary: st)
  case (Cons i "is")
  then obtain st1 where "handle_item tbl i st = Some st1" "inv js st1" "s_jobs (fst st1) = s_jobs (fst st)"
    using item_step [of js st i] by auto
  with Cons.IH [of st1] Cons.prems(2) show ?case by auto
qed simp

lemma iteration_step:
  assumes "inv js st"
  shows "\<exists>st'. handle_iteration tbl st = Some st' \<and> inv js st' \<and> s_jobs (fst st') = s_jobs (fst st)"
  using items_step [OF assms, of "[0..<Suc (s_max_fd (fst st))]"] sel_law [OF assms]
  by (auto simp: handle_iteration_def sel_inv_def)

lemma jobs_step:
  "inv js st \<Longrightarrow> \<exists>st'. handle_jobs tbl js st = Some st' \<and> inv [] st'"
proof (induction js arbitrary: st)
  case (Cons j js)
  have valid: "\<not> j < 0" "nat j < length (s_fds (fst st))"
    using job_fd [OF Cons.prems] sel_law [OF Cons.prems] by (auto simp: invalid_fd_def sel_inv_def)
  have "\<exists>st'. handle_job tbl j st = Some st' \<and> inv js st'"
  proof (cases "item_used (s_fds (fst st) ! nat j)")
    case True
    let ?it = "s_fds (fst st) ! nat j"
    obtain h where h: "it_handler ?it = Some h"
      "sel_map (fst st) j = Some (it_interest ?it, h, it_data ?it)"
      using slot_sel_map [OF sel_law [OF Cons.prems] valid(2) True] valid(1) by auto
    then show ?thesis
      using block_law [OF Cons.prems h(2)] valid True
        sel_map_slot(6) [OF sel_law [OF Cons.prems] h(2)]
      by (auto simp: handle_job_def Let_def)
  next
    case False
    then have "sel_map (fst st) j = None" by (simp add: sel_map_def)
    with False valid show ?thesis
      using block_gone [OF Cons.prems] by (simp add: handle_job_def)
  qed
  with Cons.IH show ?case by fastforce
qed simp

lemma block_step:
  assumes "inv (s_jobs (fst st)) st"
  shows "\<exists>st'. handle_block_notifications tbl st = Some st' \<and> inv [] st' \<and> s_jobs (fst st') = []"
proof -
  obtain s x where "handle_jobs tbl (s_jobs (fst st)) st = Some (s, x)" "inv [] (s, x)"
    using jobs_step [OF assms] by auto
  then show ?thesis using jobs_law [of "[]" s x "[]"] by (auto simp: handle_block_notifications_def)
qed

text \<open>One turn of the event loop never faults, whatever \<open>pselect\<close> answers, and keeps the
  invariant; unless \<open>pselect\<close> fails, no notification is left over.\<close>

lemma select_step:
  assumes "inv (s_jobs (fst st)) st"
  shows "\<exists>r st'. selector_select tbl answer st = Some (r, st') \<and> inv (s_jobs (fst st')) st'
    \<and> (r = SELECTOR_SUCCESS \<longrightarrow> s_jobs (fst st') = [])"
proof -
  obtain s x where st: "st = (s, x)" by (cases st)
  have inv: "inv (s_jobs s) (s\<lparr>s_slave_r := r, s_slave_w := w\<rparr>, x)" for r w
    using assms slaves_law [where js = "s_jobs s" and s = s and x = x and r = r and w = w] st by simp
  show ?thesis
  proof (cases answer)
    case (PselectError e)
    show ?thesis
    proof (cases "e = EAGAIN \<or> e = EINTR")
      case True
      let ?s = "s\<lparr>s_slave_r := s_master_r s, s_slave_w := s_master_w s\<rparr>"
      have "inv (s_jobs (fst (?s, x))) (?s, x)" using inv by simp
      from block_step [OF this] True PselectError st show ?thesis
        by (auto simp: selector_select_def Let_def)
    next
      case False
      with PselectError st inv show ?thesis by (auto simp: selector_select_def Let_def)
    qed
  next
    case (PselectReady r w)
    let ?s = "s\<lparr>s_slave_r := s_master_r s, s_slave_w := s_master_w s\<rparr>\<lparr>s_slave_r := r, s_slave_w := w\<rparr>"
    have "inv (s_jobs s) (?s, x)" using inv by simp
    from iteration_step [OF this] obtain st1 where st1: "handle_iteration tbl (?s, x) = Some st1"
      "inv (s_jobs s) st1" "s_jobs (fst st1) = s_jobs s" by auto
    then have "inv (s_jobs (fst st1)) st1" by simp
    from block_step [OF this] st1(1) PselectReady st show ?thesis
      by (auto simp: selector_select_def Let_def)
  qed
qed

end

section \<open>Properties\<close>

text \<open>Sequences of operations, as the program's set-up and handlers make them, on the table and on
  a finite map. The callbacks that \<open>selector_unregister_fd\<close> runs are those of handlers without a
  \<open>handle_close\<close>.\<close>

datatype ('h, 'd) sel_op = Register int 'h fd_interest "'d option" | SetInterest int fd_interest
  | Unregister int

fun sel_step :: "bool \<Rightarrow> ('h, 'd) item \<Rightarrow> ('h, 'd) sel_op \<Rightarrow> ('h, 'd) selector \<Rightarrow>
    (selector_status \<times> ('h, 'd) selector) option" where
  "sel_step alloc mem (Register fd h i d) s = selector_register alloc mem fd h i d s"
| "sel_step alloc mem (SetInterest fd i) s = selector_set_interest fd i s"
| "sel_step alloc mem (Unregister fd) s =
     map_option (\<lambda>(r, s, u). (r, s)) (selector_unregister_fd (\<lambda>h. None) fd (s, ()))"

fun map_step :: "('h, 'd) sel_op \<Rightarrow> (int \<Rightarrow> ('h, 'd) registration option) \<Rightarrow>
    selector_status \<times> (int \<Rightarrow> ('h, 'd) registration option)" where
  "map_step (Register fd h i d) m =
     (if fd < 0 \<or> 1024 \<le> fd then (SELECTOR_IARGS, m)
      else if m fd \<noteq> None then (SELECTOR_FDINUSE, m)
      else (SELECTOR_SUCCESS, m(fd \<mapsto> (i, h, d))))"
| "map_step (SetInterest fd i) m =
     (case m fd of None \<Rightarrow> (SELECTOR_IARGS, m)
      | Some (_, h, d) \<Rightarrow> (SELECTOR_SUCCESS, m(fd \<mapsto> (i, h, d))))"
| "map_step (Unregister fd) m =
     (if m fd = None then (SELECTOR_IARGS, m) else (SELECTOR_SUCCESS, m(fd := None)))"

primrec sel_run :: "bool \<Rightarrow> ('h, 'd) item \<Rightarrow> ('h, 'd) sel_op list \<Rightarrow> ('h, 'd) selector \<Rightarrow>
    (selector_status list \<times> ('h, 'd) selector) option" where
  "sel_run alloc mem [] s = Some ([], s)"
| "sel_run alloc mem (x # xs) s = do {
     (r, s) \<leftarrow> sel_step alloc mem x s;
     (rs, s) \<leftarrow> sel_run alloc mem xs s;
     Some (r # rs, s)
   }"

primrec map_run :: "('h, 'd) sel_op list \<Rightarrow> (int \<Rightarrow> ('h, 'd) registration option) \<Rightarrow>
    selector_status list \<times> (int \<Rightarrow> ('h, 'd) registration option)" where
  "map_run [] m = ([], m)"
| "map_run (x # xs) m =
     (let (r, m) = map_step x m; (rs, m) = map_run xs m in (r # rs, m))"

lemma sel_step_law:
  assumes "sel_inv s"
  shows "\<exists>r s'. sel_step alloc mem x s = Some (r, s') \<and> sel_inv s' \<and> map_step x (sel_map s) = (r, sel_map s')"
proof (cases x)
  case (Register fd h i d)
  then show ?thesis
    using register_law [OF assms, of alloc mem fd h i d]
    by (auto simp: invalid_fd_def ITEMS_MAX_SIZE_def)
next
  case (SetInterest fd i)
  then show ?thesis using set_interest_law [OF assms, of fd i] by (auto split: option.splits)
next
  case (Unregister fd)
  then show ?thesis
    using unregister_law [OF assms, where fd = fd and close_of = "\<lambda>h. None" and x = "()" and x' = "()"] by (auto simp: fun_upd_idem)
qed

lemma sel_run_law:
  "sel_inv s \<Longrightarrow> \<exists>rs s'. sel_run alloc mem xs s = Some (rs, s') \<and> sel_inv s'
     \<and> map_run xs (sel_map s) = (rs, sel_map s')"
proof (induction xs arbitrary: s)
  case (Cons x xs)
  obtain r s1 where 1: "sel_step alloc mem x s = Some (r, s1)" "sel_inv s1"
    "map_step x (sel_map s) = (r, sel_map s1)"
    using sel_step_law [OF Cons.prems] by blast
  from Cons.IH [OF 1(2)] 1 show ?case by auto
qed simp

text \<open>C35: on the table the program creates, \<open>selector_new(1024)\<close>, every sequence of registrations,
  interest changes and removals returns the results and leaves the registrations of the same
  sequence on a finite map over the descriptors 0 to 1023, and the sets given to \<open>pselect\<close> are
  exactly the descriptors of that map with the interest.\<close>

theorem selector_refines_map:
  "\<exists>s0 rs s. selector_new True True mem 1024 = Some (Some s0)
    \<and> sel_run alloc mem' xs s0 = Some (rs, s) \<and> map_run xs Map.empty = (rs, sel_map s)
    \<and> s_master_r s = {n. \<exists>i h d. sel_map s (int n) = Some (i, h, d) \<and> wants OP_READ i}
    \<and> s_master_w s = {n. \<exists>i h d. sel_map s (int n) = Some (i, h, d) \<and> wants OP_WRITE i}"
proof -
  let ?s0 = "blank_selector\<lparr>s_fds := replicate (Suc ITEMS_MAX_SIZE) unused_item\<rparr>"
  have empty: "sel_map ?s0 = Map.empty" by (rule ext) (rule sel_inv_new(2))
  obtain rs s where s: "sel_run alloc mem' xs ?s0 = Some (rs, s)" "sel_inv s"
    "map_run xs Map.empty = (rs, sel_map s)"
    using sel_run_law [OF sel_inv_new(1), of alloc mem' xs] unfolding empty by blast
  have "sel_wanting op s = {n. \<exists>i h d. sel_map s (int n) = Some (i, h, d) \<and> wants op i}" for op
    using slot_sel_map [OF s(2)] by (fastforce simp: sel_wanting_def sel_map_def split: if_splits)
  with s show ?thesis using selector_new_ok [of mem] by (auto simp: sel_inv_def)
qed


end
