(* ===== verification/Netutils.thy ===== *)
theory Netutils
  imports Buffer Os
begin

text \<open>
  \<open>src/netutils.h\<close>, \<open>src/netutils.c\<close>: the printed form of a socket address, and the two blocking
  copy helpers. The first works on a caller-supplied array of which \<open>buffsize\<close> bytes may be used;
  a write behind the array is \<^const>\<open>None\<close>.
\<close>

section \<open>The code\<close>

definition SOCKADDR_TO_HUMAN_MIN :: nat where "SOCKADDR_TO_HUMAN_MIN = 46 + 5 + 1"

text \<open>Writing \<open>xs\<close> at \<open>off\<close> into an array\<close>

definition write_at :: "byte list \<Rightarrow> nat \<Rightarrow> byte list \<Rightarrow> byte list option" where
  "write_at arr off xs = (if off + length xs \<le> length arr then Some (memcpy_at arr off xs) else None)"

text \<open>\<open>strncpy(dst, src, n)\<close> of a C string, \<open>strncat(dst, src, n)\<close> and \<open>snprintf(dst + off, n, "%d", v)\<close>\<close>

definition c_strncpy :: "byte list \<Rightarrow> byte list \<Rightarrow> nat \<Rightarrow> byte list option" where
  "c_strncpy dst src n =
     write_at dst 0 (take n (cstr src) @ replicate (n - length (take n (cstr src))) 0)"

definition c_strncat :: "byte list \<Rightarrow> byte list \<Rightarrow> nat \<Rightarrow> byte list option" where
  "c_strncat dst src n = write_at dst (strlen dst) (take n (cstr src) @ [0])"

definition c_snprintf_u :: "byte list \<Rightarrow> nat \<Rightarrow> nat \<Rightarrow> nat \<Rightarrow> byte list option" where
  "c_snprintf_u dst off n v =
     (if n = 0 then Some dst else write_at dst off (take (n - 1) (show_nat v) @ [0]))"

text \<open>\<open>inet_ntop\<close>: fails when the text and its NUL do not fit into \<open>n\<close> bytes.\<close>

definition c_inet_ntop :: "'w os \<Rightarrow> sockaddr \<Rightarrow> byte list \<Rightarrow> nat \<Rightarrow> (bool \<times> byte list) option" where
  "c_inet_ntop os a dst n =
     (if length (os_inet_ntop os a) + 1 \<le> n
      then map_option (Pair True) (write_at dst 0 (os_inet_ntop os a @ [0]))
      else Some (False, dst))"

fun addr_port :: "sockaddr \<Rightarrow> u16" where
  "addr_port (SockIn p a) = p" | "addr_port (SockIn6 p a) = p" | "addr_port (SockOther p a) = p"

definition sockaddr_to_human ::
    "'w os \<Rightarrow> byte list \<Rightarrow> nat \<Rightarrow> sockaddr option \<Rightarrow> byte list option" where
  "sockaddr_to_human os buff buffsize addr =
     (case addr of
        None \<Rightarrow> c_strncpy buff (ascii ''null'') buffsize
      | Some a \<Rightarrow>
          let handled = (sa_family a = AF_INET \<or> sa_family a = AF_INET6) in do {
            buff \<leftarrow> (if handled
              then do {
                (ok, buff) \<leftarrow> c_inet_ntop os a buff buffsize;
                if ok then Some buff
                else do {
                  buff \<leftarrow> c_strncpy buff (ascii ''unknown ip'') buffsize;
                  write_at buff (buffsize - 1) [0]
                }
              }
              else c_strncpy buff (ascii ''unknown'') buffsize);
            buff \<leftarrow> c_strncat buff (ascii '':'') buffsize;
            buff \<leftarrow> write_at buff (buffsize - 1) [0];
            let len = strlen buff;
            buff \<leftarrow> (if handled then c_snprintf_u buff len (buffsize - len) (unat (addr_port a))
                     else Some buff);
            write_at buff (buffsize - 1) [0]
          })"

text \<open>\<open>sock_blocking_write\<close>: 0, or \<open>errno\<close>. A \<open>send\<close> that returns 0 leaves an old \<open>errno\<close>, an
  argument here. The loop has no end when \<open>send\<close> never accepts anything else than a positive number
  of bytes, so the recursion is on the bytes left.\<close>

function sock_blocking_write :: "'w os \<Rightarrow> errno \<Rightarrow> int \<Rightarrow> buffer \<Rightarrow> 'w \<Rightarrow> (errno \<times> buffer \<times> 'w) option" where
  "sock_blocking_write os err fd b w =
     (case buffer_read_ptr b of None \<Rightarrow> None
      | Some (p, n) \<Rightarrow>
          (case os_send os fd (buffer_peek b p n) w of
             (Inl e, w) \<Rightarrow> Some (e, b, w)
           | (Inr m, w) \<Rightarrow>
               if m = 0 then Some (err, b, w)
               else (case buffer_read_adv b (int m) of None \<Rightarrow> None
                 | Some b' \<Rightarrow>
                     if buffer_can_read b' then sock_blocking_write os err fd b' w
                     else Some (ENOERROR, b', w))))"
  by pat_completeness auto
termination
  by (relation "measure (\<lambda>(os, err, fd, b, w). b_write b - b_read b)")
    (auto simp: buffer_read_ptr_def buffer_read_adv_def buffer_compact_def buffer_can_read_def Let_def
      split: if_splits)

text \<open>\<open>sock_blocking_copy\<close>: the inner loop sends what one \<open>recv\<close> has delivered; \<^const>\<open>None\<close> is that it
  has sent everything, otherwise the result is \<open>errno\<close>. The outer loop ends when the stream does.\<close>

function copy_chunk :: "'w os \<Rightarrow> errno \<Rightarrow> int \<Rightarrow> byte list \<Rightarrow> 'w \<Rightarrow> errno option \<times> 'w" where
  "copy_chunk os err dest bs w =
     (case os_send os dest bs w of
        (Inl e, w) \<Rightarrow> (Some e, w)
      | (Inr m, w) \<Rightarrow>
          if m = 0 then (Some err, w)
          else if m < length bs then copy_chunk os err dest (drop m bs) w
          else (None, w))"
  by pat_completeness auto
termination
  by (relation "measure (\<lambda>(os, err, dest, bs, w). length bs)") auto

partial_function (option) sock_blocking_copy :: "'w os \<Rightarrow> errno \<Rightarrow> int \<Rightarrow> int \<Rightarrow> 'w \<Rightarrow> (errno \<times> 'w) option" where
  "sock_blocking_copy os err source dest w =
     (case os_recv os source 4096 w of
        (Inl e, w) \<Rightarrow> Some (ENOERROR, w)
      | (Inr bs, w) \<Rightarrow>
          if bs = [] then Some (ENOERROR, w)
          else (case copy_chunk os err dest bs w of
             (Some e, w) \<Rightarrow> Some (e, w)
           | (None, w) \<Rightarrow> sock_blocking_copy os err source dest w))"

section \<open>What is written\<close>

lemma cstr_write_at:
  assumes "write_at arr off (xs @ [0]) = Some arr'" and "off \<le> strlen arr" and "0 \<notin> set xs"
  shows "cstr arr' = take off (cstr arr) @ xs" and "length arr' = length arr"
proof -
  have arr': "arr' = take off arr @ (xs @ [0]) @ drop (off + length (xs @ [0])) arr"
    and fits: "off + length (xs @ [0]) \<le> length arr"
    using assms(1) by (auto simp: write_at_def memcpy_at_def split: if_splits)
  have "take off arr = take off (cstr arr)"
    using assms(2) unfolding cstr_def strlen_def
    by (metis takeWhile_eq_take take_take min.absorb1)
  moreover have "0 \<notin> set (take off (cstr arr))" by (meson in_set_takeD nul_notin_cstr)
  ultimately have "arr' = (take off (cstr arr) @ xs) @ 0 # drop (off + length (xs @ [0])) arr"
    using arr' by simp
  moreover have "0 \<notin> set (take off (cstr arr) @ xs)"
    using \<open>0 \<notin> set (take off (cstr arr))\<close> assms(3) by simp
  ultimately show "cstr arr' = take off (cstr arr) @ xs"
    by (metis cstr_append_nul cstr_no_nul)
  show "length arr' = length arr" using fits by (simp add: arr')
qed

text \<open>A NUL written behind the end of the string.\<close>

lemma cstr_nul_behind:
  assumes "strlen arr \<le> k" and "k < length arr"
  shows "\<exists>arr'. write_at arr k [0] = Some arr' \<and> cstr arr' = cstr arr \<and> length arr' = length arr"
proof -
  let ?a = "memcpy_at arr k [0]"
  have "cstr ?a = cstr arr"
  proof (cases "strlen arr = k")
    case True
    with cstr_write_at [of arr k "[]" ?a] assms show ?thesis by (simp add: write_at_def strlen_def)
  next
    case False
    then have lt: "strlen arr < k" using assms by simp
    have "arr ! strlen arr = 0"
      using nth_length_takeWhile [of "\<lambda>b. b \<noteq> 0" arr] lt assms(2)
      by (simp add: strlen_def cstr_def)
    then have nul: "?a ! strlen arr = 0" using lt assms by (simp add: memcpy_at_def nth_append)
    have "take (strlen arr) ?a = take (strlen arr) arr" using lt assms(2) by (simp add: memcpy_at_def)
    moreover have "take (strlen arr) arr = cstr arr"
      unfolding cstr_def strlen_def by (metis takeWhile_eq_take)
    ultimately show ?thesis
      using cstr_take_nul [of "strlen arr" ?a] nul lt assms by simp
  qed
  with assms show ?thesis by (simp add: write_at_def)
qed

text \<open>The text an address is printed as\<close>

definition human :: "'w os \<Rightarrow> sockaddr \<Rightarrow> byte list" where
  "human os a = (case sa_family a of
     AF_OTHER \<Rightarrow> ascii ''unknown:''
   | _ \<Rightarrow> os_inet_ntop os a @ ascii '':'' @ show_nat (unat (addr_port a)))"

lemma c_strncpy_text:
  assumes "0 \<notin> set src" and "length src < n" and "n \<le> length dst"
  shows "\<exists>d. c_strncpy dst src n = Some d \<and> cstr d = src \<and> length d = length dst"
proof -
  have "take n (cstr src) @ replicate (n - length (take n (cstr src))) 0 =
      src @ 0 # replicate (n - Suc (length src)) 0"
    using assms by (simp add: cstr_no_nul Suc_diff_Suc flip: replicate_Suc)
  then show ?thesis
    using assms by (simp add: c_strncpy_def write_at_def memcpy_at_0 cstr_append_nul cstr_no_nul)
qed

lemma append_port:
  assumes "length buff = n" and "strlen buff + 1 < n"
  shows "\<exists>b1 b2. c_strncat buff (ascii '':'') n = Some b1 \<and> write_at b1 (n - 1) [0] = Some b2
     \<and> cstr b2 = cstr buff @ ascii '':'' \<and> length b2 = n"
proof -
  have colon: "take n (cstr (ascii '':'')) = ascii '':''" "0 \<notin> set (ascii '':'')"
    "length (ascii '':'') = 1"
    using assms by (simp_all add: ascii_def)
  obtain b1 where b1: "c_strncat buff (ascii '':'') n = Some b1"
    using assms colon by (auto simp: c_strncat_def write_at_def)
  then have *: "write_at buff (strlen buff) (ascii '':'' @ [0]) = Some b1"
    by (simp add: c_strncat_def colon)
  have "cstr b1 = cstr buff @ ascii '':''" "length b1 = n"
    using cstr_write_at [OF * _ colon(2)] assms(1) by (simp_all add: strlen_def)
  moreover from this have "strlen b1 \<le> n - 1" using assms colon by (simp add: strlen_def)
  ultimately show ?thesis using b1 cstr_nul_behind [of b1 "n - 1"] assms by auto
qed

lemma human_other:
  assumes "length buff = SOCKADDR_TO_HUMAN_MIN" and other: "sa_family a = AF_OTHER"
  shows "\<exists>b. sockaddr_to_human os buff SOCKADDR_TO_HUMAN_MIN (Some a) = Some b
     \<and> cstr b = human os a \<and> length b = SOCKADDR_TO_HUMAN_MIN"
proof -
  let ?n = SOCKADDR_TO_HUMAN_MIN
  have n: "?n = 52" by (simp add: SOCKADDR_TO_HUMAN_MIN_def)
  have "0 \<notin> set (ascii ''unknown'')" "length (ascii ''unknown'') < ?n"
    by (simp_all add: ascii_def n)
  from c_strncpy_text [OF this, of buff] assms(1) obtain b0 where b0:
    "c_strncpy buff (ascii ''unknown'') ?n = Some b0" "cstr b0 = ascii ''unknown''" "length b0 = ?n"
    by auto
  from b0(2) have "strlen b0 + 1 < ?n" by (simp add: strlen_def ascii_def n)
  from append_port [OF b0(3) this] obtain b1 b2 where b2:
    "c_strncat b0 (ascii '':'') ?n = Some b1" "write_at b1 (?n - 1) [0] = Some b2"
    "cstr b2 = ascii ''unknown'' @ ascii '':''" "length b2 = ?n"
    using b0(2) by auto
  from b2(3) have "strlen b2 \<le> ?n - 1" by (simp add: strlen_def ascii_def n)
  from cstr_nul_behind [OF this] b2(4) obtain b3 where b3:
    "write_at b2 (?n - 1) [0] = Some b3" "cstr b3 = cstr b2" "length b3 = ?n" by (auto simp: n)
  show ?thesis
    using other b0(1) b2(1,2,3) b3
    by (simp add: sockaddr_to_human_def Let_def human_def ascii_def)
qed

lemma human_ip:
  assumes "os_ok os" and "length buff = SOCKADDR_TO_HUMAN_MIN" and family: "sa_family a \<noteq> AF_OTHER"
  shows "\<exists>b. sockaddr_to_human os buff SOCKADDR_TO_HUMAN_MIN (Some a) = Some b
     \<and> cstr b = human os a \<and> length b = SOCKADDR_TO_HUMAN_MIN"
proof -
  let ?n = SOCKADDR_TO_HUMAN_MIN
  have n: "?n = 52" by (simp add: SOCKADDR_TO_HUMAN_MIN_def)
  have ip: "length (os_inet_ntop os a) \<le> 45" "0 \<notin> set (os_inet_ntop os a)"
    using os_okD(12,13) [OF assms(1)] by auto
  let ?port = "show_nat (unat (addr_port a))"
  have port: "length ?port \<le> 5" "0 \<notin> set ?port"
    using length_show_nat [of "unat (addr_port a)" 4] unsigned_less [of "addr_port a", where 'a = nat]
    by (simp_all add: show_nat_no_nul)
  have w: "write_at buff 0 (os_inet_ntop os a @ [0]) = Some (memcpy_at buff 0 (os_inet_ntop os a @ [0]))"
    using ip assms(2) by (simp add: write_at_def n)
  define b0 where "b0 = memcpy_at buff 0 (os_inet_ntop os a @ [0])"
  have b0: "c_inet_ntop os a buff ?n = Some (True, b0)" "cstr b0 = os_inet_ntop os a" "length b0 = ?n"
    using ip assms(2) w cstr_write_at(2) [OF w]
    by (simp_all add: c_inet_ntop_def b0_def n cstr_memcpy_nul cstr_no_nul)
  from b0(2) ip have "strlen b0 + 1 < ?n" by (simp add: strlen_def n)
  from append_port [OF b0(3) this] obtain b1 b2 where b2:
    "c_strncat b0 (ascii '':'') ?n = Some b1" "write_at b1 (?n - 1) [0] = Some b2"
    "cstr b2 = os_inet_ntop os a @ ascii '':''" "length b2 = ?n"
    using b0(2) by auto
  have len: "strlen b2 = length (os_inet_ntop os a) + 1" using b2(3) by (simp add: strlen_def ascii_def)
  have rest: "\<not> ?n - strlen b2 = 0" "take (?n - strlen b2 - 1) ?port = ?port"
    using len ip port by (simp_all add: n)
  have "strlen b2 + length (?port @ [0]) \<le> length b2" using len ip port b2(4) by (simp add: n)
  then have w3: "write_at b2 (strlen b2) (?port @ [0]) = Some (memcpy_at b2 (strlen b2) (?port @ [0]))"
    by (simp add: write_at_def)
  define b3 where "b3 = memcpy_at b2 (strlen b2) (?port @ [0])"
  have b3: "c_snprintf_u b2 (strlen b2) (?n - strlen b2) (unat (addr_port a)) = Some b3"
    using rest w3 by (simp add: c_snprintf_u_def b3_def)
  have b3': "cstr b3 = os_inet_ntop os a @ ascii '':'' @ ?port" "length b3 = ?n"
    using cstr_write_at [OF w3 _ port(2)] b2(3,4) by (simp_all add: b3_def strlen_def)
  have "strlen b3 \<le> ?n - 1" using b3'(1) ip port by (simp add: strlen_def ascii_def n)
  from cstr_nul_behind [OF this] b3'(2) obtain b4 where b4:
    "write_at b3 (?n - 1) [0] = Some b4" "cstr b4 = cstr b3" "length b4 = ?n" by (auto simp: n)
  show ?thesis
    using family b0(1) b2(1,2) b3 b3'(1) b4
    by (cases "sa_family a") (simp_all add: sockaddr_to_human_def Let_def human_def)
qed

text \<open>With the array the header asks for, everything fits: address, colon, port and NUL.\<close>

lemma sockaddr_to_human_fits:
  assumes "os_ok os" and "length buff = SOCKADDR_TO_HUMAN_MIN"
  shows "\<exists>b. sockaddr_to_human os buff SOCKADDR_TO_HUMAN_MIN (Some a) = Some b
     \<and> cstr b = human os a \<and> length b = SOCKADDR_TO_HUMAN_MIN"
  using human_other human_ip assms by (cases "sa_family a = AF_OTHER") blast+

declare sock_blocking_write.simps [simp del]

text \<open>Nothing is lost or reordered by \<open>sock_blocking_write\<close>, and success means that everything has
  been handed over.\<close>

lemma sock_blocking_write_step:
  assumes "buf_inv b"
  shows "sock_blocking_write os err fd b w =
     (case os_send os fd (buf_contents b) w of
        (Inl e, w) \<Rightarrow> Some (e, b, w)
      | (Inr m, w) \<Rightarrow>
          if m = 0 then Some (err, b, w)
          else (case buffer_read_adv b (int m) of None \<Rightarrow> None
            | Some b' \<Rightarrow> if buffer_can_read b' then sock_blocking_write os err fd b' w
                else Some (ENOERROR, b', w)))"
  using assms by (subst sock_blocking_write.simps) (simp add: buf_read_ptr buf_peek)

lemma sock_blocking_write_sends:
  assumes "os_ok os" and "sends_to os fd tx" and "err \<noteq> ENOERROR"
  shows "buf_inv b \<Longrightarrow>
     \<exists>e b' w'. sock_blocking_write os err fd b w = Some (e, b', w') \<and> buf_inv b'
       \<and> tx w' @ buf_contents b' = tx w @ buf_contents b \<and> (e = ENOERROR \<longrightarrow> buf_contents b' = [])"
proof (induction "length (buf_contents b)" arbitrary: b w rule: less_induct)
  case less
  note inv = less.prems
  obtain r w1 where send: "os_send os fd (buf_contents b) w = (r, w1)" by fastforce
  show ?case
  proof (cases r)
    case (Inl e)
    then show ?thesis
      using send inv sends_toD(1) [OF assms(2)]
      by (auto simp: sock_blocking_write_step)
  next
    case (Inr m)
    have tx: "tx w1 = tx w @ take m (buf_contents b)" and le: "m \<le> length (buf_contents b)"
      using sends_toD(2) [OF assms(2)] os_okD(2) [OF assms(1)] send Inr by auto
    show ?thesis
    proof (cases "m = 0")
      case True
      then show ?thesis
        using send Inr inv tx assms(3) by (simp add: sock_blocking_write_step)
    next
      case False
      obtain b' where b': "buffer_read_adv b (int m) = Some b'" "buf_inv b'"
        "buf_contents b' = drop m (buf_contents b)"
        using buf_read_adv [OF inv le] by blast
      then have "tx w1 @ buf_contents b' = tx w @ buf_contents b" using tx by simp
      moreover have "length (buf_contents b') < length (buf_contents b)"
        using b'(3) False le by simp
      ultimately show ?thesis
        using less.hyps [of b' w1] b' send Inr False inv
        by (auto simp: sock_blocking_write_step buf_can_read)
    qed
  qed
qed

text \<open>The copy: what one \<open>recv\<close> has delivered is sent, all of it or, with an error, a proper prefix.\<close>

declare copy_chunk.simps [simp del]

lemma copy_chunk_sends:
  assumes "os_ok os" and "observes os rx tx" and "sends_to os dest (\<lambda>w. tx w dest)" and "err \<noteq> ENOERROR"
  shows "\<exists>r k w'. copy_chunk os err dest bs w = (r, w') \<and> rx w' = rx w \<and> k \<le> length bs
     \<and> tx w' dest = tx w dest @ take k bs \<and> (r = None \<longrightarrow> k = length bs)
     \<and> (\<forall>e. r = Some e \<longrightarrow> e \<noteq> ENOERROR \<and> (bs \<noteq> [] \<longrightarrow> k < length bs))"
proof (induction "length bs" arbitrary: bs w rule: less_induct)
  case less
  obtain r w1 where send: "os_send os dest bs w = (r, w1)" by fastforce
  show ?case
  proof (cases r)
    case (Inl e)
    then have "copy_chunk os err dest bs w = (Some e, w1)" "rx w1 = rx w" "tx w1 dest = tx w dest @ take 0 bs" "e \<noteq> ENOERROR"
      using send observesD(2) [OF assms(2) send] sends_toD(1) [OF assms(3), of bs w e w1]
      by (simp_all add: copy_chunk.simps [of os err dest bs])
    then show ?thesis by fastforce
  next
    case (Inr m)
    have w1: "rx w1 = rx w" "tx w1 dest = tx w dest @ take m bs" "m \<le> length bs"
      using send Inr observesD(2) [OF assms(2) send] os_okD(2) [OF assms(1), of dest bs w m w1] by simp_all
    consider "m = 0" | "0 < m" "m < length bs" | "0 < m" "m = length bs" using w1(3) by linarith
    then show ?thesis
    proof cases
      case 1
      then have "copy_chunk os err dest bs w = (Some err, w1)"
        using send Inr by (simp add: copy_chunk.simps [of os err dest bs])
      with w1 1 assms(4) show ?thesis by fastforce
    next
      case 2
      then have eq: "copy_chunk os err dest bs w = copy_chunk os err dest (drop m bs) w1"
        using send Inr by (simp add: copy_chunk.simps [of os err dest bs])
      have "length (drop m bs) < length bs" using 2 by simp
      from less [OF this, of w1] obtain r' k w' where
        r': "copy_chunk os err dest (drop m bs) w1 = (r', w')" "rx w' = rx w1" "k \<le> length (drop m bs)"
          "tx w' dest = tx w1 dest @ take k (drop m bs)" "r' = None \<longrightarrow> k = length (drop m bs)"
          "\<forall>e. r' = Some e \<longrightarrow> e \<noteq> ENOERROR \<and> (drop m bs \<noteq> [] \<longrightarrow> k < length (drop m bs))"
        by blast
      have "tx w' dest = tx w dest @ take (m + k) bs" using r'(4) w1(2) by (simp add: take_add)
      with eq r' w1 2 show ?thesis by (intro exI [of _ r'] exI [of _ "m + k"] exI [of _ w']) auto
    next
      case 3
      then have "copy_chunk os err dest bs w = (None, w1)"
        using send Inr by (simp add: copy_chunk.simps [of os err dest bs])
      with w1 3 show ?thesis by fastforce
    qed
  qed
qed

text \<open>A source that ends: \<open>left\<close> bounds the calls of \<open>recv\<close> that still deliver something.\<close>

definition drains :: "'w os \<Rightarrow> int \<Rightarrow> ('w \<Rightarrow> int \<Rightarrow> byte list) \<Rightarrow> (byte list \<Rightarrow> nat) \<Rightarrow> bool" where
  "drains os source rx left \<longleftrightarrow>
     (\<forall>n w bs w'. os_recv os source n w = (Inr bs, w') \<and> bs \<noteq> [] \<longrightarrow> left (rx w source @ bs) < left (rx w source))"

lemma sock_blocking_copy_copies:
  assumes "os_ok os" and "observes os rx tx" and "sends_to os dest (\<lambda>w. tx w dest)"
    and "drains os source rx left" and "err \<noteq> ENOERROR"
  shows "\<exists>e got k w'. sock_blocking_copy os err source dest w = Some (e, w')
     \<and> rx w' source = rx w source @ got \<and> tx w' dest = tx w dest @ take k got \<and> k \<le> length got
     \<and> (e = ENOERROR \<longleftrightarrow> k = length got)"
proof (induction "left (rx w source)" arbitrary: w rule: less_induct)
  case less
  obtain r w1 where recv: "os_recv os source 4096 w = (r, w1)" by fastforce
  note w1 = observesD(1) [OF assms(2) recv]
  show ?case
  proof (cases "\<exists>bs. r = Inr bs \<and> bs \<noteq> []")
    case False
    then have "sock_blocking_copy os err source dest w = Some (ENOERROR, w1)"
      using recv by (auto simp: sock_blocking_copy.simps [of os err source dest w] split: sum.splits)
    moreover have "rx w1 source = rx w source @ []" "tx w1 dest = tx w dest @ take 0 []"
      using False w1 by (auto split: sum.splits)
    ultimately show ?thesis by fastforce
  next
    case True
    then obtain bs where bs: "r = Inr bs" "bs \<noteq> []" by blast
    have rx1: "rx w1 source = rx w source @ bs" "tx w1 = tx w" using w1 bs(1) by simp_all
    have lt: "left (rx w1 source) < left (rx w source)"
      using assms(4) recv bs rx1 unfolding drains_def by auto
    obtain r' k w2 where c: "copy_chunk os err dest bs w1 = (r', w2)" "rx w2 = rx w1" "k \<le> length bs"
        "tx w2 dest = tx w dest @ take k bs" "r' = None \<longrightarrow> k = length bs"
        "\<forall>e. r' = Some e \<longrightarrow> e \<noteq> ENOERROR \<and> k < length bs"
      using copy_chunk_sends [OF assms(1-3,5), of bs w1] bs(2) rx1(2) by auto
    show ?thesis
    proof (cases r')
      case (Some e)
      then have "sock_blocking_copy os err source dest w = Some (e, w2)"
        using recv bs c(1) by (simp add: sock_blocking_copy.simps [of os err source dest w])
      with c rx1 Some show ?thesis by fastforce
    next
      case None
      then have eq: "sock_blocking_copy os err source dest w = sock_blocking_copy os err source dest w2"
        using recv bs c(1) by (simp add: sock_blocking_copy.simps [of os err source dest w])
      have "left (rx w2 source) < left (rx w source)" using lt c(2) by simp
      from less [OF this] obtain e got j w' where
        r: "sock_blocking_copy os err source dest w2 = Some (e, w')" "rx w' source = rx w2 source @ got"
          "tx w' dest = tx w2 dest @ take j got" "j \<le> length got" "e = ENOERROR \<longleftrightarrow> j = length got"
        by blast
      have "rx w' source = rx w source @ (bs @ got)" "tx w' dest = tx w dest @ take (length bs + j) (bs @ got)"
        using r(2,3) c(2,4,5) rx1(1) None by simp_all
      moreover have "length bs + j \<le> length (bs @ got)" "e = ENOERROR \<longleftrightarrow> length bs + j = length (bs @ got)"
        using r(4,5) by simp_all
      ultimately show ?thesis unfolding eq r(1) by blast
    qed
  qed
qed

text \<open>An error of \<open>recv\<close> is not reported: the loop ends as it does at the end of the stream.\<close>

lemma blocking_copy_recv_error:
  "os_recv os source 4096 w = (Inl e, w') \<Longrightarrow> sock_blocking_copy os err source dest w = Some (ENOERROR, w')"
  by (simp add: sock_blocking_copy.simps)

section \<open>Properties\<close>

text \<open>C37: \<open>sockaddr_to_human\<close>, given the array its header asks for, writes address, colon and port,
  never behind the array.\<close>

theorem address_printed:
  assumes "os_ok os" and "length buff = SOCKADDR_TO_HUMAN_MIN"
  shows "\<exists>b. sockaddr_to_human os buff SOCKADDR_TO_HUMAN_MIN (Some a) = Some b
     \<and> cstr b = human os a \<and> length b = SOCKADDR_TO_HUMAN_MIN"
  using assms by (rule sockaddr_to_human_fits)

theorem address_printed_witness:
  "\<exists>b. sockaddr_to_human demo_os (replicate 52 7) 52 (Some (SockIn 8080 [127, 0, 0, 1])) = Some b
     \<and> cstr b = ascii ''127.0.0.1:8080''"
proof -
  have "human demo_os (SockIn 8080 [127, 0, 0, 1]) = ascii ''127.0.0.1:8080''"
    by (simp add: human_def demo_os_def ascii_def show_nat.simps)
  then show ?thesis
    using address_printed [OF demo_os_ok, of "replicate 52 7" "SockIn 8080 [127, 0, 0, 1]"]
    unfolding SOCKADDR_TO_HUMAN_MIN_def by auto
qed

text \<open>\<open>sock_blocking_write\<close> hands the contents of the buffer over in order: what was sent and what
  is left add up to what there was, and a result of 0 means that nothing is left.\<close>

lemma blocking_write_complete:
  assumes "os_ok os" and "sends_to os fd tx" and "err \<noteq> ENOERROR" and "buf_inv b"
  shows "\<exists>e b' w'. sock_blocking_write os err fd b w = Some (e, b', w') \<and> buf_inv b'
     \<and> tx w' @ buf_contents b' = tx w @ buf_contents b \<and> (e = ENOERROR \<longrightarrow> buf_contents b' = [])"
  using assms by (rule sock_blocking_write_sends)

lemma blocking_write_example:
  "\<exists>b' w'. sock_blocking_write demo_os EAGAIN 3 \<lparr>b_data = [1, 2, 3], b_limit = 3, b_read = 1, b_write = 3\<rparr>
       demo_world = Some (ENOERROR, b', w') \<and> dw_tx w' 3 = [2, 3]"
proof -
  define b :: buffer where "b = \<lparr>b_data = [1, 2, 3], b_limit = 3, b_read = 1, b_write = 3\<rparr>"
  have b: "buf_inv b" "buf_contents b = [2, 3]" by (simp_all add: b_def buf_defs)
  from blocking_write_complete [OF demo_os_ok demo_sends_to [of 3], of EAGAIN, OF _ b(1), of demo_world]
  obtain e b' w' where r: "sock_blocking_write demo_os EAGAIN 3 b demo_world = Some (e, b', w')"
    "dw_tx w' 3 @ buf_contents b' = [2, 3]" "e = ENOERROR \<longrightarrow> buf_contents b' = []"
    unfolding b(2) by (auto simp: demo_world_def)
  have "\<exists>w. os_send demo_os 3 [2, 3] demo_world = (Inr 2, w)" by (simp add: demo_os_def)
  moreover have "buffer_read_adv b 2 = Some (b\<lparr>b_read := 0, b_write := 0\<rparr>)"
    by (simp add: b_def buffer_read_adv_def buffer_compact_def)
  ultimately have "e = ENOERROR"
    using r(1) by (auto simp: sock_blocking_write_step [OF b(1)] b(2) buffer_can_read_def)
  with r show ?thesis by (auto simp: b_def)
qed



end
