(* ===== verification/Proxy_State.thy ===== *)
theory Proxy_State
  imports Socks5_Parsers Mgmt_Protocol Pop3 Stm Selector Netutils
begin

text \<open>
  The state of the server process, which the SOCKS5 connections, the management connections and the
  listeners share: the heap of \<open>struct socks5\<close> and \<open>struct mgmt_conn\<close> objects (\<^const>\<open>None\<close> is memory
  that is not allocated, so a callback that follows a dangling pointer faults), the pool of recycled
  connections, the services, the access log, and the world of the operating system. Together with
  the selector it is the state the callbacks work on. The callbacks \<open>handle_close\<close> of the three kinds of
  handlers (\<open>src/socks5.c\<close>, \<open>src/mgmt.c\<close>, \<open>src/main.c\<close>) are here because unregistering a
  descriptor runs them.
\<close>

section \<open>Connections\<close>

text \<open>\<open>src/dns.h\<close>. \<open>result\<close> is the list of addresses of the \<open>addrinfo\<close> list, \<^const>\<open>None\<close> for NULL.\<close>

record dns_request =
  dq_notify_fd :: int
  dq_conn :: nat
  dq_host :: "byte list"
  dq_service :: "byte list"
  dq_result :: "sockaddr list option"
  dq_status :: int

definition MAX_ADDRS :: nat where "MAX_ADDRS = 16"
definition MAX_POOL :: nat where "MAX_POOL = 128"

text \<open>
  \<open>struct socks5\<close>. \<open>raw_read\<close> and \<open>raw_write\<close> are the allocated blocks, \<^const>\<open>None\<close> for NULL; the
  bytes of a block in use are those of the buffer built on it. The length of an address is implied
  by its family.
\<close>

record socks5 =
  client_fd :: int
  origin_fd :: int
  client_addr :: sockaddr
  stm :: state_machine
  hello :: hello_parser
  auth :: auth_parser
  request :: request_parser
  nego_method :: byte
  auth_ok :: bool
  username :: "byte list"
  addrs :: "sockaddr list"
  naddrs :: nat
  addr_idx :: nat
  dns :: dns_request
  resolving :: bool
  dest_host :: "byte list"
  dest_port :: u16
  reply :: byte
  client_eof :: bool
  origin_eof :: bool
  client_wr_shut :: bool
  origin_wr_shut :: bool
  sniff_pop3 :: bool
  pop3 :: pop3_sniffer
  raw_read :: "byte list option"
  raw_write :: "byte list option"
  read_buffer :: buffer
  write_buffer :: buffer
  buffer_size :: nat
  references :: nat

text \<open>\<open>struct mgmt_conn\<close>\<close>

datatype mgmt_state = MGMT_AUTH | MGMT_AUTH_REPLY | MGMT_REQUEST | MGMT_RESPONSE

record mgmt_conn =
  mc_fd :: int
  mc_state :: mgmt_state
  mc_auth_ok :: bool
  mc_close_after_write :: bool
  mc_rbuf :: buffer
  mc_wbuf :: buffer

section \<open>The process\<close>

text \<open>What a registration's \<open>data\<close> points to, and the four handlers of the program.\<close>

datatype pointer = SocksConn nat | MgmtConn nat

datatype handler = SocksHandler | MgmtHandler | SocksListener | MgmtListener

text \<open>The lines \<open>logger_access\<close> and \<open>logger_pop3\<close> print, without the time.\<close>

datatype log_event =
    LogAccess "byte list" "byte list" "byte list" "byte list" byte
  | LogPop3 "byte list" "byte list" "byte list" "byte list" "byte list"

record 'w proxy =
  px_world :: 'w
  px_conns :: "nat \<Rightarrow> socks5 option"
  px_mgmt :: "nat \<Rightarrow> mgmt_conn option"
  px_next :: nat
  px_pool :: "nat list"
  px_pool_size :: nat
  px_services :: services
  px_log :: "log_event list"

type_synonym 'w state = "(handler, pointer) selector \<times> 'w proxy"

text \<open>A system call\<close>

definition sys :: "('w \<Rightarrow> 'a \<times> 'w) \<Rightarrow> 'w state \<Rightarrow> 'a \<times> 'w state" where
  "sys f st = (let (r, w) = f (px_world (snd st)) in (r, fst st, (snd st)\<lparr>px_world := w\<rparr>))"

definition sys_unit :: "('w \<Rightarrow> 'w) \<Rightarrow> 'w state \<Rightarrow> 'w state" where
  "sys_unit f st = (fst st, (snd st)\<lparr>px_world := f (px_world (snd st))\<rparr>)"

text \<open>Reading and writing the objects behind pointers\<close>

definition get_conn :: "nat \<Rightarrow> 'w state \<Rightarrow> socks5 option" where
  "get_conn p st = px_conns (snd st) p"

definition put_conn :: "nat \<Rightarrow> socks5 \<Rightarrow> 'w state \<Rightarrow> 'w state" where
  "put_conn p c st = (fst st, (snd st)\<lparr>px_conns := (px_conns (snd st))(p \<mapsto> c)\<rparr>)"

definition get_mgmt :: "nat \<Rightarrow> 'w state \<Rightarrow> mgmt_conn option" where
  "get_mgmt p st = px_mgmt (snd st) p"

definition put_mgmt :: "nat \<Rightarrow> mgmt_conn \<Rightarrow> 'w state \<Rightarrow> 'w state" where
  "put_mgmt p c st = (fst st, (snd st)\<lparr>px_mgmt := (px_mgmt (snd st))(p \<mapsto> c)\<rparr>)"

definition upd_services :: "(services \<Rightarrow> services) \<Rightarrow> 'w state \<Rightarrow> 'w state" where
  "upd_services f st = (fst st, (snd st)\<lparr>px_services := f (px_services (snd st))\<rparr>)"

definition upd_metrics :: "(metrics \<Rightarrow> metrics) \<Rightarrow> 'w state \<Rightarrow> 'w state" where
  "upd_metrics f st = upd_services (\<lambda>sv. sv\<lparr>sv_metrics := f (sv_metrics sv)\<rparr>) st"

definition config :: "'w state \<Rightarrow> proxy_config" where
  "config st = sv_cfg (px_services (snd st))"

definition add_log :: "log_event \<Rightarrow> 'w state \<Rightarrow> 'w state" where
  "add_log e st = (fst st, (snd st)\<lparr>px_log := px_log (snd st) @ [e]\<rparr>)"

text \<open>\<open>ATTACH(key)\<close>: a pointer to an object of another type would be misread.\<close>

definition attach :: "pointer key \<Rightarrow> nat option" where
  "attach key = (case snd key of Some (SocksConn p) \<Rightarrow> Some p | _ \<Rightarrow> None)"

definition attach_mgmt :: "pointer key \<Rightarrow> nat option" where
  "attach_mgmt key = (case snd key of Some (MgmtConn p) \<Rightarrow> Some p | _ \<Rightarrow> None)"

text \<open>The selector operations on the whole state. The table is created with room for every
  descriptor, so \<open>selector_register\<close> never allocates.\<close>

definition set_interest :: "int \<Rightarrow> fd_interest \<Rightarrow> 'w state \<Rightarrow> (selector_status \<times> 'w state) option" where
  "set_interest fd i st =
     map_option (\<lambda>(r, s). (r, s, snd st)) (selector_set_interest fd i (fst st))"

definition register_fd :: "int \<Rightarrow> handler \<Rightarrow> fd_interest \<Rightarrow> pointer option \<Rightarrow> 'w state \<Rightarrow>
    (selector_status \<times> 'w state) option" where
  "register_fd fd h i d st =
     map_option (\<lambda>(r, s). (r, s, snd st)) (selector_register True unused_item fd h i d (fst st))"

section \<open>Closing\<close>

definition dns_request_clear :: "dns_request \<Rightarrow> dns_request" where
  "dns_request_clear req = (if dq_result req \<noteq> None then req\<lparr>dq_result := None\<rparr> else req)"

definition socks5_destroy :: "nat \<Rightarrow> 'w state \<Rightarrow> 'w state option" where
  "socks5_destroy p st = do {
     s \<leftarrow> get_conn p st;
     if resolving s then Some st
     else let st = put_conn p (s\<lparr>dns := dns_request_clear (dns s)\<rparr>) st; x = snd st in
       Some (fst st,
         if px_pool_size x < MAX_POOL
         then x\<lparr>px_pool := p # px_pool x, px_pool_size := px_pool_size x + 1\<rparr>
         else x\<lparr>px_conns := (px_conns x)(p := None)\<rparr>)
   }"

definition socksv5_close :: "'w os \<Rightarrow> (pointer, 'w state) callback" where
  "socksv5_close os key st = do {
     p \<leftarrow> attach key;
     s \<leftarrow> get_conn p st;
     let st = sys_unit (os_close os (fst key)) st;
     let s = (if references s > 0 then s\<lparr>references := references s - 1\<rparr> else s);
     let st = put_conn p s st;
     if references s = 0
     then socks5_destroy p (upd_metrics metrics_connection_closed st)
     else Some st
   }"

definition mgmt_close :: "'w os \<Rightarrow> (pointer, 'w state) callback" where
  "mgmt_close os key st = do {
     p \<leftarrow> attach_mgmt key;
     c \<leftarrow> get_mgmt p st;
     let st = sys_unit (os_close os (fst key)) st;
     Some (fst st, (snd st)\<lparr>px_mgmt := (px_mgmt (snd st))(p := None)\<rparr>)
   }"

definition listener_close :: "'w os \<Rightarrow> (pointer, 'w state) callback" where
  "listener_close os key st = Some (sys_unit (os_close os (fst key)) st)"

text \<open>The \<open>handle_close\<close> column of the handlers of the program\<close>

fun close_of :: "'w os \<Rightarrow> handler \<Rightarrow> (pointer, 'w state) callback option" where
  "close_of os SocksHandler = Some (socksv5_close os)"
| "close_of os MgmtHandler = Some (mgmt_close os)"
| "close_of os SocksListener = Some (listener_close os)"
| "close_of os MgmtListener = Some (listener_close os)"

definition unregister_fd :: "'w os \<Rightarrow> int \<Rightarrow> 'w state \<Rightarrow> (selector_status \<times> 'w state) option" where
  "unregister_fd os fd st = selector_unregister_fd (close_of os) fd st"

end
