(* ===== verification/Logger.thy ===== *)
theory Logger
  imports Proxy_State
begin

text \<open>
  \<open>src/logger.h\<close>, \<open>src/logger.c\<close>: the access log and the general log. What the clock and \<open>strftime\<close> give
  is an argument, and so is the text that \<open>vfprintf\<close> makes of a message. The lemmas say when the access log
  can be read back, and that a field with a newline forges a line.
\<close>

section \<open>The code\<close>

datatype stream = StdOut | StdErr | Opened nat

text \<open>\<open>access_file\<close>, and what has been written to every stream\<close>

record logger =
  access_file :: "stream option"
  written :: "stream \<Rightarrow> byte list"

definition logger_init :: "stream option \<Rightarrow> logger \<Rightarrow> logger" where
  "logger_init access_out lg = lg\<lparr>access_file := Some (case access_out of None \<Rightarrow> StdOut | Some f \<Rightarrow> f)\<rparr>"

text \<open>\<open>now\<close> is \<^const>\<open>None\<close> when \<open>localtime_r\<close> fails; \<open>strftime\<close> returns 0 for a text that does not fit.\<close>

definition iso8601_now :: "byte list option \<Rightarrow> nat \<Rightarrow> byte list" where
  "iso8601_now now n = (case now of None \<Rightarrow> [] | Some t \<Rightarrow> if length t < n then t else [])"

definition fprint :: "stream \<Rightarrow> byte list \<Rightarrow> logger \<Rightarrow> logger" where
  "fprint f bs lg = lg\<lparr>written := (written lg)(f := written lg f @ bs)\<rparr>"

text \<open>\<open>%s\<close> of an argument that may be NULL, and \<open>%d\<close>\<close>

definition or_dash :: "byte list option \<Rightarrow> byte list" where
  "or_dash s = (case s of None \<Rightarrow> ascii ''-'' | Some s \<Rightarrow> cstr s)"

definition show_int :: "int \<Rightarrow> byte list" where
  "show_int n = (if n < 0 then 45 # show_nat (nat (- n)) else show_nat (nat n))"

definition open_access :: "logger \<Rightarrow> logger" where
  "open_access lg = (if access_file lg = None then lg\<lparr>access_file := Some StdOut\<rparr> else lg)"

text \<open>The two formats; 9 is the tabulator and 10 the newline.\<close>

definition access_line ::
    "byte list \<Rightarrow> byte list option \<Rightarrow> byte list option \<Rightarrow> byte list option \<Rightarrow> byte list option \<Rightarrow> int \<Rightarrow> byte list" where
  "access_line ts usr cmd origin dest status =
     ts @ [9] @ or_dash usr @ [9] @ or_dash cmd @ [9] @ or_dash origin @ ascii '' -> '' @ or_dash dest @ [9]
     @ ascii ''status='' @ show_int status @ [10]"

definition pop3_line_text ::
    "byte list \<Rightarrow> byte list option \<Rightarrow> byte list option \<Rightarrow> byte list option \<Rightarrow> byte list option \<Rightarrow> byte list option \<Rightarrow> byte list" where
  "pop3_line_text ts proxy_user origin dest sniff_user sniff_pass =
     ts @ [9] @ ascii ''POP3'' @ [9] @ or_dash proxy_user @ [9] @ or_dash origin @ ascii '' -> '' @ or_dash dest @ [9]
     @ ascii ''user='' @ or_dash sniff_user @ [9] @ ascii ''pass='' @ or_dash sniff_pass @ [10]"

definition logger_access ::
    "byte list option \<Rightarrow> byte list option \<Rightarrow> byte list option \<Rightarrow> byte list option \<Rightarrow> byte list option \<Rightarrow> int \<Rightarrow> logger \<Rightarrow> logger" where
  "logger_access now usr cmd origin dest status lg =
     (let lg = open_access lg; ts = iso8601_now now 64
      in fprint (the (access_file lg)) (access_line ts usr cmd origin dest status) lg)"

definition logger_pop3 ::
    "byte list option \<Rightarrow> byte list option \<Rightarrow> byte list option \<Rightarrow> byte list option \<Rightarrow> byte list option \<Rightarrow> byte list option \<Rightarrow>
     logger \<Rightarrow> logger" where
  "logger_pop3 now proxy_user origin dest sniff_user sniff_pass lg =
     (let lg = open_access lg; ts = iso8601_now now 64
      in fprint (the (access_file lg)) (pop3_line_text ts proxy_user origin dest sniff_user sniff_pass) lg)"

text \<open>\<open>text\<close> is what \<open>vfprintf\<close> makes of the format and its arguments.\<close>

definition logger_log :: "byte list option \<Rightarrow> byte list \<Rightarrow> byte list \<Rightarrow> logger \<Rightarrow> logger" where
  "logger_log now level text lg =
     fprint StdErr ((iso8601_now now 64 @ ascii '' ['' @ cstr level @ ascii ''] '') @ text @ [10]) lg"

section \<open>Reading the log\<close>

text \<open>The pieces of a text between separators\<close>

fun pieces :: "byte \<Rightarrow> byte list \<Rightarrow> byte list list" where
  "pieces sep [] = [[]]"
| "pieces sep (c # cs) =
     (if c = sep then [] # pieces sep cs else (c # hd (pieces sep cs)) # tl (pieces sep cs))"

lemma pieces_append [simp]: "sep \<notin> set xs \<Longrightarrow> pieces sep (xs @ sep # ys) = xs # pieces sep ys"
  by (induction xs) auto

lemma pieces_last [simp]: "sep \<notin> set xs \<Longrightarrow> pieces sep xs = [xs]"
  by (induction xs) auto

definition read_line :: "byte list \<Rightarrow> (byte list \<times> log_event) option" where
  "read_line line = (let origin = takeWhile (\<lambda>b. b \<noteq> 32); dest = (\<lambda>od. drop 4 (dropWhile (\<lambda>b. b \<noteq> 32) od)) in
     case pieces 9 line of
       [ts, usr, cmd, od, st] \<Rightarrow> Some (ts, LogAccess usr cmd (origin od) (dest od) (of_nat (digits_value 0 (drop 7 st))))
     | [ts, tag, usr, od, u, w] \<Rightarrow> Some (ts, LogPop3 usr (origin od) (dest od) (drop 5 u) (drop 5 w))
     | _ \<Rightarrow> None)"

text \<open>The call of the logger that an event of the model stands for\<close>

fun log_line :: "byte list option \<Rightarrow> log_event \<Rightarrow> logger \<Rightarrow> logger" where
  "log_line now (LogAccess usr cmd origin dest status) lg =
     logger_access now (Some usr) (Some cmd) (Some origin) (Some dest) (int (unat status)) lg"
| "log_line now (LogPop3 usr origin dest u w) lg = logger_pop3 now (Some usr) (Some origin) (Some dest) (Some u) (Some w) lg"

text \<open>A field without NUL, tabulator and newline\<close>

definition plain :: "byte list \<Rightarrow> bool" where
  "plain s \<longleftrightarrow> 0 \<notin> set s \<and> 9 \<notin> set s \<and> 10 \<notin> set s"

fun readable :: "log_event \<Rightarrow> bool" where
  "readable (LogAccess usr cmd origin dest status) \<longleftrightarrow> plain usr \<and> plain cmd \<and> plain origin \<and> 32 \<notin> set origin \<and> plain dest"
| "readable (LogPop3 usr origin dest u w) \<longleftrightarrow> plain usr \<and> plain origin \<and> 32 \<notin> set origin \<and> plain dest \<and> plain u \<and> plain w"

lemma plain_dash: "plain s \<Longrightarrow> or_dash (Some s) = s"
  by (simp add: plain_def or_dash_def cstr_no_nul)

lemma plain_iso: "pred_option plain now \<Longrightarrow> plain (iso8601_now now n)"
  by (cases now) (auto simp: iso8601_now_def plain_def)

lemma plain_show_nat: "plain (show_nat n)"
  using show_nat_digits [of _ n] by (force simp: plain_def isdigit_def)

text \<open>The line without its newline\<close>

fun line_of :: "byte list \<Rightarrow> log_event \<Rightarrow> byte list" where
  "line_of ts (LogAccess usr cmd origin dest status) =
     ts @ [9] @ usr @ [9] @ cmd @ [9] @ (origin @ ascii '' -> '' @ dest) @ [9] @ ascii ''status='' @ show_nat (unat status)"
| "line_of ts (LogPop3 usr origin dest u w) =
     ts @ [9] @ ascii ''POP3'' @ [9] @ usr @ [9] @ (origin @ ascii '' -> '' @ dest) @ [9] @ (ascii ''user='' @ u) @ [9] @ ascii ''pass='' @ w"

lemma log_line_text:
  assumes "readable e"
  shows "log_line now e lg = fprint (the (access_file (open_access lg))) (line_of (iso8601_now now 64) e @ [10]) (open_access lg)"
  using assms
  by (cases e) (simp_all add: logger_access_def logger_pop3_def access_line_def pop3_line_text_def Let_def plain_dash show_int_def)

lemma literals:
  "9 \<notin> set (ascii '' -> '')" "9 \<notin> set (ascii ''status='')" "9 \<notin> set (ascii ''user='')" "9 \<notin> set (ascii ''pass='')"
  "9 \<notin> set (ascii ''POP3'')" "10 \<notin> set (ascii '' -> '')" "10 \<notin> set (ascii ''status='')" "10 \<notin> set (ascii ''user='')"
  "10 \<notin> set (ascii ''pass='')" "10 \<notin> set (ascii ''POP3'')"
  by (simp_all add: ascii_def)

lemma line_no_newline:
  assumes "readable e" and "plain ts"
  shows "10 \<notin> set (line_of ts e)"
  using assms literals plain_show_nat by (cases e) (auto simp: plain_def)

lemma split_pair:
  "32 \<notin> set origin \<Longrightarrow> takeWhile (\<lambda>b. b \<noteq> 32) (origin @ ascii '' -> '' @ dest) = origin"
  "32 \<notin> set origin \<Longrightarrow> drop 4 (dropWhile (\<lambda>b. b \<noteq> 32) (origin @ ascii '' -> '' @ dest)) = dest"
  by (induction origin) (simp_all add: ascii_def)

lemma read_line_of:
  assumes "readable e" and "plain ts"
  shows "read_line (line_of ts e) = Some (ts, e)"
proof (cases e)
  case (LogAccess usr cmd origin dest status)
  have st: "9 \<notin> set (ascii ''status='' @ show_nat (unat status))"
    and od: "9 \<notin> set (origin @ ascii '' -> '' @ dest)"
    using assms(1) literals plain_show_nat LogAccess by (auto simp: plain_def)
  have "pieces 9 (line_of ts e) = [ts, usr, cmd, origin @ ascii '' -> '' @ dest, ascii ''status='' @ show_nat (unat status)]"
    using assms LogAccess st od by (simp add: plain_def del: append_assoc)
  moreover have "takeWhile (\<lambda>b. b \<noteq> 32) (origin @ ascii '' -> '' @ dest) = origin"
    "drop 4 (dropWhile (\<lambda>b. b \<noteq> 32) (origin @ ascii '' -> '' @ dest)) = dest"
    using assms(1) LogAccess split_pair by simp_all
  moreover have "drop 7 (ascii ''status='' @ show_nat (unat status)) = show_nat (unat status)" by (simp add: ascii_def)
  ultimately show ?thesis by (simp add: read_line_def LogAccess digits_value_show del: line_of.simps)
next
  case (LogPop3 usr origin dest u w)
  have ends: "9 \<notin> set (ascii ''user='' @ u)" "9 \<notin> set (ascii ''pass='' @ w)"
    and od: "9 \<notin> set (origin @ ascii '' -> '' @ dest)"
    using assms(1) literals LogPop3 by (auto simp: plain_def)
  have "pieces 9 (line_of ts e) =
      [ts, ascii ''POP3'', usr, origin @ ascii '' -> '' @ dest, ascii ''user='' @ u, ascii ''pass='' @ w]"
    using assms LogPop3 ends od literals(5) by (simp add: plain_def del: append_assoc)
  moreover have "takeWhile (\<lambda>b. b \<noteq> 32) (origin @ ascii '' -> '' @ dest) = origin"
    "drop 4 (dropWhile (\<lambda>b. b \<noteq> 32) (origin @ ascii '' -> '' @ dest)) = dest"
    using assms(1) LogPop3 split_pair by simp_all
  moreover have "drop 5 (ascii ''user='' @ u) = u" "drop 5 (ascii ''pass='' @ w) = w" by (simp_all add: ascii_def)
  ultimately show ?thesis by (simp add: read_line_def LogPop3 del: line_of.simps)
qed

text \<open>A log that is written event by event\<close>

primrec write_log :: "(byte list option \<times> log_event) list \<Rightarrow> logger \<Rightarrow> logger" where
  "write_log [] lg = lg"
| "write_log (e # es) lg = write_log es (log_line (fst e) (snd e) lg)"

lemma write_log_text:
  assumes "\<forall>e \<in> set es. readable (snd e)" and "access_file lg = Some f"
  shows "access_file (write_log es lg) = Some f \<and> written (write_log es lg) f =
    written lg f @ concat (map (\<lambda>e. line_of (iso8601_now (fst e) 64) (snd e) @ [10]) es)"
  using assms
proof (induction es arbitrary: lg)
  case (Cons e es)
  then have "log_line (fst e) (snd e) lg = fprint f (line_of (iso8601_now (fst e) 64) (snd e) @ [10]) lg"
    by (simp add: log_line_text open_access_def)
  with Cons show ?case by (simp add: fprint_def)
qed simp

lemma pieces_lines:
  "\<forall>l \<in> set ls. 10 \<notin> set l \<Longrightarrow> pieces 10 (concat (map (\<lambda>l. l @ [10]) ls)) = ls @ [[]]"
  by (induction ls) simp_all

text \<open>A newline in a field forges a line: the host of a request is any sequence of bytes.\<close>

lemma forged_line:
  assumes "0 \<notin> set dest" and "plain ts" and "plain u" and "plain c" and "plain o'" and "plain d"
  shows "access_line ts (Some usr) (Some cmd) (Some origin)
      (Some (dest @ [9] @ ascii ''status=0'' @ [10] @ ts @ [9] @ u @ [9] @ c @ [9] @ o' @ ascii '' -> '' @ d)) st =
    access_line ts (Some usr) (Some cmd) (Some origin) (Some dest) 0 @ access_line ts (Some u) (Some c) (Some o') (Some d) st"
proof -
  have "0 \<notin> set (ascii ''status=0'')" "0 \<notin> set (ascii '' -> '')" by (simp_all add: ascii_def)
  then have "0 \<notin> set (dest @ [9] @ ascii ''status=0'' @ [10] @ ts @ [9] @ u @ [9] @ c @ [9] @ o' @ ascii '' -> '' @ d)"
    using assms by (simp add: plain_def)
  moreover have "ascii ''status=0'' = ascii ''status='' @ show_int 0"
    by (simp add: ascii_def show_int_def show_nat.simps)
  ultimately show ?thesis using assms by (simp add: access_line_def or_dash_def cstr_no_nul plain_def)
qed

section \<open>Property\<close>

text \<open>C39: the access log can be read back: when the fields and the time have no NUL, tabulator or newline and
  the addresses of the clients no blank, what a sequence of events has written since \<open>logger_init\<close> is, line by
  line, these events with their times.\<close>

theorem log_read_back:
  assumes "\<forall>e \<in> set es. readable (snd e) \<and> pred_option plain (fst e)"
    and "lg = logger_init f \<lparr>access_file = a, written = \<lambda>_. []\<rparr>"
  shows "map read_line (butlast (pieces 10 (written (write_log es lg) (case f of None \<Rightarrow> StdOut | Some g \<Rightarrow> g)))) =
    map (\<lambda>e. Some (iso8601_now (fst e) 64, snd e)) es"
proof -
  let ?f = "case f of None \<Rightarrow> StdOut | Some g \<Rightarrow> g" and ?lines = "map (\<lambda>e. line_of (iso8601_now (fst e) 64) (snd e)) es"
  have "written (write_log es lg) ?f = concat (map (\<lambda>l. l @ [10]) ?lines)"
    using write_log_text [of es lg ?f] assms by (simp add: logger_init_def comp_def)
  moreover have "\<forall>l \<in> set ?lines. 10 \<notin> set l" using assms(1) line_no_newline plain_iso by auto
  moreover have "map read_line ?lines = map (\<lambda>e. Some (iso8601_now (fst e) 64, snd e)) es"
    using assms(1) read_line_of plain_iso by auto
  ultimately show ?thesis using pieces_lines [of ?lines] by simp
qed

lemma log_read_back_witness:
  "map read_line (butlast (pieces 10 (written (write_log
       [(Some (ascii ''12:00''), LogAccess (ascii ''ana'') (ascii ''CONNECT'') (ascii ''10.0.0.1:4000'') (ascii ''host:80'') 5)]
       (logger_init None \<lparr>access_file = None, written = \<lambda>_. []\<rparr>)) StdOut))) =
   [Some (ascii ''12:00'', LogAccess (ascii ''ana'') (ascii ''CONNECT'') (ascii ''10.0.0.1:4000'') (ascii ''host:80'') 5)]"
proof -
  let ?e = "LogAccess (ascii ''ana'') (ascii ''CONNECT'') (ascii ''10.0.0.1:4000'') (ascii ''host:80'') 5"
  have "readable ?e" "plain (ascii ''12:00'')" by (simp_all add: plain_def ascii_def)
  then have "\<forall>e \<in> set [(Some (ascii ''12:00''), ?e)]. readable (snd e) \<and> pred_option plain (fst e)" by simp
  moreover have "iso8601_now (Some (ascii ''12:00'')) 64 = ascii ''12:00''" by (simp add: iso8601_now_def ascii_def)
  ultimately show ?thesis
    using log_read_back [of "[(Some (ascii ''12:00''), ?e)]" "logger_init None \<lparr>access_file = None, written = \<lambda>_. []\<rparr>" None None]
    by simp
qed

end
