(* ===== verification/Socks5.thy ===== *)
theory Socks5
  imports Proxy_State
begin

text \<open>
  \<open>src/socks5.c\<close>: a SOCKS5 connection as a state machine driven by the multiplexer. Every handler
  is a function on the whole state; \<^const>\<open>None\<close> is a failed assertion, an \<open>abort()\<close>, or a dangling
  pointer. \<open>getaddrinfo\<close> runs in another thread: \<open>dns_resolve_async\<close> only starts it, and its end
  is the step \<open>dns_finish\<close>.
\<close>

section \<open>States\<close>

definition HELLO_READ :: nat where "HELLO_READ = 0"
definition HELLO_WRITE :: nat where "HELLO_WRITE = 1"
definition AUTH_READ :: nat where "AUTH_READ = 2"
definition AUTH_WRITE :: nat where "AUTH_WRITE = 3"
definition REQUEST_READ :: nat where "REQUEST_READ = 4"
definition REQUEST_RESOLV :: nat where "REQUEST_RESOLV = 5"
definition REQUEST_CONNECTING :: nat where "REQUEST_CONNECTING = 6"
definition REQUEST_WRITE :: nat where "REQUEST_WRITE = 7"
definition COPY :: nat where "COPY = 8"
definition DONE :: nat where "DONE = 9"
definition ERROR_STATE :: nat where "ERROR_STATE = 10"

lemmas state_defs = HELLO_READ_def HELLO_WRITE_def AUTH_READ_def AUTH_WRITE_def REQUEST_READ_def
  REQUEST_RESOLV_def REQUEST_CONNECTING_def REQUEST_WRITE_def COPY_def DONE_def ERROR_STATE_def

section \<open>Helpers\<close>

definition errno_to_reply :: "errno \<Rightarrow> byte" where
  "errno_to_reply e =
     (case e of
        ENOERROR \<Rightarrow> SOCKS5_REP_SUCCESS
      | ECONNREFUSED \<Rightarrow> SOCKS5_REP_CONNECTION_REFUSED
      | ENETUNREACH \<Rightarrow> SOCKS5_REP_NETWORK_UNREACHABLE
      | ENETDOWN \<Rightarrow> SOCKS5_REP_NETWORK_UNREACHABLE
      | EHOSTUNREACH \<Rightarrow> SOCKS5_REP_HOST_UNREACHABLE
      | EHOSTDOWN \<Rightarrow> SOCKS5_REP_HOST_UNREACHABLE
      | ETIMEDOUT \<Rightarrow> SOCKS5_REP_TTL_EXPIRED
      | _ \<Rightarrow> SOCKS5_REP_GENERAL_FAILURE)"

text \<open>The bytes \<open>build_reply\<close> writes, given the local address of the origin socket\<close>

definition reply_bytes :: "byte \<Rightarrow> sockaddr option \<Rightarrow> byte list" where
  "reply_bytes rep local =
     [0x05, rep, 0x00] @
     (case local of
        Some (SockIn6 port ip) \<Rightarrow>
          SOCKS5_ATYP_IPV6 # ip @ [ucast (drop_bit 8 port), ucast (port AND 0xFF)]
      | Some (SockIn port ip) \<Rightarrow>
          SOCKS5_ATYP_IPV4 # ip @ [ucast (drop_bit 8 port), ucast (port AND 0xFF)]
      | Some (SockOther port ip) \<Rightarrow>
          SOCKS5_ATYP_IPV4 # ip @ [ucast (drop_bit 8 port), ucast (port AND 0xFF)]
      | None \<Rightarrow> SOCKS5_ATYP_IPV4 # replicate 6 0x00)"

definition build_reply :: "'w os \<Rightarrow> nat \<Rightarrow> byte \<Rightarrow> 'w state \<Rightarrow> 'w state option" where
  "build_reply os p rep st = do {
     s \<leftarrow> get_conn p st;
     let (local, st) =
       (if rep = SOCKS5_REP_SUCCESS \<and> origin_fd s \<ge> 0
        then sys (os_getsockname os (origin_fd s)) st else (None, st));
     wb \<leftarrow> buffer_write_list (buffer_reset (write_buffer s)) (reply_bytes rep local);
     Some (put_conn p (s\<lparr>write_buffer := wb\<rparr>) st)
   }"

text \<open>\<open>origin_string\<close> into an array of \<open>SOCKADDR_TO_HUMAN_MIN\<close> bytes whose old content is \<open>mem\<close>\<close>

definition origin_string :: "'w os \<Rightarrow> byte list \<Rightarrow> socks5 \<Rightarrow> byte list option" where
  "origin_string os mem s =
     map_option cstr (sockaddr_to_human os mem SOCKADDR_TO_HUMAN_MIN (Some (client_addr s)))"

text \<open>\<open>snprintf(dest, 300, "%s:%u", dest_host, dest_port)\<close> and the user name of the log\<close>

definition dest_string :: "socks5 \<Rightarrow> byte list" where
  "dest_string s = take 299 (cstr (dest_host s) @ ascii '':'' @ show_nat (unat (dest_port s)))"

definition log_user :: "socks5 \<Rightarrow> byte list" where
  "log_user s = (if cstr (username s) \<noteq> [] then cstr (username s) else ascii ''-'')"

section \<open>Connecting to the origin\<close>

text \<open>The loop of \<open>start_connection\<close>; the first argument is \<open>naddrs - addr_idx\<close>.\<close>

primrec connect_loop :: "nat \<Rightarrow> 'w os \<Rightarrow> nat \<Rightarrow> 'w state \<Rightarrow> (nat \<times> 'w state) option" where
  "connect_loop 0 os p st = do {
     s \<leftarrow> get_conn p st;
     Some (REQUEST_WRITE,
       put_conn p (if reply s = SOCKS5_REP_SUCCESS then s\<lparr>reply := SOCKS5_REP_HOST_UNREACHABLE\<rparr> else s) st)
   }"
| "connect_loop (Suc n) os p st = do {
     s \<leftarrow> get_conn p st;
     if \<not> addr_idx s < length (addrs s) then None
     else let ss = addrs s ! addr_idx s;
              next = s\<lparr>addr_idx := addr_idx s + 1\<rparr>;
              (r, st) = sys (os_socket os (sa_family ss)) st in
       case r of
         Inl e \<Rightarrow> connect_loop n os p (put_conn p (next\<lparr>reply := errno_to_reply e\<rparr>) st)
       | Inr fd \<Rightarrow>
           let (nio, st) = sys (selector_fd_set_nio os fd) st in
           if nio < 0
           then connect_loop n os p (put_conn p next (sys_unit (os_close os fd) st))
           else let (c, st) = sys (os_connect os fd ss) st in
             case c of
               None \<Rightarrow> do {
                 (r, st) \<leftarrow> register_fd fd SocksHandler OP_NOOP (Some (SocksConn p)) st;
                 if r \<noteq> SELECTOR_SUCCESS
                 then connect_loop n os p (put_conn p next (sys_unit (os_close os fd) st))
                 else Some (REQUEST_WRITE, put_conn p (s\<lparr>origin_fd := fd,
                   references := references s + 1, reply := SOCKS5_REP_SUCCESS\<rparr>) st)
               }
             | Some e \<Rightarrow>
                 if e = EINPROGRESS \<or> e = EINTR
                 then do {
                   (r, st) \<leftarrow> register_fd fd SocksHandler OP_WRITE (Some (SocksConn p)) st;
                   if r \<noteq> SELECTOR_SUCCESS
                   then connect_loop n os p (put_conn p next (sys_unit (os_close os fd) st))
                   else Some (REQUEST_CONNECTING, put_conn p (s\<lparr>origin_fd := fd,
                     references := references s + 1\<rparr>) st)
                 }
                 else connect_loop n os p (put_conn p (next\<lparr>reply := errno_to_reply e\<rparr>)
                   (sys_unit (os_close os fd) st))
   }"

definition start_connection :: "'w os \<Rightarrow> nat \<Rightarrow> 'w state \<Rightarrow> (nat \<times> 'w state) option" where
  "start_connection os p st = do {
     s \<leftarrow> get_conn p st;
     connect_loop (naddrs s - addr_idx s) os p st
   }"

section \<open>Reading a message and writing an answer\<close>

text \<open>The lines that \<open>hello_read\<close>, \<open>auth_read\<close> and \<open>request_read\<close> begin with: the next state when
  nothing has been received, or the connection with the bytes in its read buffer.\<close>

definition receive :: "'w os \<Rightarrow> nat \<Rightarrow> nat \<Rightarrow> 'w state \<Rightarrow> ((nat + socks5) \<times> 'w state) option" where
  "receive os state p st = do {
     s \<leftarrow> get_conn p st;
     (ptr, space) \<leftarrow> buffer_write_ptr (read_buffer s);
     let (r, st) = sys (os_recv os (client_fd s) space) st;
     case r of
       Inl e \<Rightarrow> Some (Inl (if would_block e then state else ERROR_STATE), st)
     | Inr bs \<Rightarrow>
         if bs = [] then Some (Inl ERROR_STATE, st)
         else do {
           b \<leftarrow> buffer_write_adv (buffer_poke (read_buffer s) ptr bs) (int (length bs));
           Some (Inr (s\<lparr>read_buffer := b\<rparr>), st)
         }
   }"

text \<open>The lines that \<open>hello_write\<close>, \<open>auth_write\<close> and \<open>request_write\<close> begin with: the next state
  while something is left to send, or the connection with an empty write buffer.\<close>

definition transmit :: "'w os \<Rightarrow> nat \<Rightarrow> nat \<Rightarrow> 'w state \<Rightarrow> ((nat + socks5) \<times> 'w state) option" where
  "transmit os state p st = do {
     s \<leftarrow> get_conn p st;
     (ptr, n) \<leftarrow> buffer_read_ptr (write_buffer s);
     let (r, st) = sys (os_send os (client_fd s) (buffer_peek (write_buffer s) ptr n)) st;
     case r of
       Inl e \<Rightarrow> Some (Inl (if would_block e then state else ERROR_STATE), st)
     | Inr w \<Rightarrow> do {
         b \<leftarrow> buffer_read_adv (write_buffer s) (int w);
         let s = s\<lparr>write_buffer := b\<rparr>;
         Some (if buffer_can_read b then Inl state else Inr s, put_conn p s st)
       }
   }"

text \<open>Setting the interest of the client; a failure is \<open>ERROR_STATE\<close>.\<close>

definition client_interest ::
    "nat \<Rightarrow> fd_interest \<Rightarrow> nat \<Rightarrow> 'w state \<Rightarrow> (nat \<times> 'w state) option" where
  "client_interest p i next st = do {
     s \<leftarrow> get_conn p st;
     (r, st) \<leftarrow> set_interest (client_fd s) i st;
     Some (if r \<noteq> SELECTOR_SUCCESS then ERROR_STATE else next, st)
   }"

section \<open>Greeting\<close>

definition choose_method :: "proxy_config \<Rightarrow> socks5 \<Rightarrow> byte" where
  "choose_method cfg s =
     (if cfg_auth_required cfg
      then (if has_userpass (hello s) then SOCKS5_METHOD_USERPASS else SOCKS5_METHOD_NONE)
      else if has_noauth (hello s) then SOCKS5_METHOD_NO_AUTH
      else if has_userpass (hello s) then SOCKS5_METHOD_USERPASS
      else SOCKS5_METHOD_NONE)"

definition hello_read :: "'w os \<Rightarrow> pointer key \<Rightarrow> 'w state \<Rightarrow> (nat \<times> 'w state) option" where
  "hello_read os key st = do {
     p \<leftarrow> attach key;
     (r, st) \<leftarrow> receive os HELLO_READ p st;
     case r of
       Inl next \<Rightarrow> Some (next, st)
     | Inr s \<Rightarrow> do {
         (hp, b, fin, error) \<leftarrow> hello_parser_consume (hello s) (read_buffer s) False;
         let s = s\<lparr>hello := hp, read_buffer := b\<rparr>;
         if \<not> fin then Some (HELLO_READ, put_conn p s st)
         else if error then Some (ERROR_STATE, put_conn p s st)
         else do {
           let s = s\<lparr>nego_method := choose_method (config st) s\<rparr>;
           wb \<leftarrow> buffer_write_list (buffer_reset (write_buffer s)) [0x05, nego_method s];
           client_interest p OP_WRITE HELLO_WRITE (put_conn p (s\<lparr>write_buffer := wb\<rparr>) st)
         }
       }
   }"

definition hello_write :: "'w os \<Rightarrow> pointer key \<Rightarrow> 'w state \<Rightarrow> (nat \<times> 'w state) option" where
  "hello_write os key st = do {
     p \<leftarrow> attach key;
     (r, st) \<leftarrow> transmit os HELLO_WRITE p st;
     case r of
       Inl next \<Rightarrow> Some (next, st)
     | Inr s \<Rightarrow>
         if nego_method s = SOCKS5_METHOD_NONE then Some (DONE, st)
         else client_interest p OP_READ
           (if nego_method s = SOCKS5_METHOD_USERPASS then AUTH_READ else REQUEST_READ) st
   }"

section \<open>Authentication\<close>

definition auth_read :: "'w os \<Rightarrow> pointer key \<Rightarrow> 'w state \<Rightarrow> (nat \<times> 'w state) option" where
  "auth_read os key st = do {
     p \<leftarrow> attach key;
     (r, st) \<leftarrow> receive os AUTH_READ p st;
     case r of
       Inl next \<Rightarrow> Some (next, st)
     | Inr s \<Rightarrow> do {
         (ap, b, fin, error) \<leftarrow> auth_parser_consume (auth s) (read_buffer s) False;
         let s = s\<lparr>auth := ap, read_buffer := b\<rparr>;
         if \<not> fin then Some (AUTH_READ, put_conn p s st)
         else if error then Some (ERROR_STATE, put_conn p s st)
         else do {
           let s = s\<lparr>
             auth_ok := users_check (sv_users (px_services (snd st)))
               (Some (ap_username ap)) (Some (ap_password ap)),
             username := (strncpy (username s) (ap_username ap) 255)[255 := 0]\<rparr>;
           wb \<leftarrow> buffer_write_list (buffer_reset (write_buffer s)) [0x01, if auth_ok s then 0x00 else 0x01];
           client_interest p OP_WRITE AUTH_WRITE (put_conn p (s\<lparr>write_buffer := wb\<rparr>) st)
         }
       }
   }"

definition auth_write :: "'w os \<Rightarrow> pointer key \<Rightarrow> 'w state \<Rightarrow> (nat \<times> 'w state) option" where
  "auth_write os key st = do {
     p \<leftarrow> attach key;
     (r, st) \<leftarrow> transmit os AUTH_WRITE p st;
     case r of
       Inl next \<Rightarrow> Some (next, st)
     | Inr s \<Rightarrow>
         if \<not> auth_ok s then Some (DONE, st)
         else client_interest p OP_READ REQUEST_READ st
   }"

section \<open>Request\<close>

definition dns_blank :: dns_request where
  "dns_blank = \<lparr>dq_notify_fd = 0, dq_conn = 0, dq_host = replicate 256 0, dq_service = replicate 8 0,
     dq_result = None, dq_status = 0\<rparr>"

text \<open>\<open>dns_resolve_async\<close> of \<open>src/dns.c\<close>: whether the attributes and the thread could be created\<close>

definition dns_resolve_async :: "'w os \<Rightarrow> 'w state \<Rightarrow> int \<times> 'w state" where
  "dns_resolve_async os st =
     (let (r, st) = sys (\<lambda>w. let (a, b, w) = os_thread_start os w in ((a, b), w)) st in
      (if \<not> fst r then -1 else if snd r then 0 else -1, st))"

definition process_request :: "'w os \<Rightarrow> nat \<Rightarrow> pointer key \<Rightarrow> 'w state \<Rightarrow> (nat \<times> 'w state) option" where
  "process_request os p key st = do {
     s \<leftarrow> get_conn p st;
     let rq = request s;
     if rp_cmd rq \<noteq> SOCKS5_CMD_CONNECT
     then Some (REQUEST_WRITE, put_conn p (s\<lparr>reply := SOCKS5_REP_COMMAND_NOT_SUPPORTED\<rparr>) st)
     else let s = s\<lparr>dest_port := rp_port rq\<rparr> in
     if rp_atyp rq = SOCKS5_ATYP_IPV4 then
       (let a = SockIn (rp_port rq) (take 4 (rp_addr rq)) in
        start_connection os p (put_conn p (s\<lparr>addrs := (addrs s)[0 := a], naddrs := 1, addr_idx := 0,
          dest_host := memcpy_at (dest_host s) 0 (os_inet_ntop os a @ [0])\<rparr>) st))
     else if rp_atyp rq = SOCKS5_ATYP_IPV6 then
       (let a = SockIn6 (rp_port rq) (take 16 (rp_addr rq)) in
        start_connection os p (put_conn p (s\<lparr>addrs := (addrs s)[0 := a], naddrs := 1, addr_idx := 0,
          dest_host := memcpy_at (dest_host s) 0 (os_inet_ntop os a @ [0])\<rparr>) st))
     else if rp_atyp rq = SOCKS5_ATYP_DOMAIN then
       (let host = (strncpy (dest_host s) (rp_addr rq) 255)[255 := 0];
            q = dns_blank\<lparr>dq_notify_fd := client_fd s, dq_conn := p,
              dq_host := snprintf_s (dq_host dns_blank) 256 host,
              dq_service := memcpy_at (dq_service dns_blank) 0 (show_nat (unat (rp_port rq)) @ [0])\<rparr>;
            s = s\<lparr>dest_host := host, dns := q\<rparr>;
            (rc, st) = dns_resolve_async os (put_conn p s st) in
        if rc \<noteq> 0
        then Some (REQUEST_WRITE, put_conn p (s\<lparr>reply := SOCKS5_REP_GENERAL_FAILURE\<rparr>) st)
        else Some (REQUEST_RESOLV, put_conn p (s\<lparr>resolving := True\<rparr>) st))
     else Some (REQUEST_WRITE, put_conn p (s\<lparr>reply := SOCKS5_REP_ATYP_NOT_SUPPORTED\<rparr>) st)
   }"

definition request_read :: "'w os \<Rightarrow> pointer key \<Rightarrow> 'w state \<Rightarrow> (nat \<times> 'w state) option" where
  "request_read os key st = do {
     p \<leftarrow> attach key;
     (r, st) \<leftarrow> receive os REQUEST_READ p st;
     case r of
       Inl next \<Rightarrow> Some (next, st)
     | Inr s \<Rightarrow> do {
         (rp, b, fin, error) \<leftarrow> request_parser_consume (request s) (read_buffer s) False;
         let s = s\<lparr>request := rp, read_buffer := b\<rparr>;
         let st = put_conn p s st;
         if \<not> fin then Some (REQUEST_READ, st)
         else do {
           (_, st) \<leftarrow> set_interest (client_fd s) OP_NOOP st;
           if error
           then Some (REQUEST_WRITE, put_conn p (s\<lparr>reply := SOCKS5_REP_GENERAL_FAILURE\<rparr>) st)
           else process_request os p key st
         }
       }
   }"

section \<open>Resolution\<close>

definition resolv_arrival :: "nat \<Rightarrow> pointer key \<Rightarrow> 'w state \<Rightarrow> 'w state option" where
  "resolv_arrival state key st = do {
     p \<leftarrow> attach key;
     s \<leftarrow> get_conn p st;
     map_option snd (set_interest (client_fd s) OP_NOOP st)
   }"

text \<open>The loop over the \<open>addrinfo\<close> list: the addresses copied to slots \<open>n\<close>, \<open>n + 1\<close>, ...\<close>

fun copy_candidates :: "sockaddr list \<Rightarrow> nat \<Rightarrow> sockaddr list \<Rightarrow> nat \<times> sockaddr list" where
  "copy_candidates [] n arr = (n, arr)"
| "copy_candidates (a # as) n arr =
     (if \<not> n < MAX_ADDRS then (n, arr)
      else if sa_family a = AF_INET \<or> sa_family a = AF_INET6
      then copy_candidates as (n + 1) (arr[n := a])
      else copy_candidates as n arr)"

definition resolv_block :: "'w os \<Rightarrow> pointer key \<Rightarrow> 'w state \<Rightarrow> (nat \<times> 'w state) option" where
  "resolv_block os key st = do {
     p \<leftarrow> attach key;
     s \<leftarrow> get_conn p st;
     let s = s\<lparr>resolving := False\<rparr>;
     case (dq_status (dns s) \<noteq> 0, dq_result (dns s)) of
       (False, Some result) \<Rightarrow>
         (let (n, as) = copy_candidates result 0 (addrs s);
              s = s\<lparr>naddrs := n, addr_idx := 0, addrs := as, dns := dns_request_clear (dns s)\<rparr> in
          if n = 0
          then Some (REQUEST_WRITE, put_conn p (s\<lparr>reply := SOCKS5_REP_HOST_UNREACHABLE\<rparr>) st)
          else start_connection os p (put_conn p s st))
     | _ \<Rightarrow> Some (REQUEST_WRITE, put_conn p (s\<lparr>reply := SOCKS5_REP_HOST_UNREACHABLE,
         dns := dns_request_clear (dns s)\<rparr>) st)
   }"

section \<open>Connection in progress\<close>

definition connecting_write :: "'w os \<Rightarrow> pointer key \<Rightarrow> 'w state \<Rightarrow> (nat \<times> 'w state) option" where
  "connecting_write os key st = do {
     p \<leftarrow> attach key;
     s \<leftarrow> get_conn p st;
     let (r, st) = sys (os_so_error os (origin_fd s)) st;
     let error = (case r of Inl e \<Rightarrow> e | Inr e \<Rightarrow> e);
     if error = ENOERROR
     then Some (REQUEST_WRITE, put_conn p (s\<lparr>reply := SOCKS5_REP_SUCCESS\<rparr>) st)
     else do {
       (_, st) \<leftarrow> unregister_fd os (origin_fd s) (put_conn p (s\<lparr>reply := errno_to_reply error\<rparr>) st);
       s \<leftarrow> get_conn p st;
       start_connection os p (put_conn p (s\<lparr>origin_fd := -1, addr_idx := addr_idx s + 1\<rparr>) st)
     }
   }"

section \<open>Answering the request\<close>

definition request_write_arrival :: "'w os \<Rightarrow> nat \<Rightarrow> pointer key \<Rightarrow> 'w state \<Rightarrow> 'w state option" where
  "request_write_arrival os state key st = do {
     p \<leftarrow> attach key;
     s \<leftarrow> get_conn p st;
     st \<leftarrow> build_reply os p (reply s) st;
     st \<leftarrow> (if origin_fd s \<ge> 0 then map_option snd (set_interest (origin_fd s) OP_NOOP st) else Some st);
     map_option snd (set_interest (client_fd s) OP_WRITE st)
   }"

definition request_write :: "'w os \<Rightarrow> byte list \<Rightarrow> pointer key \<Rightarrow> 'w state \<Rightarrow> (nat \<times> 'w state) option" where
  "request_write os mem key st = do {
     p \<leftarrow> attach key;
     (r, st) \<leftarrow> transmit os REQUEST_WRITE p st;
     case r of
       Inl next \<Rightarrow> Some (next, st)
     | Inr s \<Rightarrow> do {
         origin \<leftarrow> origin_string os mem s;
         let st = add_log (LogAccess (log_user s) (ascii ''CONNECT'') origin (dest_string s) (reply s)) st;
         if reply s \<noteq> SOCKS5_REP_SUCCESS
         then Some (DONE, upd_metrics metrics_connection_failed st)
         else Some (COPY, st)
       }
   }"

section \<open>Relaying\<close>

definition copy_compute_interests :: "nat \<Rightarrow> 'w state \<Rightarrow> 'w state option" where
  "copy_compute_interests p st = do {
     s \<leftarrow> get_conn p st;
     let cif = (if \<not> client_eof s \<and> buffer_can_write (read_buffer s) then OP_READ else OP_NOOP)
       OR (if buffer_can_read (write_buffer s) then OP_WRITE else OP_NOOP);
     let oif = (if \<not> origin_eof s \<and> buffer_can_write (write_buffer s) then OP_READ else OP_NOOP)
       OR (if buffer_can_read (read_buffer s) then OP_WRITE else OP_NOOP);
     (_, st) \<leftarrow> set_interest (client_fd s) cif st;
     (_, st) \<leftarrow> set_interest (origin_fd s) oif st;
     Some st
   }"

definition copy_arrival :: "nat \<Rightarrow> pointer key \<Rightarrow> 'w state \<Rightarrow> 'w state option" where
  "copy_arrival state key st = do {
     p \<leftarrow> attach key;
     s \<leftarrow> get_conn p st;
     copy_compute_interests p (put_conn p (s\<lparr>client_eof := False, origin_eof := False,
       client_wr_shut := False, origin_wr_shut := False,
       sniff_pop3 := unat (dest_port s) = POP3_PORT \<and> cfg_pop3_sniff (config st)\<rparr>) st)
   }"

text \<open>\<open>on_pop3_credential\<close> for every pair the dissector reports\<close>

definition log_credentials :: "'w os \<Rightarrow> byte list \<Rightarrow> socks5 \<Rightarrow> credential list \<Rightarrow> 'w state \<Rightarrow> 'w state option" where
  "log_credentials os mem s creds st =
     (if creds = [] then Some st
      else do {
        origin \<leftarrow> origin_string os mem s;
        Some (fold (\<lambda>(u, w). add_log (LogPop3 (log_user s) origin (dest_string s) u w)) creds st)
      })"

definition copy_update :: "'w os \<Rightarrow> nat \<Rightarrow> 'w state \<Rightarrow> (nat \<times> 'w state) option" where
  "copy_update os p st = do {
     s \<leftarrow> get_conn p st;
     let shut_origin = (client_eof s \<and> \<not> buffer_can_read (read_buffer s) \<and> \<not> origin_wr_shut s);
     let st = (if shut_origin then sys_unit (os_shutdown_wr os (origin_fd s)) st else st);
     let s = (if shut_origin then s\<lparr>origin_wr_shut := True\<rparr> else s);
     let shut_client = (origin_eof s \<and> \<not> buffer_can_read (write_buffer s) \<and> \<not> client_wr_shut s);
     let st = (if shut_client then sys_unit (os_shutdown_wr os (client_fd s)) st else st);
     let s = (if shut_client then s\<lparr>client_wr_shut := True\<rparr> else s);
     let st = put_conn p s st;
     let c2o_done = (client_eof s \<and> \<not> buffer_can_read (read_buffer s));
     let o2c_done = (origin_eof s \<and> \<not> buffer_can_read (write_buffer s));
     if c2o_done \<and> o2c_done then Some (DONE, st)
     else do {
       st \<leftarrow> copy_compute_interests p st;
       Some (COPY, st)
     }
   }"

text \<open>The loop of \<open>copy_pump\<close> on a buffer and the world: true on a hard error.\<close>

function pump_loop :: "'w os \<Rightarrow> int \<Rightarrow> buffer \<Rightarrow> 'w \<Rightarrow> (bool \<times> buffer \<times> 'w) option" where
  "pump_loop os dst b w =
     (if \<not> buffer_can_read b then Some (False, b, w)
      else case buffer_read_ptr b of None \<Rightarrow> None
      | Some (p, n) \<Rightarrow>
          (case os_send os dst (buffer_peek b p n) w of
             (Inl e, w) \<Rightarrow> Some (\<not> would_block e, b, w)
           | (Inr m, w) \<Rightarrow>
               if m > 0
               then (case buffer_read_adv b (int m) of None \<Rightarrow> None
                 | Some b' \<Rightarrow> pump_loop os dst b' w)
               else Some (True, b, w)))"
  by pat_completeness auto
termination
  by (relation "measure (\<lambda>(os, dst, b, w). b_write b - b_read b)")
    (auto simp: buffer_read_ptr_def buffer_read_adv_def buffer_compact_def buffer_can_read_def Let_def
      split: if_splits)

declare pump_loop.simps [simp del]

definition copy_pump :: "'w os \<Rightarrow> int \<Rightarrow> buffer \<Rightarrow> 'w state \<Rightarrow> ((bool \<times> buffer) \<times> 'w state) option" where
  "copy_pump os dst b st = do {
     (err, b, w) \<leftarrow> pump_loop os dst b (px_world (snd st));
     Some ((err, b), fst st, (snd st)\<lparr>px_world := w\<rparr>)
   }"

definition copy_read :: "'w os \<Rightarrow> byte list \<Rightarrow> pointer key \<Rightarrow> 'w state \<Rightarrow> (nat \<times> 'w state) option" where
  "copy_read os mem key st = do {
     p \<leftarrow> attach key;
     s \<leftarrow> get_conn p st;
     if fst key = client_fd s
     then do {
       (ptr, space) \<leftarrow> buffer_write_ptr (read_buffer s);
       if space = 0 then copy_update os p st
       else let (r, st) = sys (os_recv os (client_fd s) space) st in
         case r of
           Inl e \<Rightarrow> copy_update os p (put_conn p (if would_block e then s else s\<lparr>client_eof := True\<rparr>) st)
         | Inr bs \<Rightarrow>
             if bs = [] then copy_update os p (put_conn p (s\<lparr>client_eof := True\<rparr>) st)
             else do {
               b \<leftarrow> buffer_write_adv (buffer_poke (read_buffer s) ptr bs) (int (length bs));
               let st = upd_metrics (metrics_add_sent (of_nat (length bs))) st;
               let (sn, creds) = (if sniff_pop3 s then pop3_sniffer_feed (pop3 s) bs else (pop3 s, []));
               st \<leftarrow> log_credentials os mem s creds st;
               ((err, b), st) \<leftarrow> copy_pump os (origin_fd s) b st;
               let st = put_conn p (s\<lparr>read_buffer := b, pop3 := sn\<rparr>) st;
               if err then Some (DONE, st) else copy_update os p st
             }
     }
     else do {
       (ptr, space) \<leftarrow> buffer_write_ptr (write_buffer s);
       if space = 0 then copy_update os p st
       else let (r, st) = sys (os_recv os (origin_fd s) space) st in
         case r of
           Inl e \<Rightarrow> copy_update os p (put_conn p (if would_block e then s else s\<lparr>origin_eof := True\<rparr>) st)
         | Inr bs \<Rightarrow>
             if bs = [] then copy_update os p (put_conn p (s\<lparr>origin_eof := True\<rparr>) st)
             else do {
               b \<leftarrow> buffer_write_adv (buffer_poke (write_buffer s) ptr bs) (int (length bs));
               let st = upd_metrics (metrics_add_received (of_nat (length bs))) st;
               ((err, b), st) \<leftarrow> copy_pump os (client_fd s) b st;
               let st = put_conn p (s\<lparr>write_buffer := b\<rparr>) st;
               if err then Some (DONE, st) else copy_update os p st
             }
     }
   }"

definition copy_write :: "'w os \<Rightarrow> pointer key \<Rightarrow> 'w state \<Rightarrow> (nat \<times> 'w state) option" where
  "copy_write os key st = do {
     p \<leftarrow> attach key;
     s \<leftarrow> get_conn p st;
     if fst key = client_fd s
     then do {
       ((err, b), st) \<leftarrow> copy_pump os (client_fd s) (write_buffer s) st;
       let st = put_conn p (s\<lparr>write_buffer := b\<rparr>) st;
       if err then Some (DONE, st) else copy_update os p st
     }
     else do {
       ((err, b), st) \<leftarrow> copy_pump os (origin_fd s) (read_buffer s) st;
       let st = put_conn p (s\<lparr>read_buffer := b\<rparr>) st;
       if err then Some (DONE, st) else copy_update os p st
     }
   }"

section \<open>The table of states\<close>

definition socks5_states ::
    "'w os \<Rightarrow> byte list \<Rightarrow> (pointer key, 'w state) state_definition list" where
  "socks5_states os mem =
     [(plain_state HELLO_READ)\<lparr>on_read_ready := Some (hello_read os)\<rparr>,
      (plain_state HELLO_WRITE)\<lparr>on_write_ready := Some (hello_write os)\<rparr>,
      (plain_state AUTH_READ)\<lparr>on_read_ready := Some (auth_read os)\<rparr>,
      (plain_state AUTH_WRITE)\<lparr>on_write_ready := Some (auth_write os)\<rparr>,
      (plain_state REQUEST_READ)\<lparr>on_read_ready := Some (request_read os)\<rparr>,
      (plain_state REQUEST_RESOLV)\<lparr>on_arrival := Some resolv_arrival,
        on_block_ready := Some (resolv_block os)\<rparr>,
      (plain_state REQUEST_CONNECTING)\<lparr>on_write_ready := Some (connecting_write os)\<rparr>,
      (plain_state REQUEST_WRITE)\<lparr>on_arrival := Some (request_write_arrival os),
        on_write_ready := Some (request_write os mem)\<rparr>,
      (plain_state COPY)\<lparr>on_arrival := Some copy_arrival, on_read_ready := Some (copy_read os mem),
        on_write_ready := Some (copy_write os)\<rparr>,
      plain_state DONE,
      plain_state ERROR_STATE]"

text \<open>\<open>&ATTACH(key)->stm\<close>\<close>

definition get_stm :: "pointer key \<Rightarrow> 'w state \<Rightarrow> state_machine option" where
  "get_stm key st = do { p \<leftarrow> attach key; s \<leftarrow> get_conn p st; Some (stm s) }"

definition put_stm :: "pointer key \<Rightarrow> state_machine \<Rightarrow> 'w state \<Rightarrow> 'w state" where
  "put_stm key m st =
     (case attach key of None \<Rightarrow> st
      | Some p \<Rightarrow> (case get_conn p st of None \<Rightarrow> st | Some s \<Rightarrow> put_conn p (s\<lparr>stm := m\<rparr>) st))"

section \<open>The handlers of the multiplexer\<close>

definition socksv5_done :: "'w os \<Rightarrow> pointer key \<Rightarrow> 'w state \<Rightarrow> 'w state option" where
  "socksv5_done os key st = do {
     p \<leftarrow> attach key;
     s \<leftarrow> get_conn p st;
     let c = client_fd s;
     let o' = origin_fd s;
     st \<leftarrow> (if c \<noteq> -1 then map_option snd (unregister_fd os c st) else Some st);
     if o' \<noteq> -1 then map_option snd (unregister_fd os o' st) else Some st
   }"

definition finish :: "'w os \<Rightarrow> pointer key \<Rightarrow> nat \<times> 'w state \<Rightarrow> 'w state option" where
  "finish os key r =
     (if fst r = DONE \<or> fst r = ERROR_STATE then socksv5_done os key (snd r) else Some (snd r))"

definition socksv5_read :: "'w os \<Rightarrow> byte list \<Rightarrow> (pointer, 'w state) callback" where
  "socksv5_read os mem key st =
     Option.bind (stm_handler_read (socks5_states os mem) get_stm put_stm key st) (finish os key)"

definition socksv5_write :: "'w os \<Rightarrow> byte list \<Rightarrow> (pointer, 'w state) callback" where
  "socksv5_write os mem key st =
     Option.bind (stm_handler_write (socks5_states os mem) get_stm put_stm key st) (finish os key)"

definition socksv5_block :: "'w os \<Rightarrow> byte list \<Rightarrow> (pointer, 'w state) callback" where
  "socksv5_block os mem key st =
     Option.bind (stm_handler_block (socks5_states os mem) get_stm put_stm key st) (finish os key)"

section \<open>Life cycle\<close>

text \<open>A zeroed \<open>struct socks5\<close>, from \<open>calloc\<close> or \<open>memset\<close>\<close>

definition zero_conn :: socks5 where
  "zero_conn = \<lparr>client_fd = 0, origin_fd = 0, client_addr = SockOther 0 [0, 0, 0, 0],
     stm = \<lparr>sm_initial = 0, sm_max_state = 0, sm_current = None\<rparr>,
     hello = \<lparr>hp_state = HELLO_VERSION, hp_remaining = 0, has_noauth = False, has_userpass = False\<rparr>,
     auth = \<lparr>ap_state = AUTH_VERSION, ap_ulen = 0, ap_plen = 0, ap_idx = 0,
       ap_username = replicate 256 0, ap_password = replicate 256 0\<rparr>,
     request = \<lparr>rp_state = REQ_VERSION, rp_cmd = 0, rp_atyp = 0, rp_addr_len = 0, rp_idx = 0,
       rp_addr = replicate 256 0, rp_port = 0, rp_port_idx = 0\<rparr>,
     nego_method = 0, auth_ok = False, username = replicate 256 0,
     addrs = replicate MAX_ADDRS (SockOther 0 [0, 0, 0, 0]), naddrs = 0, addr_idx = 0,
     dns = dns_blank, resolving = False, dest_host = replicate 256 0, dest_port = 0, reply = 0,
     client_eof = False, origin_eof = False, client_wr_shut = False, origin_wr_shut = False,
     sniff_pop3 = False,
     pop3 = \<lparr>p3_line = replicate 512 0, p3_len = 0, p3_overflow = False, p3_user = replicate 256 0,
       p3_have_user = False\<rparr>,
     raw_read = None, raw_write = None, read_buffer = buffer_init 0 [], write_buffer = buffer_init 0 [],
     buffer_size = 0, references = 0\<rparr>"

text \<open>Where \<open>socks5_new\<close> gets the memory from: the pool, or \<open>calloc\<close>; \<^const>\<open>None\<close> inside is NULL.\<close>

definition conn_alloc :: "'w os \<Rightarrow> 'w state \<Rightarrow> ((nat \<times> socks5) option \<times> 'w state) option" where
  "conn_alloc os st =
     (case px_pool (snd st) of
        p # ps \<Rightarrow> do {
          s \<leftarrow> get_conn p st;
          Some (Some (p, zero_conn\<lparr>raw_read := raw_read s, raw_write := raw_write s,
              buffer_size := buffer_size s\<rparr>),
            fst st, (snd st)\<lparr>px_pool := ps, px_pool_size := px_pool_size (snd st) - 1\<rparr>)
        }
      | [] \<Rightarrow>
          let (ok, st) = sys (os_calloc_ok os) st in
          if ok
          then Some (Some (px_next (snd st), zero_conn),
            fst st, (snd st)\<lparr>px_next := px_next (snd st) + 1\<rparr>)
          else Some (None, st))"

definition socks5_new ::
    "'w os \<Rightarrow> byte list \<Rightarrow> int \<Rightarrow> 'w state \<Rightarrow> (nat option \<times> 'w state) option" where
  "socks5_new os mem fd st = do {
     (r, st) \<leftarrow> conn_alloc os st;
     case r of
       None \<Rightarrow> Some (None, st)
     | Some (p, s) \<Rightarrow>
         let want = unat (cfg_io_buffer_size (config st));
             want = (if want < CONFIG_MIN_BUFFER then CONFIG_MIN_BUFFER else want);
             (s, st) =
               (if raw_read s = None \<or> buffer_size s \<noteq> want
                then let (a, st) = sys (os_malloc os want) st; (b, st) = sys (os_malloc os want) st
                     in (s\<lparr>raw_read := a, raw_write := b, buffer_size := want\<rparr>, st)
                else (s, st)) in
         case (raw_read s, raw_write s) of
           (Some a, Some b) \<Rightarrow>
             let s = s\<lparr>client_fd := fd, origin_fd := -1, references := 0,
                 username := (username s)[0 := 0], reply := SOCKS5_REP_SUCCESS,
                 read_buffer := buffer_init (buffer_size s) a,
                 write_buffer := buffer_init (buffer_size s) b,
                 sniff_pop3 := False, pop3 := pop3_sniffer_init (pop3 s),
                 hello := hello_parser_init, auth := auth_parser_init (auth s),
                 request := request_parser_init (request s)\<rparr> in do {
               m \<leftarrow> stm_init (socks5_states os mem)
                 \<lparr>sm_initial = HELLO_READ, sm_max_state = ERROR_STATE, sm_current = sm_current (stm s)\<rparr>;
               Some (Some p, put_conn p (s\<lparr>stm := m\<rparr>) st)
             }
         | _ \<Rightarrow> Some (None, fst st, (snd st)\<lparr>px_conns := (px_conns (snd st))(p := None)\<rparr>)
   }"

definition socksv5_passive_accept :: "'w os \<Rightarrow> byte list \<Rightarrow> (pointer, 'w state) callback" where
  "socksv5_passive_accept os mem key st =
     (let (r, st) = sys (os_accept os (fst key)) st in
      case r of
        None \<Rightarrow> Some st
      | Some (client, addr) \<Rightarrow>
          let (n, st) = sys (selector_fd_set_nio os client) st in
          if n < 0 then Some (sys_unit (os_close os client) st)
          else do {
            (r, st) \<leftarrow> socks5_new os mem client st;
            case r of
              None \<Rightarrow> Some (sys_unit (os_close os client) st)
            | Some p \<Rightarrow> do {
                s \<leftarrow> get_conn p st;
                let st = put_conn p (s\<lparr>client_addr := addr\<rparr>) st;
                (r, st) \<leftarrow> register_fd client SocksHandler OP_READ (Some (SocksConn p)) st;
                if r \<noteq> SELECTOR_SUCCESS
                then do {
                  st \<leftarrow> socks5_destroy p st;
                  Some (sys_unit (os_close os client) st)
                }
                else do {
                  s \<leftarrow> get_conn p st;
                  Some (upd_metrics metrics_connection_opened (put_conn p (s\<lparr>references := 1\<rparr>) st))
                }
              }
          })"

text \<open>\<open>socksv5_pool_destroy\<close>\<close>

definition socksv5_pool_destroy :: "'w state \<Rightarrow> 'w state option" where
  "socksv5_pool_destroy st =
     (if \<forall>p \<in> set (px_pool (snd st)). px_conns (snd st) p \<noteq> None
      then Some (fst st, (snd st)\<lparr>px_pool := [], px_pool_size := 0,
        px_conns := (\<lambda>p. if p \<in> set (px_pool (snd st)) then None else px_conns (snd st) p)\<rparr>)
      else None)"

text \<open>The end of the resolver thread of the connection at \<open>p\<close>: the answer of \<open>getaddrinfo\<close> is stored
  in its \<open>struct dns_request\<close> and the main thread is notified.\<close>

definition dns_finish :: "bool \<Rightarrow> nat \<Rightarrow> int \<Rightarrow> sockaddr list option \<Rightarrow> 'w state \<Rightarrow> 'w state option" where
  "dns_finish malloc_ok p status result st = do {
     s \<leftarrow> get_conn p st;
     let st = put_conn p (s\<lparr>dns := (dns s)\<lparr>dq_result := result, dq_status := status\<rparr>\<rparr>) st;
     Some (snd (selector_notify_block malloc_ok (dq_notify_fd (dns s)) (fst st)), snd st)
   }"

end
