(* ===== verification/Mgmt.thy ===== *)
theory Mgmt
  imports Proxy_State
begin

text \<open>
  \<open>src/mgmt.c\<close>, lines 247 to 399: the management connections as handlers of the multiplexer.
\<close>

definition MGMT_RBUF :: nat where "MGMT_RBUF = 4096"

definition mgmt_done :: "'w os \<Rightarrow> pointer key \<Rightarrow> 'w state \<Rightarrow> 'w state option" where
  "mgmt_done os key st = map_option snd (unregister_fd os (fst key) st)"

text \<open>The loop of the source returns in every branch of its first round. \<open>user\<close> and \<open>pass\<close> are
  uninitialised arrays, the argument \<open>mem\<close>.\<close>

definition mgmt_try_process :: "'w os \<Rightarrow> byte list \<Rightarrow> pointer key \<Rightarrow> 'w state \<Rightarrow> 'w state option" where
  "mgmt_try_process os mem key st = do {
     p \<leftarrow> attach_mgmt key;
     c \<leftarrow> get_mgmt p st;
     (ptr, avail) \<leftarrow> buffer_read_ptr (mc_rbuf c);
     let window = buffer_peek (mc_rbuf c) ptr avail;
     if mc_state c = MGMT_AUTH then
       (let (rc, user, pass) = parse_auth window mem mem in
        if rc = 0 then Some st
        else if rc < 0 then mgmt_done os key st
        else do {
          rb \<leftarrow> buffer_read_adv (mc_rbuf c) rc;
          let cfg = config st;
          let ok = (strcmp_eq user (cfg_admin_user cfg) \<and> strcmp_eq pass (cfg_admin_pass cfg));
          wb \<leftarrow> buffer_write (buffer_reset (mc_wbuf c)) SMP_VERSION;
          wb \<leftarrow> buffer_write wb (if ok then SMP_AUTH_OK else SMP_AUTH_FAILED);
          let st = put_mgmt p (c\<lparr>mc_rbuf := rb, mc_wbuf := wb, mc_auth_ok := ok,
            mc_close_after_write := \<not> ok, mc_state := MGMT_AUTH_REPLY\<rparr>) st;
          map_option snd (set_interest (mc_fd c) OP_WRITE st)
        })
     else if mc_state c = MGMT_REQUEST then
       (let (rc, r) = parse_request window blank_req in
        if rc = 0 then Some st
        else let wb = buffer_reset (mc_wbuf c); st = put_mgmt p (c\<lparr>mc_wbuf := wb\<rparr>) st in
        if rc = -1 then mgmt_done os key st
        else do {
          (rb, wb, st) \<leftarrow>
            (if rc = -2 then do {
               rb \<leftarrow> buffer_read_adv (mc_rbuf c) 2;
               wb \<leftarrow> resp_simple wb (rq_cmd r) SMP_UNKNOWN_COMMAND;
               Some (rb, wb, st)
             } else do {
               rb \<leftarrow> buffer_read_adv (mc_rbuf c) rc;
               (wb, sv) \<leftarrow> mgmt_process_request r (px_services (snd st)) wb;
               Some (rb, wb, upd_services (\<lambda>_. sv) st)
             });
          let st = put_mgmt p (c\<lparr>mc_rbuf := rb, mc_wbuf := wb, mc_state := MGMT_RESPONSE\<rparr>) st;
          map_option snd (set_interest (mc_fd c) OP_WRITE st)
        })
     else Some st
   }"

definition mgmt_read :: "'w os \<Rightarrow> byte list \<Rightarrow> (pointer, 'w state) callback" where
  "mgmt_read os mem key st = do {
     p \<leftarrow> attach_mgmt key;
     c \<leftarrow> get_mgmt p st;
     (ptr, space) \<leftarrow> buffer_write_ptr (mc_rbuf c);
     if space = 0 then mgmt_done os key st
     else let (r, st) = sys (os_recv os (mc_fd c) space) st in
       case r of
         Inl e \<Rightarrow> if would_block e then Some st else mgmt_done os key st
       | Inr bs \<Rightarrow>
           if bs = [] then mgmt_done os key st
           else do {
             rb \<leftarrow> buffer_write_adv (buffer_poke (mc_rbuf c) ptr bs) (int (length bs));
             mgmt_try_process os mem key (put_mgmt p (c\<lparr>mc_rbuf := rb\<rparr>) st)
           }
   }"

definition mgmt_write :: "'w os \<Rightarrow> byte list \<Rightarrow> (pointer, 'w state) callback" where
  "mgmt_write os mem key st = do {
     p \<leftarrow> attach_mgmt key;
     c \<leftarrow> get_mgmt p st;
     (ptr, n) \<leftarrow> buffer_read_ptr (mc_wbuf c);
     let (r, st) = sys (os_send os (mc_fd c) (buffer_peek (mc_wbuf c) ptr n)) st;
     case r of
       Inl e \<Rightarrow> if would_block e then Some st else mgmt_done os key st
     | Inr w \<Rightarrow> do {
         wb \<leftarrow> buffer_read_adv (mc_wbuf c) (int w);
         let c = c\<lparr>mc_wbuf := wb\<rparr>;
         if buffer_can_read wb then Some (put_mgmt p c st)
         else if mc_close_after_write c then mgmt_done os key (put_mgmt p c st)
         else do {
           (r, st) \<leftarrow> set_interest (mc_fd c) OP_READ (put_mgmt p (c\<lparr>mc_state := MGMT_REQUEST\<rparr>) st);
           mgmt_try_process os mem key st
         }
       }
   }"

text \<open>A connection from \<open>calloc\<close>\<close>

definition mgmt_new :: "int \<Rightarrow> mgmt_conn" where
  "mgmt_new fd = \<lparr>mc_fd = fd, mc_state = MGMT_AUTH, mc_auth_ok = False, mc_close_after_write = False,
     mc_rbuf = buffer_init MGMT_RBUF (replicate MGMT_RBUF 0),
     mc_wbuf = buffer_init MGMT_WBUF (replicate MGMT_WBUF 0)\<rparr>"

definition mgmt_passive_accept :: "'w os \<Rightarrow> (pointer, 'w state) callback" where
  "mgmt_passive_accept os key st =
     (let (r, st) = sys (os_accept os (fst key)) st in
      case r of
        None \<Rightarrow> Some st
      | Some (fd, addr) \<Rightarrow>
          let (n, st) = sys (selector_fd_set_nio os fd) st in
          if n < 0 then Some (sys_unit (os_close os fd) st)
          else let (ok, st) = sys (os_calloc_ok os) st in
          if \<not> ok then Some (sys_unit (os_close os fd) st)
          else let p = px_next (snd st);
                   st = put_mgmt p (mgmt_new fd) (fst st, (snd st)\<lparr>px_next := p + 1\<rparr>)
          in do {
            (r, st) \<leftarrow> register_fd fd MgmtHandler OP_READ (Some (MgmtConn p)) st;
            if r \<noteq> SELECTOR_SUCCESS
            then Some (sys_unit (os_close os fd)
              (fst st, (snd st)\<lparr>px_mgmt := (px_mgmt (snd st))(p := None)\<rparr>))
            else Some st
          })"

end
