(* ===== verification/Args.thy ===== *)
theory Args
  imports Users Config
begin

text \<open>
  \<open>src/args.h\<close>, \<open>src/args.c\<close>: the command line of the server. \<open>getopt\<close> is the C library's: the
  arguments of the model are what its successive calls return (the option letter, \<open>'?'\<close> for an
  error, and \<open>optarg\<close>) and whether operands are left at the end. \<open>exit\<close> is a result.
\<close>

section \<open>The code\<close>

record args_user =
  au_name :: "byte list"
  au_pass :: "byte list"

record socks5args =
  ar_socks_addr :: "byte list"
  ar_socks_port :: u16
  ar_mgmt_addr :: "byte list"
  ar_mgmt_port :: u16
  ar_admin_user :: "byte list"
  ar_admin_pass :: "byte list"
  ar_require_auth :: bool
  ar_pop3_sniff :: bool
  ar_users :: "args_user list"
  ar_nusers :: nat

datatype 'a run = Exit int | Run 'a

text \<open>\<open>split_userpass\<close>: the two arrays after the call, \<^const>\<open>None\<close> for \<open>false\<close> (they are then
  unchanged). 58 is the colon.\<close>

definition split_userpass ::
    "byte list \<Rightarrow> byte list \<Rightarrow> nat \<Rightarrow> byte list \<Rightarrow> nat \<Rightarrow> (byte list \<times> byte list) option" where
  "split_userpass arg user ulen pass plen =
     (let s = cstr arg; un = length (takeWhile (\<lambda>b. b \<noteq> 58) s) in
      if un = length s \<or> un = 0 then None
      else let pn = length (drop (Suc un) s) in
      if un \<ge> ulen \<or> pn = 0 \<or> pn \<ge> plen then None
      else Some ((memcpy_at user 0 (take un s))[un := 0],
                 (memcpy_at pass 0 (take pn (drop (Suc un) s)))[pn := 0]))"

definition parse_port :: "byte list \<Rightarrow> u16 run" where
  "parse_port s =
     (case strtol s of
        None \<Rightarrow> Exit 1
      | Some (v, end) \<Rightarrow> if end \<noteq> [] \<or> v < 1 \<or> v > 65535 then Exit 1 else Run (of_int v))"

text \<open>The structure after \<open>memset\<close> and the defaults\<close>

definition args_default :: socks5args where
  "args_default =
     (let z = replicate 256 0 in
      \<lparr>ar_socks_addr = replicate 64 0, ar_socks_port = 1080,
       ar_mgmt_addr = memcpy_at (replicate 64 0) 0 (ascii ''127.0.0.1'' @ [0]), ar_mgmt_port = 8080,
       ar_admin_user = memcpy_at z 0 (ascii ''admin'' @ [0]),
       ar_admin_pass = memcpy_at z 0 (ascii ''admin'' @ [0]),
       ar_require_auth = False, ar_pop3_sniff = False,
       ar_users = replicate USERS_MAX \<lparr>au_name = z, au_pass = z\<rparr>, ar_nusers = 0\<rparr>)"

text \<open>One round of the loop over the options\<close>

definition args_option :: "char \<Rightarrow> byte list \<Rightarrow> socks5args \<Rightarrow> socks5args run" where
  "args_option c optarg out =
     (if c = CHR ''h'' then Exit 0
      else if c = CHR ''v'' then Exit 0
      else if c = CHR ''l'' then Run (out\<lparr>ar_socks_addr := (strncpy (ar_socks_addr out) optarg 63)[63 := 0]\<rparr>)
      else if c = CHR ''p'' then
        (case parse_port optarg of Exit n \<Rightarrow> Exit n | Run v \<Rightarrow> Run (out\<lparr>ar_socks_port := v\<rparr>))
      else if c = CHR ''L'' then Run (out\<lparr>ar_mgmt_addr := (strncpy (ar_mgmt_addr out) optarg 63)[63 := 0]\<rparr>)
      else if c = CHR ''P'' then
        (case parse_port optarg of Exit n \<Rightarrow> Exit n | Run v \<Rightarrow> Run (out\<lparr>ar_mgmt_port := v\<rparr>))
      else if c = CHR ''u'' then
        (if ar_nusers out \<ge> USERS_MAX then Exit 1
         else let u = ar_users out ! ar_nusers out in
           case split_userpass optarg (au_name u) (USERS_MAX_NAME + 1) (au_pass u) (USERS_MAX_PASS + 1) of
             None \<Rightarrow> Exit 1
           | Some (n, p) \<Rightarrow> Run (out\<lparr>ar_users := (ar_users out)[ar_nusers out := \<lparr>au_name = n, au_pass = p\<rparr>],
               ar_nusers := ar_nusers out + 1\<rparr>))
      else if c = CHR ''a'' then
        (case split_userpass optarg (ar_admin_user out) 256 (ar_admin_pass out) 256 of
           None \<Rightarrow> Exit 1
         | Some (n, p) \<Rightarrow> Run (out\<lparr>ar_admin_user := n, ar_admin_pass := p\<rparr>))
      else if c = CHR ''N'' then Run (out\<lparr>ar_require_auth := True\<rparr>)
      else if c = CHR ''d'' then Run (out\<lparr>ar_pop3_sniff := True\<rparr>)
      else Exit 1)"

primrec args_loop :: "(char \<times> byte list) list \<Rightarrow> socks5args \<Rightarrow> socks5args run" where
  "args_loop [] out = Run out"
| "args_loop (o' # opts) out =
     (case args_option (fst o') (snd o') out of Exit n \<Rightarrow> Exit n | Run out \<Rightarrow> args_loop opts out)"

definition args_parse :: "(char \<times> byte list) list \<Rightarrow> bool \<Rightarrow> socks5args run" where
  "args_parse opts operands_left =
     (case args_loop opts args_default of
        Exit n \<Rightarrow> Exit n
      | Run out \<Rightarrow> if operands_left then Exit 1 else Run out)"

section \<open>Laws\<close>

text \<open>The sizes of the arrays\<close>

definition args_ok :: "socks5args \<Rightarrow> bool" where
  "args_ok a \<longleftrightarrow> length (ar_socks_addr a) = 64 \<and> length (ar_mgmt_addr a) = 64
     \<and> length (ar_admin_user a) = 256 \<and> length (ar_admin_pass a) = 256
     \<and> length (ar_users a) = USERS_MAX \<and> ar_nusers a \<le> USERS_MAX
     \<and> (\<forall>u \<in> set (ar_users a). length (au_name u) = 256 \<and> length (au_pass u) = 256)"

lemma cstr_terminated:
  assumes "cstr u = u" and "length u < length dst"
  shows "cstr ((memcpy_at dst 0 u)[length u := 0]) = u" and "length ((memcpy_at dst 0 u)[length u := 0]) = length dst"
proof -
  have nz: "\<forall>b \<in> set u. b \<noteq> 0" using assms(1) by (metis cstr_def set_takeWhileD)
  obtain x xs where d: "drop (length u) dst = x # xs" using assms(2) by (cases "drop (length u) dst") auto
  have "(memcpy_at dst 0 u)[length u := 0] = u @ 0 # xs"
    by (simp add: memcpy_at_def d list_update_append)
  then show "cstr ((memcpy_at dst 0 u)[length u := 0]) = u" using nz by (simp add: cstr_def takeWhile_append2)
  show "length ((memcpy_at dst 0 u)[length u := 0]) = length dst"
    using assms(2) by (simp add: memcpy_at_def)
qed

lemma split_userpass_text:
  assumes "cstring_field u" "58 \<notin> set u" "cstring_field p" and "length user = 256" "length pass = 256"
  shows "split_userpass (u @ 58 # p) user 256 pass 256 =
    Some ((memcpy_at user 0 u)[length u := 0], (memcpy_at pass 0 p)[length p := 0])"
proof -
  have "cstr (u @ 58 # p) = u @ 58 # p" using assms(1,3) by (intro cstr_no_nul) (auto simp: cstring_field_def)
  moreover have "takeWhile (\<lambda>b. b \<noteq> 58) (u @ 58 # p) = u"
    using assms(2) by (subst takeWhile_append2) auto
  ultimately show ?thesis using assms(1,3) by (simp add: split_userpass_def cstring_field_def Let_def)
qed

text \<open>Every option keeps the arrays in shape.\<close>

lemma length_split_userpass:
  assumes "split_userpass arg user ulen pass plen = Some (n, p)" and "length user = ulen" "length pass = plen"
  shows "length n = ulen \<and> length p = plen"
  using assms by (auto simp: split_userpass_def Let_def memcpy_at_def split: if_splits)

lemma args_ok_default: "args_ok args_default"
  by (simp add: args_ok_def args_default_def Let_def memcpy_at_def ascii_def USERS_MAX_def)

lemma args_ok_user:
  assumes ok: "args_ok a" and room: "ar_nusers a < USERS_MAX" and "length n = 256" "length p = 256"
  shows "args_ok (a\<lparr>ar_users := (ar_users a)[ar_nusers a := \<lparr>au_name = n, au_pass = p\<rparr>], ar_nusers := ar_nusers a + 1\<rparr>)"
proof -
  have "length (au_name u) = 256 \<and> length (au_pass u) = 256"
    if "u \<in> set ((ar_users a)[ar_nusers a := \<lparr>au_name = n, au_pass = p\<rparr>])" for u
    using set_update_subset_insert [of "ar_users a" "ar_nusers a" "\<lparr>au_name = n, au_pass = p\<rparr>"] that assms
    by (auto simp: args_ok_def)
  with ok room show ?thesis by (simp add: args_ok_def)
qed

lemma args_option_ok:
  assumes ok: "args_ok a" and r: "args_option c optarg a = Run a'"
  shows "args_ok a'"
proof (cases "c = CHR ''u''")
  case True
  then have room: "ar_nusers a < USERS_MAX" using r by (auto simp: args_option_def split: if_splits)
  let ?u = "ar_users a ! ar_nusers a"
  have u: "length (au_name ?u) = 256" "length (au_pass ?u) = 256"
    using ok room by (simp_all add: args_ok_def)
  obtain n p where np: "split_userpass optarg (au_name ?u) (USERS_MAX_NAME + 1) (au_pass ?u) (USERS_MAX_PASS + 1) = Some (n, p)"
    "a' = a\<lparr>ar_users := (ar_users a)[ar_nusers a := \<lparr>au_name = n, au_pass = p\<rparr>], ar_nusers := ar_nusers a + 1\<rparr>"
    using r True by (auto simp: args_option_def Let_def split: if_splits option.splits)
  from length_split_userpass [OF np(1)] u have "length n = 256 \<and> length p = 256"
    by (simp add: USERS_MAX_NAME_def USERS_MAX_PASS_def)
  with args_ok_user [OF ok room] np(2) show ?thesis by simp
next
  case False
  have admin: "length n = 256 \<and> length p = 256"
    if "split_userpass optarg (ar_admin_user a) 256 (ar_admin_pass a) 256 = Some (n, p)" for n p
    using length_split_userpass [OF that] ok by (simp add: args_ok_def)
  show ?thesis
    using r False ok
    by (auto simp: args_option_def args_ok_def length_strncpy dest!: admin split: if_splits run.splits option.splits)
qed

lemma args_loop_ok: "args_loop opts a = Run a' \<Longrightarrow> args_ok a \<Longrightarrow> args_ok a'"
  by (induction opts arbitrary: a) (auto split: run.splits dest: args_option_ok)

text \<open>Every string is terminated inside its array, and the ports are not zero.\<close>

definition args_text :: "socks5args \<Rightarrow> bool" where
  "args_text a \<longleftrightarrow> 0 \<in> set (ar_socks_addr a) \<and> 0 \<in> set (ar_mgmt_addr a)
     \<and> 0 \<in> set (ar_admin_user a) \<and> 0 \<in> set (ar_admin_pass a)
     \<and> (\<forall>u \<in> set (ar_users a). 0 \<in> set (au_name u) \<and> 0 \<in> set (au_pass u))
     \<and> ar_socks_port a \<noteq> 0 \<and> ar_mgmt_port a \<noteq> 0"

lemma args_text_default: "args_text args_default"
  by (simp add: args_text_def args_default_def Let_def memcpy_at_def ascii_def USERS_MAX_def)

lemma nul_updated: "n < length xs \<Longrightarrow> 0 \<in> set (xs[n := 0])"
  by (simp add: set_update_memI)

lemma split_userpass_nul:
  assumes "split_userpass arg user ulen pass plen = Some (n, p)" and "length user = ulen" "length pass = plen"
  shows "0 \<in> set n \<and> 0 \<in> set p"
  using assms by (auto simp: split_userpass_def Let_def memcpy_at_def intro!: nul_updated split: if_splits)

lemma parse_port_range: "parse_port s = Run v \<Longrightarrow> v \<noteq> 0"
proof -
  assume p: "parse_port s = Run v"
  then obtain x where x: "\<not> x < 1" "\<not> 65535 < x" "v = word_of_int x"
    by (auto simp: parse_port_def split: option.splits prod.splits if_splits)
  then have "uint v = x" by (simp add: uint_word_of_int take_bit_int_eq_self)
  with x(1) show "v \<noteq> 0" by auto
qed

lemma args_option_text:
  assumes ok: "args_ok a" and ends: "args_text a" and r: "args_option c optarg a = Run a'"
  shows "args_text a'"
proof (cases "c = CHR ''u''")
  case True
  then have room: "ar_nusers a < USERS_MAX" using r by (auto simp: args_option_def split: if_splits)
  let ?u = "ar_users a ! ar_nusers a"
  have u: "length (au_name ?u) = 256" "length (au_pass ?u) = 256"
    using ok room by (simp_all add: args_ok_def)
  obtain n p where np: "split_userpass optarg (au_name ?u) (USERS_MAX_NAME + 1) (au_pass ?u) (USERS_MAX_PASS + 1) = Some (n, p)"
    "a' = a\<lparr>ar_users := (ar_users a)[ar_nusers a := \<lparr>au_name = n, au_pass = p\<rparr>], ar_nusers := ar_nusers a + 1\<rparr>"
    using r True by (auto simp: args_option_def Let_def split: if_splits option.splits)
  from split_userpass_nul [OF np(1)] u have "0 \<in> set n \<and> 0 \<in> set p"
    by (simp add: USERS_MAX_NAME_def USERS_MAX_PASS_def)
  then have "0 \<in> set (au_name v) \<and> 0 \<in> set (au_pass v)"
    if "v \<in> set ((ar_users a)[ar_nusers a := \<lparr>au_name = n, au_pass = p\<rparr>])" for v
    using set_update_subset_insert [of "ar_users a" "ar_nusers a" "\<lparr>au_name = n, au_pass = p\<rparr>"] that ends
    by (auto simp: args_text_def)
  with np(2) ends show ?thesis by (simp add: args_text_def)
next
  case False
  have admin: "0 \<in> set n \<and> 0 \<in> set p"
    if "split_userpass optarg (ar_admin_user a) 256 (ar_admin_pass a) 256 = Some (n, p)" for n p
    using split_userpass_nul [OF that] ok by (simp add: args_ok_def)
  have addr: "0 \<in> set ((strncpy x optarg 63)[63 := 0])" if "length x = 64" for x
    using that by (simp add: nul_updated length_strncpy)
  show ?thesis
    using r False ends ok
    by (auto simp: args_option_def args_text_def args_ok_def addr dest!: admin parse_port_range split: if_splits run.splits option.splits)
qed

lemma args_loop_text: "args_loop opts a = Run a' \<Longrightarrow> args_ok a \<Longrightarrow> args_text a \<Longrightarrow> args_text a'"
  by (induction opts arbitrary: a) (auto split: run.splits dest: args_option_ok args_option_text)

text \<open>The accounts on the command line, in order\<close>

definition account_opts :: "(byte list \<times> byte list) list \<Rightarrow> (char \<times> byte list) list" where
  "account_opts ups = map (\<lambda>(u, p). (CHR ''u'', u @ 58 # p)) ups"

definition account_ok :: "byte list \<times> byte list \<Rightarrow> bool" where
  "account_ok up \<longleftrightarrow> cstring_field (fst up) \<and> 58 \<notin> set (fst up) \<and> cstring_field (snd up)"

definition accounts :: "socks5args \<Rightarrow> (byte list \<times> byte list) list" where
  "accounts a = map (\<lambda>u. (cstr (au_name u), cstr (au_pass u))) (take (ar_nusers a) (ar_users a))"

lemma args_account:
  assumes ok: "args_ok a" and room: "ar_nusers a < USERS_MAX" and up: "account_ok (u, p)"
  shows "\<exists>a'. args_option (CHR ''u'') (u @ 58 # p) a = Run a' \<and> args_ok a' \<and> ar_nusers a' = ar_nusers a + 1
    \<and> accounts a' = accounts a @ [(u, p)] \<and> ar_require_auth a' = ar_require_auth a"
proof -
  let ?s = "ar_users a ! ar_nusers a"
  let ?n = "(memcpy_at (au_name ?s) 0 u)[length u := 0]" and ?p = "(memcpy_at (au_pass ?s) 0 p)[length p := 0]"
  let ?a = "a\<lparr>ar_users := (ar_users a)[ar_nusers a := \<lparr>au_name = ?n, au_pass = ?p\<rparr>], ar_nusers := ar_nusers a + 1\<rparr>"
  have len: "length (au_name ?s) = 256" "length (au_pass ?s) = 256" "ar_nusers a < length (ar_users a)"
    using ok room by (simp_all add: args_ok_def)
  have f: "cstring_field u" "58 \<notin> set u" "cstring_field p" using up by (simp_all add: account_ok_def)
  then have u: "cstr u = u" "length u < 256" "cstr p = p" "length p < 256"
    by (simp_all add: cstring_field_def cstr_no_nul)
  have run: "args_option (CHR ''u'') (u @ 58 # p) a = Run ?a"
    using split_userpass_text [OF f len(1,2)] room
    by (simp add: args_option_def USERS_MAX_NAME_def USERS_MAX_PASS_def Let_def)
  have "accounts ?a = accounts a @ [(u, p)]"
    using len cstr_terminated(1) [OF u(1), of "au_name ?s"] cstr_terminated(1) [OF u(3), of "au_pass ?s"] u
    by (simp add: accounts_def take_Suc_conv_app_nth)
  with run args_option_ok [OF ok run] show ?thesis by (intro exI [of _ ?a]) simp
qed

lemma args_accounts:
  "args_ok a \<Longrightarrow> ar_nusers a + length ups \<le> USERS_MAX \<Longrightarrow> \<forall>up \<in> set ups. account_ok up \<Longrightarrow>
     \<exists>a'. args_loop (account_opts ups) a = Run a' \<and> args_ok a' \<and> ar_nusers a' = ar_nusers a + length ups
       \<and> accounts a' = accounts a @ ups \<and> ar_require_auth a' = ar_require_auth a"
proof (induction ups arbitrary: a)
  case (Cons up ups)
  obtain u p where up: "up = (u, p)" by (cases up)
  obtain a1 where a1: "args_option (CHR ''u'') (u @ 58 # p) a = Run a1" "args_ok a1" "ar_nusers a1 = ar_nusers a + 1"
    "accounts a1 = accounts a @ [(u, p)]" "ar_require_auth a1 = ar_require_auth a"
    using args_account [OF Cons.prems(1), of u p] Cons.prems(2,3) up by auto
  with Cons.IH [OF a1(2)] Cons.prems(2,3) up show ?case by (auto simp: account_opts_def)
qed (simp add: account_opts_def)

end
