(* ===== verification/Main_Loop.thy ===== *)
theory Main_Loop
  imports Socks5 Mgmt Args
begin

text \<open>
  \<open>src/main.c\<close>: the handlers of the program as the table the multiplexer dispatches on, the event
  loop with its graceful shutdown, the release of everything at the end, and what \<open>main\<close> does before
  the loop: the services from the command line, the selector and the passive sockets. Messages of
  the logger are left out.
\<close>

section \<open>The handlers\<close>

text \<open>The arguments \<open>mem\<close> and \<open>mem'\<close> are what the uninitialised local arrays of the callbacks hold.\<close>

fun handlers :: "'w os \<Rightarrow> byte list \<Rightarrow> byte list \<Rightarrow> handler \<Rightarrow> (pointer, 'w state) fd_handler" where
  "handlers os mem mem' SocksHandler =
     \<lparr>handle_read = Some (socksv5_read os mem), handle_write = Some (socksv5_write os mem),
      handle_block = Some (socksv5_block os mem), handle_close = Some (socksv5_close os)\<rparr>"
| "handlers os mem mem' MgmtHandler =
     \<lparr>handle_read = Some (mgmt_read os mem'), handle_write = Some (mgmt_write os mem'),
      handle_block = None, handle_close = Some (mgmt_close os)\<rparr>"
| "handlers os mem mem' SocksListener =
     \<lparr>handle_read = Some (socksv5_passive_accept os mem), handle_write = None,
      handle_block = None, handle_close = Some (listener_close os)\<rparr>"
| "handlers os mem mem' MgmtListener =
     \<lparr>handle_read = Some (mgmt_passive_accept os), handle_write = None,
      handle_block = None, handle_close = Some (listener_close os)\<rparr>"

lemma handle_close_handlers: "handle_close (handlers os mem mem' h) = close_of os h"
  by (cases h) simp_all

section \<open>The event loop\<close>

record 'w server =
  sr_state :: "'w state"
  sr_listeners :: "int list"
  sr_shutting_down :: bool

primrec unregister_fds :: "'w os \<Rightarrow> int list \<Rightarrow> 'w state \<Rightarrow> 'w state option" where
  "unregister_fds os [] st = Some st"
| "unregister_fds os (fd # fds) st = do { (r, st) \<leftarrow> unregister_fd os fd st; unregister_fds os fds st }"

text \<open>One round of the loop of \<open>main\<close>: whether the loop goes on, and the server after it.
  \<open>sigcount\<close> is the value of \<open>g_sigcount\<close> when it is read.\<close>

definition main_round ::
    "'w os \<Rightarrow> byte list \<Rightarrow> byte list \<Rightarrow> pselect_answer \<Rightarrow> nat \<Rightarrow> 'w server \<Rightarrow> (bool \<times> 'w server) option" where
  "main_round os mem mem' answer sigcount sr = do {
     (r, st) \<leftarrow> selector_select (handlers os mem mem') answer (sr_state sr);
     let sr = sr\<lparr>sr_state := st\<rparr>;
     if r \<noteq> SELECTOR_SUCCESS then Some (False, sr)
     else if sigcount \<ge> 2 then Some (False, sr)
     else do {
       sr \<leftarrow> (if sigcount \<ge> 1 \<and> \<not> sr_shutting_down sr
         then do {
           st \<leftarrow> unregister_fds os (sr_listeners sr) st;
           Some (sr\<lparr>sr_state := st, sr_listeners := [], sr_shutting_down := True\<rparr>)
         }
         else Some sr);
       let current = m_current (sv_metrics (px_services (snd (sr_state sr))));
       Some (\<not> (sr_shutting_down sr \<and> current = 0), sr)
     }
   }"

text \<open>What \<open>main\<close> does after the loop\<close>

definition main_cleanup :: "'w os \<Rightarrow> 'w server \<Rightarrow> 'w server option" where
  "main_cleanup os sr = do {
     st \<leftarrow> unregister_fds os (sr_listeners sr) (sr_state sr);
     st \<leftarrow> selector_destroy (close_of os) st;
     st \<leftarrow> socksv5_pool_destroy st;
     Some (sr\<lparr>sr_state := st\<rparr>)
   }"

section \<open>Before the loop\<close>

text \<open>\<open>create_passive_socket\<close>: the descriptor, or -1. \<^const>\<open>None\<close> for the address is NULL.\<close>

definition create_passive_socket ::
    "'w os \<Rightarrow> byte list option \<Rightarrow> u16 \<Rightarrow> family \<Rightarrow> nat \<Rightarrow> 'w \<Rightarrow> int \<times> 'w" where
  "create_passive_socket os addr port fam backlog w =
     (case os_socket os fam w of
        (Inl e, w) \<Rightarrow> (-1, w)
      | (Inr fd, w) \<Rightarrow>
          let w = os_setsockopt os fd SO_REUSEADDR w;
              w = (if fam = AF_INET6 then os_setsockopt os fd IPV6_V6ONLY w else w) in
          case (case addr of
                  None \<Rightarrow> Some (replicate (if fam = AF_INET then 4 else 16) 0)
                | Some a \<Rightarrow> os_inet_pton os (if fam = AF_INET then AF_INET else AF_INET6) (cstr a)) of
            None \<Rightarrow> (-1, os_close os fd w)
          | Some ip \<Rightarrow>
              let ss = (if fam = AF_INET then SockIn port ip else SockIn6 port ip);
                  (bound, w) = os_bind os fd ss w in
              if \<not> bound then (-1, os_close os fd w)
              else let (listening, w) = os_listen os fd backlog w in
              if \<not> listening then (-1, os_close os fd w)
              else let (n, w) = selector_fd_set_nio os fd w in
              if n < 0 then (-1, os_close os fd w) else (fd, w))"

text \<open>\<open>add_listener\<close>: its result, and the array of listeners with the new one at the end\<close>

definition add_listener ::
    "'w os \<Rightarrow> byte list option \<Rightarrow> u16 \<Rightarrow> family \<Rightarrow> handler \<Rightarrow> int list \<Rightarrow> 'w state \<Rightarrow>
     (int \<times> int list \<times> 'w state) option" where
  "add_listener os addr port fam h fds st =
     (let (fd, st) = sys (create_passive_socket os addr port fam 512) st in
      if fd < 0 then Some (-1, fds, st)
      else do {
        (r, st) \<leftarrow> register_fd fd h OP_READ None st;
        Some (if r \<noteq> SELECTOR_SUCCESS then (-1, fds, sys_unit (os_close os fd) st)
              else (0, fds @ [fd], st))
      })"

definition looks_ipv6 :: "byte list \<Rightarrow> bool" where
  "looks_ipv6 addr \<longleftrightarrow> 58 \<in> set (cstr addr)"

text \<open>The limit on descriptors, \<^const>\<open>None\<close> for \<open>RLIM_INFINITY\<close>\<close>

definition raise_fd_limit :: "'w os \<Rightarrow> 'w \<Rightarrow> 'w" where
  "raise_fd_limit os w =
     (case os_getrlimit os w of
        (None, w) \<Rightarrow> w
      | (Some (soft, hard), w) \<Rightarrow>
          let want = 4096; want = (case hard of None \<Rightarrow> want | Some m \<Rightarrow> if want > m then m else want)
          in if soft < want then snd (os_setrlimit os want w) else w)"

text \<open>Configuration and users, from the command line\<close>

definition initial_services :: "socks5args \<Rightarrow> services" where
  "initial_services args =
     (let cfg = config_init_defaults;
          cfg = cfg\<lparr>cfg_admin_user := (strncpy (cfg_admin_user cfg) (ar_admin_user args) CONFIG_ADMIN_MAX)[CONFIG_ADMIN_MAX := 0],
            cfg_admin_pass := (strncpy (cfg_admin_pass cfg) (ar_admin_pass args) CONFIG_ADMIN_MAX)[CONFIG_ADMIN_MAX := 0],
            cfg_auth_required := (ar_require_auth args \<or> ar_nusers args > 0),
            cfg_pop3_sniff := ar_pop3_sniff args\<rparr>;
          db = fold (\<lambda>u db. snd (users_add (Some (au_name u)) (Some (au_pass u)) db))
            (take (ar_nusers args) (ar_users args)) users_init
      in \<lparr>sv_users = db, sv_cfg = cfg, sv_metrics = metrics_init\<rparr>)"

definition initial_proxy :: "services \<Rightarrow> 'w \<Rightarrow> 'w proxy" where
  "initial_proxy sv w = \<lparr>px_world = w, px_conns = (\<lambda>_. None), px_mgmt = (\<lambda>_. None), px_next = 0,
     px_pool = [], px_pool_size = 0, px_services = sv, px_log = []\<rparr>"

text \<open>\<open>selector_init\<close> of \<open>src/selector.c\<close>: blocking the signal and setting its handler\<close>

definition selector_init :: "'w os \<Rightarrow> 'w \<Rightarrow> selector_status \<times> 'w" where
  "selector_init os w =
     (let (ok, w) = os_sigprocmask os w in
      if \<not> ok then (SELECTOR_IO, w)
      else let (ok, w) = os_sigaction os w in (if \<not> ok then SELECTOR_IO else SELECTOR_SUCCESS, w))"

text \<open>The SOCKS listeners, then the management listener; \<^const>\<open>Inl\<close> is the exit status of \<open>main\<close>.\<close>

definition open_listeners :: "'w os \<Rightarrow> socks5args \<Rightarrow> 'w state \<Rightarrow> (int + 'w server) option" where
  "open_listeners os args st = do {
     (r, fds, st) \<leftarrow>
       (if cstr (ar_socks_addr args) = []
        then do {
          (r, fds, st) \<leftarrow> add_listener os None (ar_socks_port args) AF_INET SocksListener [] st;
          (r, fds, st) \<leftarrow> add_listener os (Some (ascii ''::'')) (ar_socks_port args) AF_INET6 SocksListener fds st;
          Some (0, fds, st)
        }
        else add_listener os (Some (ar_socks_addr args)) (ar_socks_port args)
          (if looks_ipv6 (ar_socks_addr args) then AF_INET6 else AF_INET) SocksListener [] st);
     if r \<noteq> 0 \<or> fds = [] then Some (Inl 1)
     else do {
       (r, fds, st) \<leftarrow> add_listener os (Some (ar_mgmt_addr args)) (ar_mgmt_port args)
         (if looks_ipv6 (ar_mgmt_addr args) then AF_INET6 else AF_INET) MgmtListener fds st;
       Some (if r \<noteq> 0 then Inl 1
             else Inr \<lparr>sr_state = st, sr_listeners = fds, sr_shutting_down = False\<rparr>)
     }
   }"

definition main_setup :: "'w os \<Rightarrow> socks5args \<Rightarrow> 'w \<Rightarrow> (int + 'w server) option" where
  "main_setup os args w =
     (let sv = initial_services args;
          w = raise_fd_limit os w;
          (r, w) = selector_init os w in
      if r \<noteq> SELECTOR_SUCCESS then Some (Inl 1)
      else let (malloc_ok, w) = os_calloc_ok os w; (alloc, w) = os_calloc_ok os w in do {
        s \<leftarrow> selector_new malloc_ok alloc unused_item 1024;
        case s of
          None \<Rightarrow> Some (Inl 1)
        | Some s \<Rightarrow> open_listeners os args (s, initial_proxy sv w)
      })"

end
