(* ===== verification/Server_Inv.thy ===== *)
theory Server_Inv
  imports Socks5 Mgmt
begin

text \<open>
  The invariant of the process: which connections own which registrations of the multiplexer, what
  every connection waits for in every state of its machine, and what is in the pool. The primitive
  operations of the handlers are shown to keep it, relative to one connection in focus.
\<close>

section \<open>Calls that return\<close>

text \<open>The call returns, and its result satisfies \<open>Q\<close>.\<close>

definition returns :: "'a option \<Rightarrow> ('a \<Rightarrow> bool) \<Rightarrow> bool" where
  "returns m Q \<longleftrightarrow> (\<exists>y. m = Some y \<and> Q y)"

lemma returns_Some [simp]: "returns (Some y) Q \<longleftrightarrow> Q y"
  by (simp add: returns_def)

lemma returns_map [simp]: "returns (map_option f m) Q \<longleftrightarrow> returns m (\<lambda>x. Q (f x))"
  by (cases m) (simp_all add: returns_def)

lemma returns_bind:
  "returns m P \<Longrightarrow> (\<And>y. P y \<Longrightarrow> returns (f y) Q) \<Longrightarrow> returns (Option.bind m f) Q"
  by (auto simp: returns_def)

lemma returns_mono: "returns m P \<Longrightarrow> (\<And>y. P y \<Longrightarrow> Q y) \<Longrightarrow> returns m Q"
  by (auto simp: returns_def)

section \<open>One connection\<close>

text \<open>Blocks allocated, buffers and arrays of the right size, machine initialised.\<close>

definition conn_ok :: "socks5 \<Rightarrow> bool" where
  "conn_ok s \<longleftrightarrow> CONFIG_MIN_BUFFER \<le> buffer_size s
     \<and> (\<exists>r. raw_read s = Some r \<and> length r = buffer_size s)
     \<and> (\<exists>r. raw_write s = Some r \<and> length r = buffer_size s)
     \<and> buf_inv (read_buffer s) \<and> b_limit (read_buffer s) = buffer_size s
     \<and> buf_inv (write_buffer s) \<and> b_limit (write_buffer s) = buffer_size s
     \<and> sm_initial (stm s) = HELLO_READ \<and> sm_max_state (stm s) = ERROR_STATE
     \<and> length (ap_username (auth s)) = 256 \<and> length (ap_password (auth s)) = 256
     \<and> length (rp_addr (request s)) = 256
     \<and> length (username s) = 256 \<and> length (dest_host s) = 256
     \<and> length (addrs s) = MAX_ADDRS \<and> naddrs s \<le> MAX_ADDRS"

text \<open>The state of the machine\<close>

definition cur :: "socks5 \<Rightarrow> nat" where
  "cur s = (case sm_current (stm s) of None \<Rightarrow> HELLO_READ | Some c \<Rightarrow> c)"

text \<open>The client may have its request served.\<close>

definition authorised :: "socks5 \<Rightarrow> bool" where
  "authorised s \<longleftrightarrow> nego_method s = SOCKS5_METHOD_NO_AUTH
     \<or> (nego_method s = SOCKS5_METHOD_USERPASS \<and> auth_ok s)"

text \<open>What one side of a relayed connection waits for: bytes to read while there is room for them, and
  room to write while there are bytes for it.\<close>

definition relay_interest :: "bool \<Rightarrow> buffer \<Rightarrow> buffer \<Rightarrow> fd_interest" where
  "relay_interest eof from to =
     (if \<not> eof \<and> buffer_can_write from then OP_READ else OP_NOOP)
     OR (if buffer_can_read to then OP_WRITE else OP_NOOP)"

definition relaying :: "fd_interest \<Rightarrow> fd_interest option \<Rightarrow> socks5 \<Rightarrow> bool" where
  "relaying ci oi s \<longleftrightarrow>
     ci = relay_interest (client_eof s) (read_buffer s) (write_buffer s)
     \<and> oi = Some (relay_interest (origin_eof s) (write_buffer s) (read_buffer s))
     \<and> \<not> (client_eof s \<and> \<not> buffer_can_read (read_buffer s)
          \<and> origin_eof s \<and> \<not> buffer_can_read (write_buffer s))"

text \<open>What holds of a connection that rests in state \<open>c\<close>: \<open>ci\<close> is the interest of the client's
  descriptor, \<open>oi\<close> that of the origin's, if there is one.\<close>

definition ready :: "nat \<Rightarrow> fd_interest \<Rightarrow> fd_interest option \<Rightarrow> socks5 \<Rightarrow> bool" where
  "ready c ci oi s \<longleftrightarrow>
     (resolving s \<longleftrightarrow> c = REQUEST_RESOLV)
     \<and> (c = HELLO_WRITE \<longrightarrow> nego_method s \<in> {SOCKS5_METHOD_NO_AUTH, SOCKS5_METHOD_USERPASS, SOCKS5_METHOD_NONE})
     \<and> (c \<in> {AUTH_READ, AUTH_WRITE} \<longrightarrow> nego_method s = SOCKS5_METHOD_USERPASS)
     \<and> (REQUEST_READ \<le> c \<longrightarrow> authorised s)
     \<and> (if c \<in> {HELLO_READ, AUTH_READ, REQUEST_READ} then ci = OP_READ \<and> oi = None
        else if c \<in> {HELLO_WRITE, AUTH_WRITE} then ci = OP_WRITE \<and> oi = None
        else if c = REQUEST_RESOLV then ci = OP_NOOP \<and> oi = None \<and> dq_notify_fd (dns s) = client_fd s
        else if c = REQUEST_CONNECTING then ci = OP_NOOP \<and> oi = Some OP_WRITE
        else if c = REQUEST_WRITE
          then ci = OP_WRITE \<and> oi \<in> {None, Some OP_NOOP} \<and> (reply s = SOCKS5_REP_SUCCESS \<longleftrightarrow> oi \<noteq> None)
        else c = COPY \<and> reply s = SOCKS5_REP_SUCCESS \<and> relaying ci oi s)"

section \<open>The process\<close>

type_synonym regs = "int \<Rightarrow> (handler, pointer) registration option"

type_synonym listeners = "int \<Rightarrow> handler option"

definition mgmt_interest :: "mgmt_conn \<Rightarrow> fd_interest" where
  "mgmt_interest m = (if mc_state m \<in> {MGMT_AUTH, MGMT_REQUEST} then OP_READ else OP_WRITE)"

definition mgmt_ok :: "mgmt_conn \<Rightarrow> bool" where
  "mgmt_ok m \<longleftrightarrow> buf_inv (mc_rbuf m) \<and> b_limit (mc_rbuf m) = MGMT_RBUF
     \<and> buf_inv (mc_wbuf m) \<and> b_limit (mc_wbuf m) = MGMT_WBUF
     \<and> (mc_state m \<in> {MGMT_REQUEST, MGMT_RESPONSE} \<longrightarrow> mc_auth_ok m)
     \<and> (mc_state m = MGMT_AUTH_REPLY \<longrightarrow> mc_auth_ok m \<or> mc_close_after_write m)"

text \<open>The registrations of a connection: exactly its descriptors, and one reference for each.\<close>

definition conn_regs :: "regs \<Rightarrow> nat \<Rightarrow> socks5 \<Rightarrow> fd_interest \<Rightarrow> fd_interest option \<Rightarrow> bool" where
  "conn_regs R p s ci oi \<longleftrightarrow>
     (\<forall>fd i h. R fd = Some (i, h, Some (SocksConn p)) \<longleftrightarrow>
        h = SocksHandler \<and> (fd = client_fd s \<and> i = ci \<or> fd = origin_fd s \<and> oi = Some i))
     \<and> 0 \<le> client_fd s
     \<and> (if oi = None then origin_fd s = -1 \<and> references s = 1
        else 0 \<le> origin_fd s \<and> origin_fd s \<noteq> client_fd s \<and> references s = 2)"

definition mgmt_regs :: "regs \<Rightarrow> nat \<Rightarrow> mgmt_conn \<Rightarrow> bool" where
  "mgmt_regs R p m \<longleftrightarrow>
     (\<forall>fd i h. R fd = Some (i, h, Some (MgmtConn p)) \<longleftrightarrow>
        h = MgmtHandler \<and> fd = mc_fd m \<and> i = mgmt_interest m)"

text \<open>The connections in use, without those in the pool\<close>

definition live :: "'w proxy \<Rightarrow> nat \<Rightarrow> socks5 option" where
  "live x = (\<lambda>p. if p \<in> set (px_pool x) then None else px_conns x p)"

text \<open>The registrations \<open>R\<close>, the connections \<open>L\<close> and \<open>M\<close>, the listeners \<open>ls\<close> and the notifications \<open>js\<close> of finished
  name resolutions fit together.\<close>

definition owner_ok :: "(nat \<Rightarrow> socks5 option) \<Rightarrow> (nat \<Rightarrow> mgmt_conn option) \<Rightarrow>
    (handler, pointer) registration \<Rightarrow> bool" where
  "owner_ok L M r \<longleftrightarrow>
     (case r of
        (i, h, Some (SocksConn p)) \<Rightarrow> L p \<noteq> None
      | (i, h, Some (MgmtConn p)) \<Rightarrow> M p \<noteq> None
      | (i, h, None) \<Rightarrow> h = SocksListener \<or> h = MgmtListener)"

definition core ::
    "regs \<Rightarrow> (nat \<Rightarrow> socks5 option) \<Rightarrow> (nat \<Rightarrow> mgmt_conn option) \<Rightarrow> listeners \<Rightarrow> int list \<Rightarrow> bool" where
  "core R L M ls js \<longleftrightarrow>
     (\<forall>p s. L p = Some s \<longrightarrow> conn_ok s \<and> (\<exists>ci oi. conn_regs R p s ci oi \<and> ready (cur s) ci oi s))
     \<and> (\<forall>p m. M p = Some m \<longrightarrow> mgmt_ok m \<and> mgmt_regs R p m)
     \<and> (\<forall>fd r. R fd = Some r \<longrightarrow> owner_ok L M r)
     \<and> (\<forall>fd i h. R fd = Some (i, h, None) \<longleftrightarrow> i = OP_READ \<and> ls fd = Some h)
     \<and> distinct js \<and> (\<forall>fd \<in> set js. \<exists>p s. L p = Some s \<and> client_fd s = fd \<and> resolving s)"

lemma coreI:
  assumes "\<And>p s. L p = Some s \<Longrightarrow> conn_ok s \<and> (\<exists>ci oi. conn_regs R p s ci oi \<and> ready (cur s) ci oi s)"
    and "\<And>p m. M p = Some m \<Longrightarrow> mgmt_ok m \<and> mgmt_regs R p m"
    and "\<And>fd r. R fd = Some r \<Longrightarrow> owner_ok L M r"
    and "\<And>fd i h. R fd = Some (i, h, None) \<longleftrightarrow> i = OP_READ \<and> ls fd = Some h"
    and "distinct js"
    and "\<And>fd. fd \<in> set js \<Longrightarrow> \<exists>p s. L p = Some s \<and> client_fd s = fd \<and> resolving s"
  shows "core R L M ls js"
  unfolding core_def using assms by simp

lemma coreD:
  assumes "core R L M ls js"
  shows "L p = Some s \<Longrightarrow> conn_ok s \<and> (\<exists>ci oi. conn_regs R p s ci oi \<and> ready (cur s) ci oi s)"
    and "M p = Some m \<Longrightarrow> mgmt_ok m \<and> mgmt_regs R p m"
    and "R fd = Some r \<Longrightarrow> owner_ok L M r"
    and "R fd = Some (i, h, None) \<longleftrightarrow> i = OP_READ \<and> ls fd = Some h"
    and "distinct js"
    and "fd \<in> set js \<Longrightarrow> \<exists>p s. L p = Some s \<and> client_fd s = fd \<and> resolving s"
proof -
  note c = assms [unfolded core_def]
  show "L p = Some s \<Longrightarrow> conn_ok s \<and> (\<exists>ci oi. conn_regs R p s ci oi \<and> ready (cur s) ci oi s)"
    by (rule c [THEN conjunct1, rule_format])
  show "M p = Some m \<Longrightarrow> mgmt_ok m \<and> mgmt_regs R p m"
    by (rule c [THEN conjunct2, THEN conjunct1, rule_format])
  show "R fd = Some r \<Longrightarrow> owner_ok L M r"
    by (rule c [THEN conjunct2, THEN conjunct2, THEN conjunct1, rule_format])
  show "R fd = Some (i, h, None) \<longleftrightarrow> i = OP_READ \<and> ls fd = Some h"
    by (rule c [THEN conjunct2, THEN conjunct2, THEN conjunct2, THEN conjunct1, rule_format])
qed (use assms in \<open>simp_all add: core_def\<close>)

definition heap_ok :: "'w proxy \<Rightarrow> bool" where
  "heap_ok x \<longleftrightarrow> services_inv (px_services x)
     \<and> distinct (px_pool x) \<and> px_pool_size x = length (px_pool x) \<and> px_pool_size x \<le> MAX_POOL
     \<and> (\<forall>p \<in> set (px_pool x). \<exists>s. px_conns x p = Some s \<and> conn_ok s)
     \<and> (\<forall>p. px_conns x p \<noteq> None \<longrightarrow> p < px_next x) \<and> (\<forall>p. px_mgmt x p \<noteq> None \<longrightarrow> p < px_next x)
     \<and> unat (m_current (sv_metrics (px_services x))) = card (dom (live x))"

definition server_inv :: "listeners \<Rightarrow> int list \<Rightarrow> 'w state \<Rightarrow> bool" where
  "server_inv ls js st \<longleftrightarrow> sel_inv (fst st) \<and> heap_ok (snd st)
     \<and> core (sel_map (fst st)) (live (snd st)) (px_mgmt (snd st)) ls js"

section \<open>Taking one connection out\<close>

definition without :: "pointer \<Rightarrow> regs \<Rightarrow> regs" where
  "without d R = (\<lambda>fd. case R fd of None \<Rightarrow> None | Some (i, h, d') \<Rightarrow> if d' = Some d then None else R fd)"

lemma without_Some: "without d R fd = Some (i, h, d') \<longleftrightarrow> R fd = Some (i, h, d') \<and> d' \<noteq> Some d"
  by (auto simp: without_def split: option.splits)

lemma without_upd [simp]:
  "R fd = None \<or> (\<exists>i h. R fd = Some (i, h, Some d)) \<Longrightarrow> without d (R(fd \<mapsto> (j, h', Some d))) = without d R"
  "R fd = None \<or> (\<exists>i h. R fd = Some (i, h, Some d)) \<Longrightarrow> without d (R(fd := None)) = without d R"
  by (auto simp: without_def fun_eq_iff split: option.splits)

lemma conn_regs_without: "d \<noteq> SocksConn p \<Longrightarrow> conn_regs (without d R) p = conn_regs R p"
  by (auto simp: conn_regs_def without_Some fun_eq_iff)

lemma mgmt_regs_without: "d \<noteq> MgmtConn p \<Longrightarrow> mgmt_regs (without d R) p = mgmt_regs R p"
  by (auto simp: mgmt_regs_def without_Some fun_eq_iff)

text \<open>Everything holds with the connection \<open>p\<close>, whose record is \<open>s\<close> and whose interests are \<open>ci\<close> and
  \<open>oi\<close>, taken out; nothing is said of what it waits for. \<open>k\<close> is the list of notifications in the
  selector.\<close>

definition focus ::
    "int list \<Rightarrow> listeners \<Rightarrow> int list \<Rightarrow> nat \<Rightarrow> socks5 \<Rightarrow> fd_interest \<Rightarrow> fd_interest option \<Rightarrow> 'w state \<Rightarrow> bool" where
  "focus k ls js p s ci oi st \<longleftrightarrow> sel_inv (fst st) \<and> s_jobs (fst st) = k \<and> heap_ok (snd st)
     \<and> live (snd st) p = Some s \<and> conn_ok s \<and> conn_regs (sel_map (fst st)) p s ci oi
     \<and> core (without (SocksConn p) (sel_map (fst st))) ((live (snd st))(p := None)) (px_mgmt (snd st)) ls js"

lemma core_split:
  assumes c: "core R L M ls js" and "L p = Some s" and "client_fd s \<notin> set js"
  shows "core (without (SocksConn p) R) (L(p := None)) M ls js"
proof (rule coreI)
  show "conn_ok s' \<and> (\<exists>ci oi. conn_regs (without (SocksConn p) R) q s' ci oi \<and> ready (cur s') ci oi s')"
    if "(L(p := None)) q = Some s'" for q s'
    using coreD(1) [OF c, of q s'] that conn_regs_without [of "SocksConn p" q R] by (simp split: if_splits)
  show "mgmt_ok m \<and> mgmt_regs (without (SocksConn p) R) q m" if "M q = Some m" for q m
    using coreD(2) [OF c that] mgmt_regs_without [of "SocksConn p" q R] by simp
  show "owner_ok (L(p := None)) M r" if "without (SocksConn p) R fd = Some r" for fd r
  proof (cases r)
    case (fields i h d)
    then have "R fd = Some r" "d \<noteq> Some (SocksConn p)" using that by (simp_all add: without_Some)
    with coreD(3) [OF c, of fd r] fields show ?thesis
      by (auto simp: owner_ok_def split: option.splits pointer.splits)
  qed
  show "\<exists>q s'. (L(p := None)) q = Some s' \<and> client_fd s' = fd \<and> resolving s'" if fd: "fd \<in> set js" for fd
  proof -
    obtain q s' where q: "L q = Some s'" "client_fd s' = fd" "resolving s'"
      using coreD(6) [OF c fd] by auto
    then have "q \<noteq> p" using assms(2,3) fd by auto
    with q show ?thesis by (intro exI [of _ q] exI [of _ s']) simp
  qed
  show "without (SocksConn p) R fd = Some (i, h, None) \<longleftrightarrow> i = OP_READ \<and> ls fd = Some h" for fd i h
    using coreD(4) [OF c, of fd i h] by (simp add: without_Some)
qed (rule coreD(5) [OF c])

lemma core_merge:
  assumes c: "core (without (SocksConn p) R) (L(p := None)) M ls js" and "L p = Some s" and "conn_ok s"
    and "conn_regs R p s ci oi" and "ready (cur s) ci oi s"
  shows "core R L M ls js"
proof (rule coreI)
  show "conn_ok s' \<and> (\<exists>ci oi. conn_regs R q s' ci oi \<and> ready (cur s') ci oi s')" if "L q = Some s'" for q s'
  proof (cases "q = p")
    case True
    with assms(2-5) that show ?thesis by auto
  next
    case False
    with coreD(1) [OF c, of q s'] that conn_regs_without [of "SocksConn p" q R] show ?thesis by simp
  qed
  show "mgmt_ok m \<and> mgmt_regs R q m" if "M q = Some m" for q m
    using coreD(2) [OF c that] mgmt_regs_without [of "SocksConn p" q R] by simp
  show "owner_ok L M r" if r: "R fd = Some r" for fd r
  proof (cases r)
    case (fields i h d)
    show ?thesis
    proof (cases "d = Some (SocksConn p)")
      case True
      with fields assms(2) show ?thesis by (simp add: owner_ok_def)
    next
      case False
      then have "without (SocksConn p) R fd = Some r" using r fields by (simp add: without_Some)
      from coreD(3) [OF c this] fields show ?thesis
        by (auto simp: owner_ok_def split: option.splits pointer.splits if_splits)
    qed
  qed
  show "\<exists>q s. L q = Some s \<and> client_fd s = fd \<and> resolving s" if fd: "fd \<in> set js" for fd
  proof -
    obtain q s' where q: "(L(p := None)) q = Some s'" "client_fd s' = fd" "resolving s'"
      using coreD(6) [OF c fd] by auto
    then show ?thesis by (intro exI [of _ q] exI [of _ s']) (simp split: if_splits)
  qed
  show "R fd = Some (i, h, None) \<longleftrightarrow> i = OP_READ \<and> ls fd = Some h" for fd i h
    using coreD(4) [OF c, of fd i h] by (simp add: without_Some)
qed (rule coreD(5) [OF c])

lemma conn_regs_inj:
  assumes "conn_regs R p s ci oi" and "conn_regs R q s' ci' oi'" and "client_fd s = client_fd s'"
  shows "p = q"
proof -
  have "R (client_fd s) = Some (ci, SocksHandler, Some (SocksConn p))"
    "R (client_fd s') = Some (ci', SocksHandler, Some (SocksConn q))"
    using assms by (auto simp: conn_regs_def)
  with assms(3) show ?thesis by simp
qed

lemma focusI:
  assumes inv: "server_inv ls js st" and "live (snd st) p = Some s" and idle: "client_fd s \<notin> set js"
  shows "\<exists>ci oi. focus (s_jobs (fst st)) ls js p s ci oi st \<and> ready (cur s) ci oi s"
proof -
  have c: "core (sel_map (fst st)) (live (snd st)) (px_mgmt (snd st)) ls js" "sel_inv (fst st)" "heap_ok (snd st)"
    using inv by (simp_all add: server_inv_def)
  obtain ci oi where "conn_ok s" "conn_regs (sel_map (fst st)) p s ci oi" "ready (cur s) ci oi s"
    using coreD(1) [OF c(1) assms(2)] by auto
  with c core_split [OF c(1) assms(2) idle] assms(2) show ?thesis
    by (intro exI [of _ ci] exI [of _ oi]) (simp add: focus_def)
qed

lemma focus_done:
  assumes "focus k ls js p s ci oi st" and "ready (cur s) ci oi s"
  shows "server_inv ls js st \<and> s_jobs (fst st) = k"
  using core_merge [where p = p and s = s and ci = ci and oi = oi] assms
  by (simp add: server_inv_def focus_def)

section \<open>The primitive operations\<close>

lemma put_conn_live:
  assumes "live (snd st) p = Some s"
  shows "live (snd (put_conn p s' st)) = (live (snd st))(p \<mapsto> s')"
  using assms by (auto simp: live_def put_conn_def fun_eq_iff split: if_splits)

lemma state_fields [simp]:
  "fst (put_conn p s st) = fst st" "px_mgmt (snd (put_conn p s st)) = px_mgmt (snd st)"
  "fst (sys_unit f st) = fst st" "px_mgmt (snd (sys_unit f st)) = px_mgmt (snd st)"
  "live (snd (sys_unit f st)) = live (snd st)"
  by (auto simp: put_conn_def sys_unit_def live_def fun_eq_iff)

lemma dom_upd_Some: "L p = Some s \<Longrightarrow> dom (L(p \<mapsto> s')) = dom L"
  by (auto split: if_splits)

lemma heap_ok_put:
  assumes "heap_ok (snd st)" and "live (snd st) p = Some s"
  shows "heap_ok (snd (put_conn p s' st))"
proof -
  have "p \<notin> set (px_pool (snd st))" "px_conns (snd st) p = Some s"
    using assms(2) by (auto simp: live_def split: if_splits)
  then show ?thesis
    using assms(1) put_conn_live [OF assms(2), of s'] dom_upd_Some [of "live (snd st)" p s s'] assms(2)
    by (auto simp: heap_ok_def put_conn_def)
qed

lemma focus_get: "focus k ls js p s ci oi st \<Longrightarrow> get_conn p st = Some s"
  by (auto simp: focus_def get_conn_def live_def split: if_splits)

text \<open>The record may change, the descriptors and the reference count apart.\<close>

definition same_fds :: "socks5 \<Rightarrow> socks5 \<Rightarrow> bool" where
  "same_fds s s' \<longleftrightarrow> client_fd s' = client_fd s \<and> origin_fd s' = origin_fd s \<and> references s' = references s"

lemma focus_put:
  assumes "focus k ls js p s ci oi st" and "same_fds s s'" and "conn_ok s'"
  shows "focus k ls js p s' ci oi (put_conn p s' st)"
  using assms put_conn_live [of st p s s'] heap_ok_put [of st p s s']
  by (simp add: focus_def put_conn_def conn_regs_def same_fds_def)

text \<open>The world, the log and the services other than the number of connections\<close>

lemma focus_frame:
  fixes x x' :: "'w proxy"
  assumes "focus k ls js p s ci oi (sel, x)"
    and "px_conns x' = px_conns x" "px_mgmt x' = px_mgmt x" "px_next x' = px_next x"
    "px_pool x' = px_pool x" "px_pool_size x' = px_pool_size x" "services_inv (px_services x')"
    "m_current (sv_metrics (px_services x')) = m_current (sv_metrics (px_services x))"
  shows "focus k ls js p s ci oi (sel, x')"
proof -
  have "live x' = live x" unfolding live_def assms(2,5) ..
  with assms show ?thesis by (simp add: focus_def heap_ok_def)
qed

lemma focus_services: "focus k ls js p s ci oi st \<Longrightarrow> services_inv (px_services (snd st))"
  by (simp add: focus_def heap_ok_def)

lemma focus_sys:
  assumes "focus k ls js p s ci oi st" and "sys f st = (r, st')"
  shows "focus k ls js p s ci oi st'"
  using assms focus_frame [of k ls js p s ci oi "fst st" "snd st"] focus_services [OF assms(1)]
  by (auto simp: sys_def split: prod.splits)

lemma focus_sys_unit: "focus k ls js p s ci oi st \<Longrightarrow> focus k ls js p s ci oi (sys_unit f st)"
  using focus_frame [of k ls js p s ci oi "fst st" "snd st"] focus_services [of k ls js p s ci oi st]
  by (simp add: sys_unit_def)

lemma focus_log: "focus k ls js p s ci oi st \<Longrightarrow> focus k ls js p s ci oi (add_log e st)"
  using focus_frame [of k ls js p s ci oi "fst st" "snd st"] focus_services [of k ls js p s ci oi st]
  by (simp add: add_log_def)

lemma focus_metrics:
  assumes "focus k ls js p s ci oi st" and "\<And>m. m_current (f m) = m_current m"
  shows "focus k ls js p s ci oi (upd_metrics f st)"
  using assms focus_frame [of k ls js p s ci oi "fst st" "snd st"] focus_services [OF assms(1)]
  by (simp add: upd_metrics_def upd_services_def services_inv_def)

text \<open>Interests: only the connection's own descriptors are touched, and the operation succeeds.\<close>

lemma conn_regs_entry:
  "conn_regs R p s ci oi \<Longrightarrow> R (client_fd s) = Some (ci, SocksHandler, Some (SocksConn p))"
  "conn_regs R p s ci (Some i) \<Longrightarrow> R (origin_fd s) = Some (i, SocksHandler, Some (SocksConn p))"
  by (auto simp: conn_regs_def)

lemma conn_regs_set_client:
  assumes "conn_regs R p s ci oi"
  shows "conn_regs (R(client_fd s \<mapsto> (i, SocksHandler, Some (SocksConn p)))) p s i oi"
proof -
  have "oi \<noteq> None \<Longrightarrow> origin_fd s \<noteq> client_fd s" "oi = None \<Longrightarrow> origin_fd s \<noteq> client_fd s"
    using assms by (auto simp: conn_regs_def)
  then have "origin_fd s \<noteq> client_fd s" by blast
  with assms show ?thesis by (auto simp: conn_regs_def)
qed

lemma conn_regs_set_origin:
  assumes "conn_regs R p s ci (Some j)"
  shows "conn_regs (R(origin_fd s \<mapsto> (i, SocksHandler, Some (SocksConn p)))) p s ci (Some i)"
  using assms by (auto simp: conn_regs_def)

lemma focus_regs:
  assumes "focus k ls js p s ci oi st" and "sel_inv sel" and "s_jobs sel = s_jobs (fst st)"
    and "without (SocksConn p) (sel_map sel) = without (SocksConn p) (sel_map (fst st))"
    and "conn_regs (sel_map sel) p s ci' oi'"
  shows "focus k ls js p s ci' oi' (sel, snd st)"
  using assms by (simp add: focus_def)

lemma focus_interest_client:
  assumes f: "focus k ls js p s ci oi st"
  shows "returns (set_interest (client_fd s) i st)
    (\<lambda>(r, st'). r = SELECTOR_SUCCESS \<and> focus k ls js p s i oi st')"
proof -
  have inv: "sel_inv (fst st)" and regs: "conn_regs (sel_map (fst st)) p s ci oi"
    using f by (simp_all add: focus_def)
  from set_interest_law [OF inv, of "client_fd s" i] conn_regs_entry(1) [OF regs]
  obtain sel where sel: "selector_set_interest (client_fd s) i (fst st) = Some (SELECTOR_SUCCESS, sel)"
    "sel_inv sel" "s_jobs sel = s_jobs (fst st)"
    "sel_map sel = (sel_map (fst st))(client_fd s \<mapsto> (i, SocksHandler, Some (SocksConn p)))" by auto
  have "focus k ls js p s i oi (sel, snd st)"
    using focus_regs [OF f sel(2,3)] conn_regs_set_client [OF regs, of i] conn_regs_entry(1) [OF regs]
    by (simp add: sel(4))
  with sel(1) show ?thesis by (simp add: set_interest_def)
qed

lemma focus_interest_origin:
  assumes f: "focus k ls js p s ci (Some j) st"
  shows "returns (set_interest (origin_fd s) i st)
    (\<lambda>(r, st'). r = SELECTOR_SUCCESS \<and> focus k ls js p s ci (Some i) st')"
proof -
  have inv: "sel_inv (fst st)" and regs: "conn_regs (sel_map (fst st)) p s ci (Some j)"
    using f by (simp_all add: focus_def)
  from set_interest_law [OF inv, of "origin_fd s" i] conn_regs_entry(2) [OF regs]
  obtain sel where sel: "selector_set_interest (origin_fd s) i (fst st) = Some (SELECTOR_SUCCESS, sel)"
    "sel_inv sel" "s_jobs sel = s_jobs (fst st)"
    "sel_map sel = (sel_map (fst st))(origin_fd s \<mapsto> (i, SocksHandler, Some (SocksConn p)))" by auto
  have "focus k ls js p s ci (Some i) (sel, snd st)"
    using focus_regs [OF f sel(2,3)] conn_regs_set_origin [OF regs, of i] conn_regs_entry(2) [OF regs]
    by (simp add: sel(4))
  with sel(1) show ?thesis by (simp add: set_interest_def)
qed

text \<open>Registering the origin's descriptor\<close>

lemma focus_register_origin:
  assumes f: "focus k ls js p s ci None st" and "0 \<le> fd" and s': "conn_ok s'" "client_fd s' = client_fd s"
    "origin_fd s' = fd" "references s' = references s + 1"
  shows "returns (register_fd fd SocksHandler i (Some (SocksConn p)) st)
    (\<lambda>(r, st'). if r = SELECTOR_SUCCESS then focus k ls js p s' ci (Some i) (put_conn p s' st')
       else focus k ls js p s ci None st')"
proof -
  have inv: "sel_inv (fst st)" and regs: "conn_regs (sel_map (fst st)) p s ci None"
    using f by (simp_all add: focus_def)
  let ?r = "if invalid_fd fd then SELECTOR_IARGS
    else if sel_map (fst st) fd \<noteq> None then SELECTOR_FDINUSE else SELECTOR_SUCCESS"
  from register_law [OF inv, of True unused_item fd SocksHandler i "Some (SocksConn p)"]
  obtain sel where sel: "selector_register True unused_item fd SocksHandler i (Some (SocksConn p)) (fst st) =
      Some (?r, sel)" "sel_inv sel" "s_jobs sel = s_jobs (fst st)"
    "sel_map sel = (if \<not> invalid_fd fd \<and> sel_map (fst st) fd = None
        then (sel_map (fst st))(fd \<mapsto> (i, SocksHandler, Some (SocksConn p))) else sel_map (fst st))" by blast
  show ?thesis
  proof (cases "?r = SELECTOR_SUCCESS")
    case True
    then have new: "sel_map (fst st) fd = None"
      and map: "sel_map sel = (sel_map (fst st))(fd \<mapsto> (i, SocksHandler, Some (SocksConn p)))"
      using sel(4) by (auto split: if_splits)
    have "fd \<noteq> client_fd s" using new conn_regs_entry(1) [OF regs] by auto
    then have "conn_regs (sel_map sel) p s' ci (Some i)"
      using regs new assms(2) s' map by (auto simp: conn_regs_def)
    moreover have "without (SocksConn p) (sel_map sel) = without (SocksConn p) (sel_map (fst st))"
      using new map by simp
    moreover have "live (snd (put_conn p s' (sel, snd st))) = (live (snd st))(p \<mapsto> s')"
      using put_conn_live [of "(sel, snd st)" p s s'] f by (simp add: focus_def)
    moreover have "heap_ok (snd (put_conn p s' (sel, snd st)))"
      using heap_ok_put [of "(sel, snd st)" p s s'] f by (simp add: focus_def)
    ultimately have "focus k ls js p s' ci (Some i) (put_conn p s' (sel, snd st))"
      using f sel(2,3) s'(1) by (simp add: focus_def put_conn_def)
    with True sel(1) show ?thesis by (simp add: register_fd_def)
  next
    case False
    then have "sel_map sel = sel_map (fst st)" using sel(4) by (auto split: if_splits)
    then have "focus k ls js p s ci None (sel, snd st)"
      using focus_regs [OF f sel(2,3)] regs by simp
    with False sel(1) show ?thesis by (auto simp: register_fd_def)
  qed
qed

section \<open>Closing descriptors\<close>

lemma close_not_last:
  assumes "get_conn p st = Some s" and "1 < references s"
  shows "socksv5_close os (fd, Some (SocksConn p)) st =
    Some (put_conn p (s\<lparr>references := references s - 1\<rparr>) (sys_unit (os_close os fd) st))"
  using assms by (simp add: socksv5_close_def attach_def Let_def)

lemma live_destroyed:
  assumes "live x p = Some s"
  shows "live (x\<lparr>px_conns := (px_conns x)(p \<mapsto> s'), px_pool := p # px_pool x\<rparr>) = (live x)(p := None)"
    and "live (x\<lparr>px_conns := (px_conns x)(p := None)\<rparr>) = (live x)(p := None)"
  using assms by (auto simp: live_def fun_eq_iff split: if_splits)

lemma card_dom_upd_None:
  assumes "L p = Some s" and "finite (dom L)"
  shows "card (dom (L(p := None))) = card (dom L) - 1" and "0 < card (dom L)"
proof -
  have "p \<in> dom L" using assms(1) by auto
  with assms(2) show "card (dom (L(p := None))) = card (dom L) - 1" "0 < card (dom L)"
    by (auto simp: card_gt_0_iff)
qed

lemma finite_live: "heap_ok x \<Longrightarrow> finite (dom (live x))"
  by (rule finite_subset [of _ "{..<px_next x}"]) (auto simp: heap_ok_def live_def split: if_splits)

lemma unat_closed:
  "0 < unat (m_current m) \<Longrightarrow> unat (m_current (metrics_connection_closed m)) = unat (m_current m) - 1"
  by (auto simp: metrics_connection_closed_def word_gt_0 unat_minus_one unat_gt_0)

text \<open>The last close counts the connection out and recycles or frees its memory.\<close>

lemma close_last:
  assumes heap: "heap_ok x" and s: "live x p = Some s" "conn_ok s" "references s = 1" "\<not> resolving s"
  shows "\<exists>x'. socksv5_close os (fd, Some (SocksConn p)) (sel, x) = Some (sel, x') \<and> heap_ok x'
    \<and> live x' = (live x)(p := None) \<and> px_mgmt x' = px_mgmt x"
proof -
  define s' where "s' = s\<lparr>references := 0, dns := dns_request_clear (dns s)\<rparr>"
  define x1 where "x1 = x\<lparr>px_world := os_close os fd (px_world x),
    px_services := (px_services x)\<lparr>sv_metrics := metrics_connection_closed (sv_metrics (px_services x))\<rparr>\<rparr>"
  define x' where "x' =
    (if px_pool_size x < MAX_POOL
     then x1\<lparr>px_conns := (px_conns x)(p \<mapsto> s'), px_pool := p # px_pool x, px_pool_size := px_pool_size x + 1\<rparr>
     else x1\<lparr>px_conns := (px_conns x)(p := None)\<rparr>)"
  have p: "px_conns x p = Some s" "p \<notin> set (px_pool x)" using s(1) by (auto simp: live_def split: if_splits)
  have ok: "conn_ok s'" using s(2) by (simp add: s'_def conn_ok_def)
  have "socksv5_close os (fd, Some (SocksConn p)) (sel, x) = Some (sel, x')"
    using p s(3,4)
    by (simp add: socksv5_close_def attach_def get_conn_def socks5_destroy_def put_conn_def Let_def
        upd_metrics_def upd_services_def sys_unit_def x'_def x1_def s'_def)
  moreover have live: "live x' = (live x)(p := None)"
    using live_destroyed [OF s(1)] by (simp add: x'_def x1_def live_def fun_eq_iff)
  moreover have "heap_ok x'"
  proof -
    have "unat (m_current (metrics_connection_closed (sv_metrics (px_services x)))) = card (dom (live x'))"
      using heap unat_closed card_dom_upd_None [OF s(1) finite_live [OF heap]]
      by (simp add: heap_ok_def live del: fun_upd_apply)
    then show ?thesis
      using heap p ok by (auto simp: heap_ok_def x'_def x1_def services_inv_def)
  qed
  ultimately show ?thesis by (auto simp: x'_def x1_def)
qed

lemma without_conn:
  assumes "conn_regs R p s ci oi"
  shows "without (SocksConn p) R = (if oi = None then R(client_fd s := None)
    else R(client_fd s := None, origin_fd s := None))"
proof (rule ext)
  fix fd
  have entry: "R fd = Some (i, h, Some (SocksConn p)) \<longleftrightarrow>
      h = SocksHandler \<and> (fd = client_fd s \<and> i = ci \<or> fd = origin_fd s \<and> oi = Some i)" for i h
    using assms by (simp add: conn_regs_def)
  show "without (SocksConn p) R fd = (if oi = None then R(client_fd s := None)
    else R(client_fd s := None, origin_fd s := None)) fd"
  proof (cases "R fd")
    case None
    then show ?thesis by (auto simp: without_def)
  next
    case (Some r)
    then obtain i h d where r: "R fd = Some (i, h, d)" by (cases r) auto
    show ?thesis
    proof (cases "d = Some (SocksConn p)")
      case True
      with r entry [of i h] show ?thesis by (auto simp: without_def)
    next
      case False
      then have "fd \<noteq> client_fd s" using r conn_regs_entry(1) [OF assms] by auto
      moreover have "oi \<noteq> None \<Longrightarrow> fd \<noteq> origin_fd s" using r entry False by auto
      ultimately show ?thesis using r False by (auto simp: without_def)
    qed
  qed
qed

lemma unregister_focus:
  assumes "sel_inv sel" and "sel_map sel fd = Some (i, SocksHandler, Some (SocksConn p))"
    and "socksv5_close os (fd, Some (SocksConn p)) (sel, x) = Some (sel, x')"
  shows "\<exists>sel'. unregister_fd os fd (sel, x) = Some (SELECTOR_SUCCESS, sel', x') \<and> sel_inv sel'
    \<and> s_jobs sel' = s_jobs sel \<and> sel_map sel' = (sel_map sel)(fd := None)"
  using unregister_law [OF assms(1), where fd = fd and close_of = "close_of os" and x' = x' and x = x] assms(2,3)
  by (auto simp: unregister_fd_def)

lemma unregister_not_last:
  assumes f: "focus k ls js p s ci oi st" and "references s = 2"
    and fd: "sel_map (fst st) fd = Some (i, SocksHandler, Some (SocksConn p))"
  shows "\<exists>sel x. unregister_fd os fd st = Some (SELECTOR_SUCCESS, sel, x) \<and> sel_inv sel \<and> s_jobs sel = k
    \<and> sel_map sel = (sel_map (fst st))(fd := None) \<and> heap_ok x
    \<and> live x = (live (snd st))(p \<mapsto> s\<lparr>references := 1\<rparr>) \<and> px_mgmt x = px_mgmt (snd st)
    \<and> px_world x = os_close os fd (px_world (snd st))"
proof -
  have inv: "sel_inv (fst st)" and live: "live (snd st) p = Some s" using f by (simp_all add: focus_def)
  let ?x = "snd (put_conn p (s\<lparr>references := 1\<rparr>) (sys_unit (os_close os fd) st))"
  have "socksv5_close os (fd, Some (SocksConn p)) (fst st, snd st) = Some (fst st, ?x)"
    using close_not_last [OF focus_get [OF f], of os fd] assms(2) by (simp add: prod_eq_iff)
  from unregister_focus [OF inv fd this] obtain sel where
    "unregister_fd os fd st = Some (SELECTOR_SUCCESS, sel, ?x)" "sel_inv sel" "s_jobs sel = s_jobs (fst st)"
    "sel_map sel = (sel_map (fst st))(fd := None)" by auto
  moreover have "live ?x = (live (snd st))(p \<mapsto> s\<lparr>references := 1\<rparr>)"
    using put_conn_live [of "sys_unit (os_close os fd) st" p s] live by simp
  moreover have "heap_ok ?x"
    using focus_sys_unit [OF f, of "os_close os fd"]
    by (intro heap_ok_put [where s = s]) (simp_all add: focus_def)
  moreover have "px_world ?x = os_close os fd (px_world (snd st))" by (simp add: put_conn_def sys_unit_def)
  ultimately show ?thesis using f by (intro exI [of _ sel] exI [of _ ?x]) (simp add: focus_def)
qed

lemma unregister_last:
  assumes "sel_inv sel" and "sel_map sel fd = Some (i, SocksHandler, Some (SocksConn p))"
    and "heap_ok x" and "live x p = Some s" "conn_ok s" "references s = 1" "\<not> resolving s"
  shows "\<exists>sel' x'. unregister_fd os fd (sel, x) = Some (SELECTOR_SUCCESS, sel', x') \<and> sel_inv sel'
    \<and> s_jobs sel' = s_jobs sel \<and> sel_map sel' = (sel_map sel)(fd := None) \<and> heap_ok x'
    \<and> live x' = (live x)(p := None) \<and> px_mgmt x' = px_mgmt x"
proof -
  obtain x' where x': "socksv5_close os (fd, Some (SocksConn p)) (sel, x) = Some (sel, x')" "heap_ok x'"
    "live x' = (live x)(p := None)" "px_mgmt x' = px_mgmt x"
    using close_last [OF assms(3-7), of os fd sel] by auto
  with unregister_focus [OF assms(1,2) x'(1)] show ?thesis by auto
qed

text \<open>Giving the origin up\<close>

lemma focus_unregister_origin:
  assumes f: "focus k ls js p s ci (Some j) st"
    and s': "conn_ok s'" "client_fd s' = client_fd s" "origin_fd s' = -1" "references s' = 1"
  shows "returns (unregister_fd os (origin_fd s) st)
    (\<lambda>(r, st'). get_conn p st' = Some (s\<lparr>references := 1\<rparr>) \<and> focus k ls js p s' ci None (put_conn p s' st')
       \<and> sel_map (fst st') = (sel_map (fst st))(origin_fd s := None)
       \<and> px_world (snd st') = os_close os (origin_fd s) (px_world (snd st)))"
proof -
  have regs: "conn_regs (sel_map (fst st)) p s ci (Some j)" using f by (simp add: focus_def)
  have refs: "references s = 2" "origin_fd s \<noteq> client_fd s" using regs by (simp_all add: conn_regs_def)
  from unregister_not_last [OF f refs(1) conn_regs_entry(2) [OF regs]] obtain sel x where r:
    "unregister_fd os (origin_fd s) st = Some (SELECTOR_SUCCESS, sel, x)" "sel_inv sel" "s_jobs sel = k"
    "sel_map sel = (sel_map (fst st))(origin_fd s := None)" "heap_ok x"
    "live x = (live (snd st))(p \<mapsto> s\<lparr>references := 1\<rparr>)" "px_mgmt x = px_mgmt (snd st)"
    "px_world x = os_close os (origin_fd s) (px_world (snd st))" by blast
  have "conn_regs (sel_map sel) p s' ci None"
    using regs s'(2-4) refs(2) unfolding conn_regs_def r(4) by auto
  moreover have "without (SocksConn p) (sel_map sel) = without (SocksConn p) (sel_map (fst st))"
    using conn_regs_entry(2) [OF regs] by (simp add: r(4))
  ultimately have "focus k ls js p s' ci None (put_conn p s' (sel, x))"
    using f r(2,3,5-7) s'(1) put_conn_live [of "(sel, x)" p "s\<lparr>references := 1\<rparr>" s']
      heap_ok_put [of "(sel, x)" p "s\<lparr>references := 1\<rparr>" s']
    by (simp add: focus_def)
  moreover have "get_conn p (sel, x) = Some (s\<lparr>references := 1\<rparr>)"
    using fun_cong [OF r(6), of p] by (auto simp: get_conn_def live_def split: if_splits)
  ultimately show ?thesis using r(1,4,8) by simp
qed

text \<open>\<open>socksv5_done\<close> takes the connection out altogether.\<close>

lemma focus_closed:
  assumes f: "focus k ls js p s ci oi st" and idle: "\<not> resolving s"
  shows "returns (socksv5_done os (fd, Some (SocksConn p)) st)
    (\<lambda>st'. server_inv ls js st' \<and> s_jobs (fst st') = k
       \<and> sel_map (fst st') = without (SocksConn p) (sel_map (fst st)))"
proof -
  have inv: "sel_inv (fst st)" and regs: "conn_regs (sel_map (fst st)) p s ci oi"
    and live: "live (snd st) p = Some s" "heap_ok (snd st)" "conn_ok s"
    and core: "core (without (SocksConn p) (sel_map (fst st))) ((live (snd st))(p := None)) (px_mgmt (snd st)) ls js"
    and jobs: "s_jobs (fst st) = k"
    using f by (simp_all add: focus_def)
  have client: "client_fd s \<noteq> -1" using regs by (auto simp: conn_regs_def)
  note step = socksv5_done_def attach_def focus_get [OF f] client server_inv_def
  show ?thesis
  proof (cases oi)
    case None
    then have fds: "origin_fd s = -1" "references s = 1" using regs by (simp_all add: conn_regs_def)
    from unregister_last [OF inv conn_regs_entry(1) [OF regs] live(2,1,3) fds(2) idle, of os]
    obtain sel x where "unregister_fd os (client_fd s) st = Some (SELECTOR_SUCCESS, sel, x)"
      "sel_inv sel" "s_jobs sel = k" "sel_map sel = (sel_map (fst st))(client_fd s := None)" "heap_ok x"
      "live x = (live (snd st))(p := None)" "px_mgmt x = px_mgmt (snd st)" using jobs by auto
    then show ?thesis using without_conn [OF regs] None core fds by (simp add: step)
  next
    case (Some j)
    then have fds: "origin_fd s \<noteq> -1" "origin_fd s \<noteq> client_fd s" "references s = 2"
      using regs by (auto simp: conn_regs_def)
    from unregister_not_last [OF f fds(3) conn_regs_entry(1) [OF regs], of os] obtain sel x where r:
      "unregister_fd os (client_fd s) st = Some (SELECTOR_SUCCESS, sel, x)" "sel_inv sel" "s_jobs sel = k"
      "sel_map sel = (sel_map (fst st))(client_fd s := None)" "heap_ok x"
      "live x = (live (snd st))(p \<mapsto> s\<lparr>references := 1\<rparr>)" "px_mgmt x = px_mgmt (snd st)" by blast
    have "sel_map sel (origin_fd s) = Some (j, SocksHandler, Some (SocksConn p))"
      "conn_ok (s\<lparr>references := 1\<rparr>)" "live x p = Some (s\<lparr>references := 1\<rparr>)"
      using conn_regs_entry(2) [of _ p s ci j] regs Some fds(2) live(3)
      by (simp_all add: r(4,6) conn_ok_def)
    from unregister_last [OF r(2) this(1) r(5) this(3,2), of os] obtain sel2 x2 where
      "unregister_fd os (origin_fd s) (sel, x) = Some (SELECTOR_SUCCESS, sel2, x2)" "sel_inv sel2"
      "s_jobs sel2 = k" "sel_map sel2 = (sel_map sel)(origin_fd s := None)" "heap_ok x2"
      "live x2 = (live x)(p := None)" "px_mgmt x2 = px_mgmt x" using idle r(3) by auto
    then show ?thesis using without_conn [OF regs] Some core fds r by (simp add: step)
  qed
qed

end
