(* ===== verification/Socks5_Proofs.thy ===== *)
theory Socks5_Proofs
  imports Server_Inv
begin

text \<open>
  Every callback of \<open>src/socks5.c\<close>, called in the state of the machine that it belongs to, returns,
  keeps the invariant of the process, and leaves its connection waiting for exactly the events that
  its next state handles.
\<close>

section \<open>What a callback leaves behind\<close>

text \<open>A connection on its way to state \<open>c\<close>, before the machine has called \<open>on_arrival\<close>.\<close>

definition arriving :: "nat \<Rightarrow> fd_interest \<Rightarrow> fd_interest option \<Rightarrow> socks5 \<Rightarrow> bool" where
  "arriving c ci oi s \<longleftrightarrow>
     (if c \<in> {DONE, ERROR_STATE} then \<not> resolving s
      else if c = REQUEST_RESOLV
        then resolving s \<and> authorised s \<and> oi = None \<and> dq_notify_fd (dns s) = client_fd s
      else if c = REQUEST_WRITE
        then \<not> resolving s \<and> authorised s \<and> (reply s = SOCKS5_REP_SUCCESS \<longleftrightarrow> oi \<noteq> None)
      else if c = COPY then \<not> resolving s \<and> authorised s \<and> reply s = SOCKS5_REP_SUCCESS \<and> oi \<noteq> None
      else ready c ci oi s)"

text \<open>The result of a callback in state \<open>c\<close>: the next state, and the connection \<open>p\<close>, which was \<open>s\<close>, with
  the same descriptor of the client.\<close>

definition step_ok ::
    "int list \<Rightarrow> listeners \<Rightarrow> int list \<Rightarrow> nat \<Rightarrow> socks5 \<Rightarrow> nat \<Rightarrow> nat \<times> 'w state \<Rightarrow> bool" where
  "step_ok k ls js p s c r \<longleftrightarrow> fst r \<le> ERROR_STATE \<and>
     (\<exists>s' ci oi. focus k ls js p s' ci oi (snd r) \<and> stm s' = stm s \<and> client_fd s' = client_fd s
        \<and> (c = COPY \<longrightarrow> origin_fd s' = origin_fd s)
        \<and> (if fst r = c then ready c ci oi s' else arriving (fst r) ci oi s'))"

lemma step_okI:
  assumes "focus k ls js p s' ci oi st'" and "stm s' = stm s" and "client_fd s' = client_fd s"
    and "c = COPY \<Longrightarrow> origin_fd s' = origin_fd s"
    and "next \<le> ERROR_STATE" and "if next = c then ready c ci oi s' else arriving next ci oi s'"
  shows "step_ok k ls js p s c (next, st')"
  unfolding step_ok_def using assms by (intro conjI exI [of _ s'] exI [of _ ci] exI [of _ oi]) simp_all

lemma arriving_end: "\<not> resolving s \<Longrightarrow> arriving DONE ci oi s \<and> arriving ERROR_STATE ci oi s"
  by (simp add: arriving_def)

text \<open>Nothing happened, or the connection failed.\<close>

lemma stay_or_fail:
  assumes "focus k ls js p s' ci oi st'" and "stm s' = stm s" and "client_fd s' = client_fd s"
    and "origin_fd s' = origin_fd s" and "ready c ci oi s'" and "c \<noteq> REQUEST_RESOLV" "c \<le> COPY"
    and "n = c \<or> n = ERROR_STATE"
  shows "step_ok k ls js p s c (n, st')"
proof (rule step_okI [OF assms(1-3)])
  have "\<not> resolving s'" using assms(5,6) by (simp add: ready_def)
  then show "if n = c then ready c ci oi s' else arriving n ci oi s'"
    using assms(5,8) arriving_end by auto
qed (use assms(4,7,8) in \<open>auto simp: state_defs\<close>)

section \<open>Receiving and sending\<close>

lemma attach_conn [simp]: "attach (fd, Some (SocksConn p)) = Some p"
  by (simp add: attach_def)

lemma focus_conn_ok: "focus k ls js p s ci oi st \<Longrightarrow> conn_ok s"
  by (simp add: focus_def)

lemma conn_ok_buffers:
  assumes "conn_ok s"
  shows "buf_inv (read_buffer s)" "buf_inv (write_buffer s)"
    "b_limit (read_buffer s) = buffer_size s" "b_limit (write_buffer s) = buffer_size s"
    "256 \<le> buffer_size s"
  using assms by (simp_all add: conn_ok_def config_limits)

lemma receive_ok:
  assumes f: "focus k ls js p s ci oi st" and "os_ok os"
  shows "returns (receive os c p st) (\<lambda>(r, st'). focus k ls js p s ci oi st' \<and>
    (case r of Inl n \<Rightarrow> n = c \<or> n = ERROR_STATE
     | Inr s' \<Rightarrow> \<exists>b. s' = s\<lparr>read_buffer := b\<rparr> \<and> buf_inv b \<and> b_limit b = buffer_size s))"
proof -
  let ?b = "read_buffer s"
  note b = conn_ok_buffers [OF focus_conn_ok [OF f]]
  obtain r st' where sys: "sys (os_recv os (client_fd s) (buf_room ?b)) st = (r, st')" by (rule prod.exhaust)
  note f' = focus_sys [OF f sys]
  have run: "receive os c p st =
    (case r of
       Inl e \<Rightarrow> Some (Inl (if would_block e then c else ERROR_STATE), st')
     | Inr bs \<Rightarrow>
         if bs = [] then Some (Inl ERROR_STATE, st')
         else do {
           b \<leftarrow> buffer_write_adv (buffer_poke ?b (b_write ?b) bs) (int (length bs));
           Some (Inr (s\<lparr>read_buffer := b\<rparr>), st')
         })"
    using sys by (simp add: receive_def focus_get [OF f] buf_write_ptr [OF b(1)] Let_def)
  show ?thesis
  proof (cases r)
    case (Inl e)
    with run f' show ?thesis by simp
  next
    case (Inr bs)
    then obtain w w' where "os_recv os (client_fd s) (buf_room ?b) w = (Inr bs, w')"
      using sys by (auto simp: sys_def split: prod.splits)
    from os_okD(1) [OF assms(2) this] have "length bs \<le> buf_room ?b" .
    with buf_poke_adv [OF b(1), of bs] run Inr f' b(3) show ?thesis by (cases "bs = []") auto
  qed
qed

lemma focus_write_buffer:
  assumes "focus k ls js p s ci oi st" and "buf_inv b" and "b_limit b = buffer_size s"
  shows "focus k ls js p (s\<lparr>write_buffer := b\<rparr>) ci oi (put_conn p (s\<lparr>write_buffer := b\<rparr>) st)"
  using focus_put [OF assms(1)] assms(2,3) focus_conn_ok [OF assms(1)]
  by (simp add: same_fds_def conn_ok_def)

lemma transmit_ok:
  assumes f: "focus k ls js p s ci oi st" and "os_ok os"
  shows "returns (transmit os c p st) (\<lambda>(r, st'). \<exists>b. focus k ls js p (s\<lparr>write_buffer := b\<rparr>) ci oi st' \<and>
    (case r of Inl n \<Rightarrow> n = c \<or> n = ERROR_STATE
     | Inr s' \<Rightarrow> s' = s\<lparr>write_buffer := b\<rparr> \<and> buf_contents b = []))"
proof -
  let ?b = "write_buffer s"
  note b = conn_ok_buffers [OF focus_conn_ok [OF f]]
  obtain r st' where sys: "sys (os_send os (client_fd s) (buf_contents ?b)) st = (r, st')" by (rule prod.exhaust)
  note f' = focus_sys [OF f sys]
  have run: "transmit os c p st =
    (case r of
       Inl e \<Rightarrow> Some (Inl (if would_block e then c else ERROR_STATE), st')
     | Inr w \<Rightarrow> do {
         b \<leftarrow> buffer_read_adv ?b (int w);
         let s = s\<lparr>write_buffer := b\<rparr>;
         Some (if buffer_can_read b then Inl c else Inr s, put_conn p s st')
       })"
    using sys by (simp add: transmit_def focus_get [OF f] buf_read_ptr [OF b(2)] buf_peek [OF b(2)] Let_def)
  show ?thesis
  proof (cases r)
    case (Inl e)
    with run f' show ?thesis by (auto intro!: exI [of _ ?b])
  next
    case (Inr n)
    then obtain w w' where "os_send os (client_fd s) (buf_contents ?b) w = (Inr n, w')"
      using sys by (auto simp: sys_def split: prod.splits)
    from os_okD(2) [OF assms(2) this] have "n \<le> length (buf_contents ?b)" .
    from buf_read_adv [OF b(2) this] obtain b' where b': "buffer_read_adv ?b (int n) = Some b'"
      "buf_inv b'" "b_limit b' = buffer_size s" using b(4) by auto
    with run Inr focus_write_buffer [OF f' b'(2,3)] show ?thesis
      by (auto simp: Let_def buf_can_read)
  qed
qed

lemma client_interest_ok:
  assumes f: "focus k ls js p s ci oi st"
  shows "returns (client_interest p i next st) (\<lambda>(n, st'). n = next \<and> focus k ls js p s i oi st')"
  using focus_interest_client [OF f, of i]
  by (auto simp: client_interest_def focus_get [OF f] returns_def)

lemma write_reply_ok:
  assumes "conn_ok s" and "length bs \<le> 256"
  shows "\<exists>b. buffer_write_list (buffer_reset (write_buffer s)) bs = Some b \<and> buf_inv b
    \<and> b_limit b = buffer_size s \<and> buf_contents b = bs"
proof -
  note b = conn_ok_buffers [OF assms(1)]
  have "length bs \<le> buf_room (buffer_reset (write_buffer s))" using b(4,5) assms(2) by simp
  from snk.put_list_fits [OF buf_reset(1) [OF b(2)] this] obtain b' where b':
    "buffer_write_list (buffer_reset (write_buffer s)) bs = Some b'" "buf_inv b'" "buf_contents b' = bs"
    by auto
  with buffer_write_list_limit [OF b'(1)] b(4) show ?thesis by auto
qed

section \<open>Greeting and authentication\<close>

lemma conn_ok_auth_feed:
  "length (ap_username a) = 256 \<and> length (ap_password a) = 256 \<Longrightarrow>
     length (ap_username (auth_parser_feed a c)) = 256 \<and> length (ap_password (auth_parser_feed a c)) = 256"
  by (auto simp: auth_parser_feed_def Let_def split: auth_state.splits)

lemma choose_method_range:
  "choose_method cfg s \<in> {SOCKS5_METHOD_NO_AUTH, SOCKS5_METHOD_USERPASS, SOCKS5_METHOD_NONE}"
  by (simp add: choose_method_def)

lemma returns_pairE:
  assumes "returns m P"
  obtains a b where "m = Some (a, b)" and "P (a, b)"
  using assms by (auto simp: returns_def)

lemma hello_read_ok:
  assumes f: "focus k ls js p s ci oi st" and r: "ready HELLO_READ ci oi s" and os: "os_ok os"
  shows "returns (hello_read os (fd, Some (SocksConn p)) st) (step_ok k ls js p s HELLO_READ)"
proof (rule returns_pairE [OF receive_ok [OF f os, of HELLO_READ]], clarsimp)
  fix r' sel x
  assume rec: "receive os HELLO_READ p st = Some (r', sel, x)" and f': "focus k ls js p s ci oi (sel, x)"
    and r': "case r' of Inl n \<Rightarrow> n = HELLO_READ \<or> n = ERROR_STATE
      | Inr s' \<Rightarrow> \<exists>b. s' = s\<lparr>read_buffer := b\<rparr> \<and> buf_inv b \<and> b_limit b = buffer_size s"
  note ok = focus_conn_ok [OF f]
  show ?thesis
  proof (cases r')
    case (Inl n)
    have "hello_read os (fd, Some (SocksConn p)) st = Some (n, sel, x)"
      by (simp add: hello_read_def rec Inl)
    then show ?thesis using r' Inl stay_or_fail [OF f' _ _ _ r] by (simp add: state_defs)
  next
    case (Inr s1)
    with r' obtain b where b: "s1 = s\<lparr>read_buffer := b\<rparr>" "buf_inv b" "b_limit b = buffer_size s" by auto
    obtain hp b' fin err where hp: "hello_parser_consume (hello s) b False = Some (hp, b', fin, err)"
      "buf_inv b'" "b_limit b' = buffer_size s"
      using hello.entry_total [OF b(2), of "\<lambda>_. True" "hello s" False] b(3) by auto
    let ?s2 = "s\<lparr>hello := hp, read_buffer := b'\<rparr>"
    let ?s3 = "?s2\<lparr>nego_method := choose_method (config (sel, x)) ?s2\<rparr>"
    have f2: "focus k ls js p ?s2 ci oi (put_conn p ?s2 (sel, x))"
      using focus_put [OF f'] ok hp(2,3) by (simp add: same_fds_def conn_ok_def)
    have ok3: "conn_ok ?s3" using focus_conn_ok [OF f2] by (simp add: conn_ok_def)
    obtain wb where wb: "buffer_write_list (buffer_reset (write_buffer s)) [5, nego_method ?s3] = Some wb"
      "buf_inv wb" "b_limit wb = buffer_size s"
      using write_reply_ok [OF ok3, of "[5, nego_method ?s3]"] by auto
    let ?s4 = "?s3\<lparr>write_buffer := wb\<rparr>"
    have f4: "focus k ls js p ?s4 ci oi (put_conn p ?s4 (sel, x))"
      using focus_put [OF f', of ?s4] ok3 wb(2,3) by (simp add: same_fds_def conn_ok_def)
    obtain st5 where st5: "client_interest p OP_WRITE HELLO_WRITE (put_conn p ?s4 (sel, x)) = Some (HELLO_WRITE, st5)"
      and f5: "focus k ls js p ?s4 OP_WRITE oi st5"
      using client_interest_ok [OF f4, of OP_WRITE HELLO_WRITE] by (auto elim!: returns_pairE)
    have run: "hello_read os (fd, Some (SocksConn p)) st =
        (if \<not> fin then Some (HELLO_READ, put_conn p ?s2 (sel, x))
         else if err then Some (ERROR_STATE, put_conn p ?s2 (sel, x)) else Some (HELLO_WRITE, st5))"
      using hp(1) wb(1) st5 by (simp add: hello_read_def rec Inr b(1) Let_def del: buffer_write_list.simps)
    show ?thesis
      unfolding run using r choose_method_range [of "config (sel, x)" ?s2]
      by (auto intro!: step_okI [OF f2] step_okI [OF f5] simp: arriving_def ready_def state_defs)
  qed
qed

lemma hello_write_ok:
  assumes f: "focus k ls js p s ci oi st" and r: "ready HELLO_WRITE ci oi s" and os: "os_ok os"
  shows "returns (hello_write os (fd, Some (SocksConn p)) st) (step_ok k ls js p s HELLO_WRITE)"
proof (rule returns_pairE [OF transmit_ok [OF f os, of HELLO_WRITE]], clarsimp)
  fix r' sel x b
  let ?s1 = "s\<lparr>write_buffer := b\<rparr>"
  assume tr: "transmit os HELLO_WRITE p st = Some (r', sel, x)" and f': "focus k ls js p ?s1 ci oi (sel, x)"
    and r': "case r' of Inl n \<Rightarrow> n = HELLO_WRITE \<or> n = ERROR_STATE
      | Inr s' \<Rightarrow> s' = ?s1 \<and> buf_contents b = []"
  have r1: "ready HELLO_WRITE ci oi ?s1" using r by (simp add: ready_def state_defs)
  show ?thesis
  proof (cases r')
    case (Inl n)
    have "hello_write os (fd, Some (SocksConn p)) st = Some (n, sel, x)"
      by (simp add: hello_write_def tr Inl)
    then show ?thesis using r' Inl stay_or_fail [OF f' _ _ _ r1] by (simp add: state_defs)
  next
    case (Inr s1)
    let ?next = "if nego_method s = SOCKS5_METHOD_USERPASS then AUTH_READ else REQUEST_READ"
    obtain st2 where st2: "client_interest p OP_READ ?next (sel, x) = Some (?next, st2)"
      and f2: "focus k ls js p ?s1 OP_READ oi st2"
      using client_interest_ok [OF f', of OP_READ ?next] by (auto elim!: returns_pairE)
    have run: "hello_write os (fd, Some (SocksConn p)) st =
        (if nego_method s = SOCKS5_METHOD_NONE then Some (DONE, sel, x) else Some (?next, st2))"
      using r' Inr st2 by (simp add: hello_write_def tr)
    show ?thesis
      unfolding run using r
      by (auto intro!: step_okI [OF f'] step_okI [OF f2] simp: arriving_def ready_def state_defs authorised_def)
  qed
qed

lemma auth_read_ok:
  assumes f: "focus k ls js p s ci oi st" and r: "ready AUTH_READ ci oi s" and os: "os_ok os"
  shows "returns (auth_read os (fd, Some (SocksConn p)) st) (step_ok k ls js p s AUTH_READ)"
proof (rule returns_pairE [OF receive_ok [OF f os, of AUTH_READ]], clarsimp)
  fix r' sel x
  assume rec: "receive os AUTH_READ p st = Some (r', sel, x)" and f': "focus k ls js p s ci oi (sel, x)"
    and r': "case r' of Inl n \<Rightarrow> n = AUTH_READ \<or> n = ERROR_STATE
      | Inr s' \<Rightarrow> \<exists>b. s' = s\<lparr>read_buffer := b\<rparr> \<and> buf_inv b \<and> b_limit b = buffer_size s"
  note ok = focus_conn_ok [OF f]
  show ?thesis
  proof (cases r')
    case (Inl n)
    have "auth_read os (fd, Some (SocksConn p)) st = Some (n, sel, x)"
      by (simp add: auth_read_def rec Inl)
    then show ?thesis using r' Inl stay_or_fail [OF f' _ _ _ r] by (simp add: state_defs)
  next
    case (Inr s1)
    with r' obtain b where b: "s1 = s\<lparr>read_buffer := b\<rparr>" "buf_inv b" "b_limit b = buffer_size s" by auto
    have "length (ap_username (auth s)) = 256 \<and> length (ap_password (auth s)) = 256"
      using ok by (simp add: conn_ok_def)
    from auth.entry_total [OF b(2) this conn_ok_auth_feed, of False] obtain ap b' fin err where
      ap: "auth_parser_consume (auth s) b False = Some (ap, b', fin, err)" "buf_inv b'"
      "b_limit b' = buffer_size s" "length (ap_username ap) = 256" "length (ap_password ap) = 256"
      using b(3) by auto
    let ?s2 = "s\<lparr>auth := ap, read_buffer := b'\<rparr>"
    let ?s3 = "?s2\<lparr>auth_ok := users_check (sv_users (px_services x)) (Some (ap_username ap)) (Some (ap_password ap)),
      username := (strncpy (username s) (ap_username ap) 255)[255 := 0]\<rparr>"
    have f2: "focus k ls js p ?s2 ci oi (put_conn p ?s2 (sel, x))"
      using focus_put [OF f'] ok ap(2-5) by (simp add: same_fds_def conn_ok_def)
    have ok3: "conn_ok ?s3" using focus_conn_ok [OF f2] by (simp add: conn_ok_def length_strncpy)
    obtain wb where wb: "buffer_write_list (buffer_reset (write_buffer s)) [1, if auth_ok ?s3 then 0 else 1] = Some wb"
      "buf_inv wb" "b_limit wb = buffer_size s"
      using write_reply_ok [OF ok3, of "[1, if auth_ok ?s3 then 0 else 1]"] by auto
    let ?s4 = "?s3\<lparr>write_buffer := wb\<rparr>"
    have f4: "focus k ls js p ?s4 ci oi (put_conn p ?s4 (sel, x))"
      using focus_put [OF f', of ?s4] ok3 wb(2,3) by (simp add: same_fds_def conn_ok_def)
    obtain st5 where st5: "client_interest p OP_WRITE AUTH_WRITE (put_conn p ?s4 (sel, x)) = Some (AUTH_WRITE, st5)"
      and f5: "focus k ls js p ?s4 OP_WRITE oi st5"
      using client_interest_ok [OF f4, of OP_WRITE AUTH_WRITE] by (auto elim!: returns_pairE)
    have run: "auth_read os (fd, Some (SocksConn p)) st =
        (if \<not> fin then Some (AUTH_READ, put_conn p ?s2 (sel, x))
         else if err then Some (ERROR_STATE, put_conn p ?s2 (sel, x)) else Some (AUTH_WRITE, st5))"
      using ap(1) wb(1) st5 by (simp add: auth_read_def rec Inr b(1) Let_def del: buffer_write_list.simps)
    show ?thesis
      unfolding run using r
      by (auto intro!: step_okI [OF f2] step_okI [OF f5] simp: arriving_def ready_def state_defs)
  qed
qed

lemma auth_write_ok:
  assumes f: "focus k ls js p s ci oi st" and r: "ready AUTH_WRITE ci oi s" and os: "os_ok os"
  shows "returns (auth_write os (fd, Some (SocksConn p)) st) (step_ok k ls js p s AUTH_WRITE)"
proof (rule returns_pairE [OF transmit_ok [OF f os, of AUTH_WRITE]], clarsimp)
  fix r' sel x b
  let ?s1 = "s\<lparr>write_buffer := b\<rparr>"
  assume tr: "transmit os AUTH_WRITE p st = Some (r', sel, x)" and f': "focus k ls js p ?s1 ci oi (sel, x)"
    and r': "case r' of Inl n \<Rightarrow> n = AUTH_WRITE \<or> n = ERROR_STATE
      | Inr s' \<Rightarrow> s' = ?s1 \<and> buf_contents b = []"
  have r1: "ready AUTH_WRITE ci oi ?s1" using r by (simp add: ready_def state_defs)
  show ?thesis
  proof (cases r')
    case (Inl n)
    have "auth_write os (fd, Some (SocksConn p)) st = Some (n, sel, x)"
      by (simp add: auth_write_def tr Inl)
    then show ?thesis using r' Inl stay_or_fail [OF f' _ _ _ r1] by (simp add: state_defs)
  next
    case (Inr s1)
    obtain st2 where st2: "client_interest p OP_READ REQUEST_READ (sel, x) = Some (REQUEST_READ, st2)"
      and f2: "focus k ls js p ?s1 OP_READ oi st2"
      using client_interest_ok [OF f', of OP_READ REQUEST_READ] by (auto elim!: returns_pairE)
    have run: "auth_write os (fd, Some (SocksConn p)) st =
        (if \<not> auth_ok s then Some (DONE, sel, x) else Some (REQUEST_READ, st2))"
      using r' Inr st2 by (simp add: auth_write_def tr)
    show ?thesis
      unfolding run using r
      by (auto intro!: step_okI [OF f'] step_okI [OF f2] simp: arriving_def ready_def state_defs authorised_def)
  qed
qed

section \<open>Connecting\<close>

text \<open>A state in which the answer to the request is decided or under way\<close>

lemma errno_to_reply_success: "errno_to_reply e = SOCKS5_REP_SUCCESS \<longleftrightarrow> e = ENOERROR"
  by (cases e) (simp_all add: errno_to_reply_def SOCKS5_REP_SUCCESS_def SOCKS5_REP_CONNECTION_REFUSED_def
      SOCKS5_REP_NETWORK_UNREACHABLE_def SOCKS5_REP_HOST_UNREACHABLE_def SOCKS5_REP_TTL_EXPIRED_def
      SOCKS5_REP_GENERAL_FAILURE_def)

text \<open>What \<open>start_connection\<close> achieves: either a socket whose connection is in progress, or the
  reply is decided, and it is success exactly when there is a connected socket.\<close>

definition connect_ok ::
    "int list \<Rightarrow> listeners \<Rightarrow> int list \<Rightarrow> nat \<Rightarrow> socks5 \<Rightarrow> fd_interest \<Rightarrow> nat \<times> 'w state \<Rightarrow> bool" where
  "connect_ok k ls js p s ci r \<longleftrightarrow>
     (\<exists>s' oi. focus k ls js p s' ci oi (snd r) \<and> stm s' = stm s \<and> client_fd s' = client_fd s
        \<and> resolving s' = resolving s \<and> (authorised s' \<longleftrightarrow> authorised s)
        \<and> (fst r = REQUEST_CONNECTING \<and> oi = Some OP_WRITE
           \<or> fst r = REQUEST_WRITE \<and> (reply s' = SOCKS5_REP_SUCCESS \<longleftrightarrow> oi \<noteq> None)))"

lemma connect_okI:
  assumes "focus k ls js p s' ci oi st'" and "stm s' = stm s" "client_fd s' = client_fd s"
    "resolving s' = resolving s" "authorised s' \<longleftrightarrow> authorised s"
    and "next = REQUEST_CONNECTING \<and> oi = Some OP_WRITE
       \<or> next = REQUEST_WRITE \<and> (reply s' = SOCKS5_REP_SUCCESS \<longleftrightarrow> oi \<noteq> None)"
  shows "connect_ok k ls js p s ci (next, st')"
  unfolding connect_ok_def using assms by (intro exI [of _ s'] exI [of _ oi]) simp

lemma connect_ok_cong:
  assumes "connect_ok k ls js p s1 ci r" and "stm s1 = stm s" "client_fd s1 = client_fd s"
    "resolving s1 = resolving s" "authorised s1 \<longleftrightarrow> authorised s"
  shows "connect_ok k ls js p s ci r"
  using assms unfolding connect_ok_def by simp

text \<open>One attempt that got as far as a connected or connecting socket\<close>

lemma register_or_retry:
  fixes st :: "'w state"
  assumes f: "focus k ls js p s ci None st" and "0 \<le> fd"
    and s: "conn_ok s'" "client_fd s' = client_fd s" "origin_fd s' = fd" "references s' = references s + 1"
      "stm s' = stm s" "resolving s' = resolving s" "authorised s' \<longleftrightarrow> authorised s"
    and next_state: "next = REQUEST_CONNECTING \<and> i = OP_WRITE \<or> next = REQUEST_WRITE \<and> reply s' = SOCKS5_REP_SUCCESS"
    and retry: "\<And>st'. focus k ls js p s ci None st' \<Longrightarrow> returns (K st') (connect_ok k ls js p s ci)"
  shows "returns (Option.bind (register_fd fd SocksHandler i (Some (SocksConn p)) st)
      (\<lambda>(r, st). if r \<noteq> SELECTOR_SUCCESS then K st else Some (next, put_conn p s' st)))
    (connect_ok k ls js p s ci)"
proof (rule returns_bind [OF focus_register_origin [OF f assms(2) s(1-4), of i]], clarsimp split del: if_split)
  fix r sel and x :: "'w proxy"
  assume r: "if r = SELECTOR_SUCCESS then focus k ls js p s' ci (Some i) (put_conn p s' (sel, x))
    else focus k ls js p s ci None (sel, x)"
  show "returns (if r \<noteq> SELECTOR_SUCCESS then K (sel, x) else Some (next, put_conn p s' (sel, x)))
      (connect_ok k ls js p s ci)"
  proof (cases "r = SELECTOR_SUCCESS")
    case True
    then have "focus k ls js p s' ci (Some i) (put_conn p s' (sel, x))" using r by simp
    then have "connect_ok k ls js p s ci (next, put_conn p s' (sel, x))"
      by (rule connect_okI [OF _ s(5,2,6,7)]) (use next_state in auto)
    with True show ?thesis by simp
  next
    case False
    with r retry show ?thesis by simp
  qed
qed

lemma connect_loop_ok:
  assumes os: "os_ok os"
  shows "focus k ls js p s ci None st \<Longrightarrow> n = 0 \<or> addr_idx s + n \<le> MAX_ADDRS \<Longrightarrow>
    returns (connect_loop n os p st) (connect_ok k ls js p s ci)"
proof (induction n arbitrary: s st)
  case 0
  let ?s = "if reply s = SOCKS5_REP_SUCCESS then s\<lparr>reply := SOCKS5_REP_HOST_UNREACHABLE\<rparr> else s"
  have "focus k ls js p ?s ci None (put_conn p ?s st)"
    using focus_put [OF 0(1), of ?s] focus_conn_ok [OF 0(1)] by (simp add: same_fds_def conn_ok_def)
  then have "connect_ok k ls js p s ci (REQUEST_WRITE, put_conn p ?s st)"
    by (rule connect_okI) (simp_all add: authorised_def SOCKS5_REP_SUCCESS_def SOCKS5_REP_HOST_UNREACHABLE_def)
  then show ?case by (simp add: focus_get [OF 0(1)])
next
  case (Suc n)
  note f = Suc.prems(1)
  note ok = focus_conn_ok [OF f]
  let ?a = "addrs s ! addr_idx s"
  let ?next = "s\<lparr>addr_idx := addr_idx s + 1\<rparr>"
  have len: "addr_idx s < length (addrs s)" using Suc.prems(2) ok by (simp add: conn_ok_def)
  have retry: "returns (connect_loop n os p (put_conn p s' st')) (connect_ok k ls js p s ci)"
    if "focus k ls js p s ci None st'" and "s' = ?next \<or> (\<exists>e. s' = ?next\<lparr>reply := e\<rparr>)" for s' st'
  proof -
    have s': "same_fds s s'" "conn_ok s'" "addr_idx s' = addr_idx s + 1" "stm s' = stm s"
      "client_fd s' = client_fd s" "resolving s' = resolving s" "authorised s' \<longleftrightarrow> authorised s"
      using that(2) ok by (auto simp: same_fds_def conn_ok_def authorised_def)
    have "returns (connect_loop n os p (put_conn p s' st')) (connect_ok k ls js p s' ci)"
      using Suc.IH [OF focus_put [OF that(1) s'(1,2)]] Suc.prems(2) s'(3) by simp
    then show ?thesis by (rule returns_mono) (rule connect_ok_cong [OF _ s'(4-7)])
  qed
  have retry_reply: "returns (connect_loop n os p (put_conn p (?next\<lparr>reply := e\<rparr>) st')) (connect_ok k ls js p s ci)"
    if "focus k ls js p s ci None st'" for e st' using retry that by blast
  obtain r1 st1 where sys1: "sys (os_socket os (sa_family ?a)) st = (r1, st1)" by (rule prod.exhaust)
  note f1 = focus_sys [OF f sys1]
  show ?case
  proof (cases r1)
    case (Inl e)
    then show ?thesis
      using retry_reply [OF f1] sys1 len by (simp add: focus_get [OF f])
  next
    case (Inr fd)
    obtain nio st2 where sys2: "sys (selector_fd_set_nio os fd) st1 = (nio, st2)" by (rule prod.exhaust)
    note f2 = focus_sys [OF f1 sys2]
    obtain c st3 where sys3: "sys (os_connect os fd ?a) st2 = (c, st3)" by (rule prod.exhaust)
    note f3 = focus_sys [OF f2 sys3]
    obtain w w' where "os_socket os (sa_family ?a) w = (Inr fd, w')"
      using sys1 Inr by (auto simp: sys_def split: prod.splits)
    then have fd: "0 \<le> fd" by (rule os_okD(3) [OF os])
    have closed: "returns (connect_loop n os p (put_conn p ?next (sys_unit (os_close os fd) st')))
        (connect_ok k ls js p s ci)" if "focus k ls js p s ci None st'" for st'
      using retry [OF focus_sys_unit [OF that, of "os_close os fd"], of ?next] by simp
    note reg = register_or_retry [where K = "\<lambda>st. connect_loop n os p (put_conn p ?next (sys_unit (os_close os fd) st))",
        OF f3 fd _ _ _ _ _ _ _ _ closed]
    show ?thesis
    proof (cases "nio < 0")
      case True
      then show ?thesis using closed [OF f2] sys1 sys2 Inr len by (simp add: focus_get [OF f])
    next
      case False
      show ?thesis
      proof (cases c)
        case None
        then show ?thesis
          using reg [of "s\<lparr>origin_fd := fd, references := references s + 1, reply := SOCKS5_REP_SUCCESS\<rparr>"
              REQUEST_WRITE OP_NOOP] ok sys1 sys2 sys3 Inr len False
          by (simp add: focus_get [OF f] conn_ok_def authorised_def Let_def cong: if_cong)
      next
        case (Some e)
        then show ?thesis
          using reg [of "s\<lparr>origin_fd := fd, references := references s + 1\<rparr>" REQUEST_CONNECTING OP_WRITE]
            retry_reply [OF focus_sys_unit [OF f3, of "os_close os fd"]] ok
            sys1 sys2 sys3 Inr len False by (simp add: focus_get [OF f] conn_ok_def authorised_def Let_def cong: if_cong)
      qed
    qed
  qed
qed

lemma start_connection_ok:
  assumes os: "os_ok os" and f: "focus k ls js p s ci None st"
  shows "returns (start_connection os p st) (connect_ok k ls js p s ci)"
proof -
  have "naddrs s \<le> MAX_ADDRS" using focus_conn_ok [OF f] by (simp add: conn_ok_def)
  then have "naddrs s - addr_idx s = 0 \<or> addr_idx s + (naddrs s - addr_idx s) \<le> MAX_ADDRS" by linarith
  from connect_loop_ok [OF os f this] show ?thesis by (simp add: start_connection_def focus_get [OF f])
qed

section \<open>The request\<close>

text \<open>Outcomes that are final: a connection attempt, a name resolution, or a negative answer\<close>

lemma arriving_write:
  "\<not> resolving s \<Longrightarrow> authorised s \<Longrightarrow> (reply s = SOCKS5_REP_SUCCESS \<longleftrightarrow> oi \<noteq> None) \<Longrightarrow>
     arriving REQUEST_WRITE ci oi s"
  by (simp add: arriving_def state_defs)

lemma ready_connecting:
  assumes "\<not> resolving s" and "authorised s"
  shows "ready REQUEST_CONNECTING OP_NOOP (Some OP_WRITE) s"
    and "arriving REQUEST_CONNECTING OP_NOOP (Some OP_WRITE) s"
  using assms by (simp_all add: arriving_def ready_def state_defs)

lemma connect_ok_step:
  assumes "connect_ok k ls js p s ci r" and "ci = OP_NOOP" and "authorised s" "\<not> resolving s"
    and c: "c \<in> {REQUEST_READ, REQUEST_RESOLV, REQUEST_CONNECTING}"
    and "stm s = stm s0" "client_fd s = client_fd s0"
  shows "step_ok k ls js p s0 c r"
proof -
  obtain s' oi where f: "focus k ls js p s' ci oi (snd r)" "stm s' = stm s" "client_fd s' = client_fd s"
    "\<not> resolving s'" "authorised s'" and
    out: "fst r = REQUEST_CONNECTING \<and> oi = Some OP_WRITE
      \<or> fst r = REQUEST_WRITE \<and> (reply s' = SOCKS5_REP_SUCCESS \<longleftrightarrow> oi \<noteq> None)"
    using assms(1,3,4) unfolding connect_ok_def by auto
  have other: "c \<noteq> COPY" "c \<noteq> REQUEST_WRITE" "REQUEST_CONNECTING \<le> ERROR_STATE" "REQUEST_WRITE \<le> ERROR_STATE"
    using c by (auto simp: state_defs)
  have "step_ok k ls js p s0 c (fst r, snd r)"
  proof (rule step_okI [OF f(1)])
    show "if fst r = c then ready c ci oi s' else arriving (fst r) ci oi s'"
      using out other arriving_write [OF f(4,5)] ready_connecting [OF f(4,5)] assms(2) by auto
  qed (use out other f(2,3) assms(6,7) in auto)
  then show ?thesis by simp
qed

lemma negative_step:
  assumes "focus k ls js p s ci None st" and "authorised s" "\<not> resolving s" "reply s \<noteq> SOCKS5_REP_SUCCESS"
    and "c \<in> {REQUEST_READ, REQUEST_RESOLV}" and "stm s = stm s0" "client_fd s = client_fd s0"
  shows "step_ok k ls js p s0 c (REQUEST_WRITE, st)"
  using assms by (intro step_okI [OF assms(1)]) (auto simp: arriving_def state_defs)

lemmas reply_defs = SOCKS5_REP_SUCCESS_def SOCKS5_REP_GENERAL_FAILURE_def SOCKS5_REP_HOST_UNREACHABLE_def
  SOCKS5_REP_COMMAND_NOT_SUPPORTED_def SOCKS5_REP_ATYP_NOT_SUPPORTED_def

text \<open>\<open>process_request\<close>, called with the client's interest set to none\<close>

lemma process_numeric_ok:
  assumes os: "os_ok os" and f: "focus k ls js p s OP_NOOP None st" and "authorised s" "\<not> resolving s"
    and s': "s' = s\<lparr>dest_port := q, addrs := (addrs s)[0 := a], naddrs := 1, addr_idx := 0,
      dest_host := memcpy_at (dest_host s) 0 (os_inet_ntop os a @ [0])\<rparr>"
  shows "returns (start_connection os p (put_conn p s' st)) (step_ok k ls js p s REQUEST_READ)"
proof -
  have len: "length (memcpy_at (dest_host s) 0 (os_inet_ntop os a @ [0])) = 256"
    using focus_conn_ok [OF f] os_okD(12) [OF os, of a] by (simp add: conn_ok_def)
  have "focus k ls js p s' OP_NOOP None (put_conn p s' st)"
    using focus_put [OF f, of s'] focus_conn_ok [OF f] len
    by (simp add: s' same_fds_def conn_ok_def MAX_ADDRS_def)
  from start_connection_ok [OF os this] show ?thesis
    by (rule returns_mono, elim connect_ok_step) (use assms(3,4) in \<open>simp_all add: s' authorised_def\<close>)
qed

lemma process_domain_ok:
  fixes st :: "'w state"
  assumes os: "os_ok os" and f: "focus k ls js p s OP_NOOP None st" and auth: "authorised s" "\<not> resolving s"
    and rq: "rp_cmd (request s) = SOCKS5_CMD_CONNECT" "rp_atyp (request s) = SOCKS5_ATYP_DOMAIN"
  shows "returns (process_request os p key st) (step_ok k ls js p s REQUEST_READ)"
proof -
  let ?rq = "request s"
  note ok = focus_conn_ok [OF f]
  define s1 where "s1 = s\<lparr>dest_port := rp_port ?rq, dest_host := (strncpy (dest_host s) (rp_addr ?rq) 255)[255 := 0],
    dns := dns_blank\<lparr>dq_notify_fd := client_fd s, dq_conn := p,
      dq_host := snprintf_s (dq_host dns_blank) 256 ((strncpy (dest_host s) (rp_addr ?rq) 255)[255 := 0]),
      dq_service := memcpy_at (dq_service dns_blank) 0 (show_nat (unat (rp_port ?rq)) @ [0])\<rparr>\<rparr>"
  have s1: "conn_ok s1" "same_fds s s1" "authorised s1" "\<not> resolving s1" "stm s1 = stm s"
    "client_fd s1 = client_fd s" "dq_notify_fd (dns s1) = client_fd s"
    using ok auth by (simp_all add: s1_def same_fds_def conn_ok_def length_strncpy authorised_def)
  have f1: "focus k ls js p s1 OP_NOOP None (put_conn p s1 st)" using focus_put [OF f s1(2,1)] .
  obtain rc and st2 :: "'w state" where dns: "dns_resolve_async os (put_conn p s1 st) = (rc, st2)"
    by (rule prod.exhaust)
  have f2: "focus k ls js p s1 OP_NOOP None st2"
    using dns by (auto simp: dns_resolve_async_def Let_def split: prod.splits dest: focus_sys [OF f1])
  let ?s2 = "s1\<lparr>resolving := True\<rparr>" and ?s3 = "s1\<lparr>reply := SOCKS5_REP_GENERAL_FAILURE\<rparr>"
  have run: "process_request os p key st =
      (if rc \<noteq> 0 then Some (REQUEST_WRITE, put_conn p ?s3 st2) else Some (REQUEST_RESOLV, put_conn p ?s2 st2))"
    using rq dns by (simp add: process_request_def focus_get [OF f] SOCKS5_ATYP_IPV4_def SOCKS5_ATYP_IPV6_def
        SOCKS5_ATYP_DOMAIN_def Let_def s1_def)
  have "focus k ls js p ?s2 OP_NOOP None (put_conn p ?s2 st2)" "focus k ls js p ?s3 OP_NOOP None (put_conn p ?s3 st2)"
    using focus_put [OF f2] s1 by (simp_all add: same_fds_def conn_ok_def)
  note f3 = this
  have "step_ok k ls js p s REQUEST_READ (REQUEST_RESOLV, put_conn p ?s2 st2)"
    using s1 by (intro step_okI [OF f3(1)]) (simp_all add: arriving_def state_defs authorised_def)
  moreover have "step_ok k ls js p s REQUEST_READ (REQUEST_WRITE, put_conn p ?s3 st2)"
    using s1 by (intro negative_step [OF f3(2)]) (simp_all add: authorised_def reply_defs)
  ultimately show ?thesis unfolding run by simp
qed

lemma process_request_ok:
  assumes os: "os_ok os" and f: "focus k ls js p s OP_NOOP None st" and auth: "authorised s" "\<not> resolving s"
  shows "returns (process_request os p key st) (step_ok k ls js p s REQUEST_READ)"
proof -
  let ?rq = "request s"
  let ?t = "\<lambda>a. s\<lparr>dest_port := rp_port ?rq, addrs := (addrs s)[0 := a], naddrs := 1, addr_idx := 0,
    dest_host := memcpy_at (dest_host s) 0 (os_inet_ntop os a @ [0])\<rparr>"
  note get = focus_get [OF f]
  have numeric: "returns (process_request os p key st) (step_ok k ls js p s REQUEST_READ)"
    if "process_request os p key st = start_connection os p (put_conn p (?t a) st)" for a
    unfolding that by (rule process_numeric_ok [OF os f auth refl])
  have negative: "step_ok k ls js p s REQUEST_READ (REQUEST_WRITE, put_conn p s' st)"
    if "s' \<in> {s\<lparr>reply := e\<rparr>, s\<lparr>dest_port := rp_port ?rq, reply := e\<rparr>}" "e \<noteq> SOCKS5_REP_SUCCESS" for s' e
  proof -
    have s': "same_fds s s'" "conn_ok s'" "authorised s'" "\<not> resolving s'" "reply s' \<noteq> SOCKS5_REP_SUCCESS"
      "stm s' = stm s" "client_fd s' = client_fd s"
      using that focus_conn_ok [OF f] auth by (auto simp: same_fds_def conn_ok_def authorised_def)
    show ?thesis using negative_step [OF focus_put [OF f s'(1,2)] s'(3-5) _ s'(6,7)] by simp
  qed
  show ?thesis
  proof (cases "rp_cmd ?rq = SOCKS5_CMD_CONNECT")
    case False
    then have "process_request os p key st =
        Some (REQUEST_WRITE, put_conn p (s\<lparr>reply := SOCKS5_REP_COMMAND_NOT_SUPPORTED\<rparr>) st)"
      by (simp add: process_request_def get)
    with negative [OF insertI1] show ?thesis by (simp add: reply_defs)
  next
    case connect: True
    consider "rp_atyp ?rq = SOCKS5_ATYP_IPV4" | "rp_atyp ?rq = SOCKS5_ATYP_IPV6"
      | "rp_atyp ?rq = SOCKS5_ATYP_DOMAIN"
      | "rp_atyp ?rq \<notin> {SOCKS5_ATYP_IPV4, SOCKS5_ATYP_IPV6, SOCKS5_ATYP_DOMAIN}" by blast
    then show ?thesis
    proof cases
      case 1
      with connect show ?thesis
        by (intro numeric [of "SockIn (rp_port ?rq) (take 4 (rp_addr ?rq))"])
          (simp add: process_request_def get Let_def)
    next
      case 2
      with connect show ?thesis
        by (intro numeric [of "SockIn6 (rp_port ?rq) (take 16 (rp_addr ?rq))"])
          (simp add: process_request_def get Let_def SOCKS5_ATYP_IPV4_def SOCKS5_ATYP_IPV6_def)
    next
      case 3
      with connect show ?thesis by (intro process_domain_ok [OF os f auth])
    next
      case 4
      with connect have "process_request os p key st = Some (REQUEST_WRITE,
          put_conn p (s\<lparr>dest_port := rp_port ?rq, reply := SOCKS5_REP_ATYP_NOT_SUPPORTED\<rparr>) st)"
        by (simp add: process_request_def get Let_def)
      with negative [OF insertI2 [OF insertI1]] show ?thesis by (simp add: reply_defs)
    qed
  qed
qed

lemma length_request_feed: "length (rp_addr a) = 256 \<Longrightarrow> length (rp_addr (request_parser_feed a c)) = 256"
  by (cases "rp_state a") (simp_all add: request_parser_feed_def Let_def)

lemma request_read_ok:
  assumes f: "focus k ls js p s ci oi st" and r: "ready REQUEST_READ ci oi s" and os: "os_ok os"
  shows "returns (request_read os (fd, Some (SocksConn p)) st) (step_ok k ls js p s REQUEST_READ)"
proof (rule returns_pairE [OF receive_ok [OF f os, of REQUEST_READ]], clarsimp)
  fix r' sel x
  assume rec: "receive os REQUEST_READ p st = Some (r', sel, x)" and f': "focus k ls js p s ci oi (sel, x)"
    and r': "case r' of Inl n \<Rightarrow> n = REQUEST_READ \<or> n = ERROR_STATE
      | Inr s' \<Rightarrow> \<exists>b. s' = s\<lparr>read_buffer := b\<rparr> \<and> buf_inv b \<and> b_limit b = buffer_size s"
  note ok = focus_conn_ok [OF f]
  have rest: "oi = None" "authorised s" "\<not> resolving s" using r by (simp_all add: ready_def state_defs)
  show ?thesis
  proof (cases r')
    case (Inl n)
    have "request_read os (fd, Some (SocksConn p)) st = Some (n, sel, x)"
      by (simp add: request_read_def rec Inl)
    then show ?thesis using r' Inl stay_or_fail [OF f' _ _ _ r] by (simp add: state_defs)
  next
    case (Inr s1)
    with r' obtain b where b: "s1 = s\<lparr>read_buffer := b\<rparr>" "buf_inv b" "b_limit b = buffer_size s" by auto
    have "length (rp_addr (request s)) = 256" using ok by (simp add: conn_ok_def)
    from request.entry_total [OF b(2) this length_request_feed, of False] obtain rp b' fin err where
      rp: "request_parser_consume (request s) b False = Some (rp, b', fin, err)" "buf_inv b'"
      "b_limit b' = buffer_size s" "length (rp_addr rp) = 256" using b(3) by auto
    define s2 where "s2 = s\<lparr>request := rp, read_buffer := b'\<rparr>"
    have s2: "conn_ok s2" "same_fds s s2" "authorised s2" "\<not> resolving s2" "stm s2 = stm s" "client_fd s2 = client_fd s"
      using ok rp(2-4) rest by (simp_all add: s2_def same_fds_def conn_ok_def authorised_def)
    have f2: "focus k ls js p s2 ci None (put_conn p s2 (sel, x))" using focus_put [OF f' s2(2,1)] rest(1) by simp
    obtain st3 where st3: "set_interest (client_fd s) OP_NOOP (put_conn p s2 (sel, x)) = Some (SELECTOR_SUCCESS, st3)"
      and f3: "focus k ls js p s2 OP_NOOP None st3"
      using focus_interest_client [OF f2, of OP_NOOP] s2(6) by (auto elim!: returns_pairE)
    let ?s4 = "s2\<lparr>reply := SOCKS5_REP_GENERAL_FAILURE\<rparr>"
    have run: "request_read os (fd, Some (SocksConn p)) st =
        (if \<not> fin then Some (REQUEST_READ, put_conn p s2 (sel, x))
         else if err then Some (REQUEST_WRITE, put_conn p ?s4 st3)
         else process_request os p (fd, Some (SocksConn p)) st3)"
      using rp(1) st3 by (simp add: request_read_def rec Inr b(1) Let_def s2_def)
    have "step_ok k ls js p s REQUEST_READ (REQUEST_READ, put_conn p s2 (sel, x))"
      using stay_or_fail [OF f2 s2(5,6)] s2 r rest(1)
      by (simp add: same_fds_def ready_def state_defs)
    moreover have "step_ok k ls js p s REQUEST_READ (REQUEST_WRITE, put_conn p ?s4 st3)"
      using negative_step [OF focus_put [OF f3, of ?s4]] s2
      by (simp add: same_fds_def conn_ok_def authorised_def reply_defs)
    moreover have "returns (process_request os p (fd, Some (SocksConn p)) st3) (step_ok k ls js p s REQUEST_READ)"
      by (rule returns_mono [OF process_request_ok [OF os f3 s2(3,4)]])
        (use s2(5,6) in \<open>simp add: step_ok_def state_defs\<close>)
    ultimately show ?thesis unfolding run by simp
  qed
qed

section \<open>Resolution and connection\<close>

lemma copy_candidates_bounds:
  assumes "copy_candidates as n arr = (m, arr')" and "n \<le> MAX_ADDRS"
  shows "m \<le> MAX_ADDRS" and "length arr' = length arr"
  using assms by (induction as n arr rule: copy_candidates.induct) (auto split: if_splits)

lemma resolv_block_ok:
  assumes f: "focus k ls js p s ci oi st" and r: "ready REQUEST_RESOLV ci oi s" and os: "os_ok os"
  shows "returns (resolv_block os (fd, Some (SocksConn p)) st) (step_ok k ls js p s REQUEST_RESOLV)"
proof -
  note ok = focus_conn_ok [OF f]
  have rest: "ci = OP_NOOP" "oi = None" "authorised s" using r by (simp_all add: ready_def state_defs)
  have f0: "focus k ls js p s OP_NOOP None st" using f rest by simp
  let ?s = "s\<lparr>resolving := False\<rparr>"
  have negative: "step_ok k ls js p s REQUEST_RESOLV (REQUEST_WRITE, put_conn p s' st)"
    if "conn_ok s'" "same_fds s s'" "authorised s'" "\<not> resolving s'" "stm s' = stm s"
      "reply s' = SOCKS5_REP_HOST_UNREACHABLE" for s'
    using negative_step [OF focus_put [OF f0 that(2,1)] that(3,4)] that(2,5,6)
    by (simp add: same_fds_def reply_defs)
  show ?thesis
  proof (cases "dq_status (dns s) = 0 \<and> dq_result (dns s) \<noteq> None")
    case False
    then have "resolv_block os (fd, Some (SocksConn p)) st = Some (REQUEST_WRITE, put_conn p
        (?s\<lparr>reply := SOCKS5_REP_HOST_UNREACHABLE, dns := dns_request_clear (dns s)\<rparr>) st)"
      by (auto simp: resolv_block_def focus_get [OF f] Let_def split: option.splits bool.splits)
    then show ?thesis using negative ok rest by (simp add: same_fds_def conn_ok_def authorised_def)
  next
    case True
    then obtain result where res: "dq_status (dns s) = 0" "dq_result (dns s) = Some result" by auto
    obtain n as where cc: "copy_candidates result 0 (addrs s) = (n, as)" by (rule prod.exhaust)
    note bounds = copy_candidates_bounds [OF cc le0]
    define s1 where "s1 = ?s\<lparr>naddrs := n, addr_idx := 0, addrs := as, dns := dns_request_clear (dns s)\<rparr>"
    have s1: "conn_ok s1" "same_fds s s1" "authorised s1" "\<not> resolving s1" "stm s1 = stm s" "client_fd s1 = client_fd s"
      using ok bounds rest by (simp_all add: s1_def same_fds_def conn_ok_def authorised_def)
    have run: "resolv_block os (fd, Some (SocksConn p)) st =
        (if n = 0 then Some (REQUEST_WRITE, put_conn p (s1\<lparr>reply := SOCKS5_REP_HOST_UNREACHABLE\<rparr>) st)
         else start_connection os p (put_conn p s1 st))"
      using res cc by (simp add: resolv_block_def focus_get [OF f] Let_def s1_def)
    have "step_ok k ls js p s REQUEST_RESOLV
        (REQUEST_WRITE, put_conn p (s1\<lparr>reply := SOCKS5_REP_HOST_UNREACHABLE\<rparr>) st)"
      using negative s1 by (simp add: same_fds_def conn_ok_def authorised_def)
    moreover have "returns (start_connection os p (put_conn p s1 st)) (step_ok k ls js p s REQUEST_RESOLV)"
      by (rule returns_mono [OF start_connection_ok [OF os focus_put [OF f0 s1(2,1)]]], erule connect_ok_step)
        (use s1 in simp_all)
    ultimately show ?thesis unfolding run by simp
  qed
qed

lemma connecting_write_ok:
  assumes f: "focus k ls js p s ci oi st" and r: "ready REQUEST_CONNECTING ci oi s" and os: "os_ok os"
  shows "returns (connecting_write os (fd, Some (SocksConn p)) st) (step_ok k ls js p s REQUEST_CONNECTING)"
proof -
  note ok = focus_conn_ok [OF f]
  have rest: "ci = OP_NOOP" "oi = Some OP_WRITE" "authorised s" "\<not> resolving s"
    using r by (simp_all add: ready_def state_defs)
  obtain r' st1 where sys: "sys (os_so_error os (origin_fd s)) st = (r', st1)" by (rule prod.exhaust)
  note f1 = focus_sys [OF f sys]
  define e where "e = (case r' of Inl e \<Rightarrow> e | Inr e \<Rightarrow> e)"
  let ?s1 = "s\<lparr>reply := SOCKS5_REP_SUCCESS\<rparr>" and ?s2 = "s\<lparr>reply := errno_to_reply e\<rparr>"
  let ?s3 = "?s2\<lparr>references := 1, origin_fd := -1, addr_idx := addr_idx s + 1\<rparr>"
  have f2: "focus k ls js p ?s2 OP_NOOP (Some OP_WRITE) (put_conn p ?s2 st1)"
    using focus_put [OF f1, of ?s2] ok rest by (simp add: same_fds_def conn_ok_def)
  obtain r4 st4 where un: "unregister_fd os (origin_fd s) (put_conn p ?s2 st1) = Some (r4, st4)"
    "get_conn p st4 = Some (?s2\<lparr>references := 1\<rparr>)" and f3: "focus k ls js p ?s3 OP_NOOP None (put_conn p ?s3 st4)"
    using focus_unregister_origin [OF f2, of ?s3 os] ok
    by (auto simp: conn_ok_def elim!: returns_pairE)
  have run: "connecting_write os (fd, Some (SocksConn p)) st =
      (if e = ENOERROR then Some (REQUEST_WRITE, put_conn p ?s1 st1)
       else start_connection os p (put_conn p ?s3 st4))"
    using sys un by (simp add: connecting_write_def focus_get [OF f] e_def [symmetric] Let_def)
  have "focus k ls js p ?s1 OP_NOOP (Some OP_WRITE) (put_conn p ?s1 st1)"
    using focus_put [OF f1, of ?s1] ok rest by (simp add: same_fds_def conn_ok_def)
  then have "step_ok k ls js p s REQUEST_CONNECTING (REQUEST_WRITE, put_conn p ?s1 st1)"
    by (rule step_okI) (use rest in \<open>simp_all add: arriving_def state_defs authorised_def\<close>)
  moreover have "returns (start_connection os p (put_conn p ?s3 st4)) (step_ok k ls js p s REQUEST_CONNECTING)"
    by (rule returns_mono [OF start_connection_ok [OF os f3]], erule connect_ok_step)
      (use rest in \<open>simp_all add: authorised_def\<close>)
  ultimately show ?thesis unfolding run by simp
qed

section \<open>Arriving in a state\<close>

lemma resolv_arrival_ok:
  assumes f: "focus k ls js p s ci oi st" and "arriving REQUEST_RESOLV ci oi s"
  shows "returns (resolv_arrival n (fd, Some (SocksConn p)) st)
    (\<lambda>st'. focus k ls js p s OP_NOOP None st' \<and> ready REQUEST_RESOLV OP_NOOP None s)"
proof -
  have rest: "oi = None" "ready REQUEST_RESOLV OP_NOOP None s"
    using assms(2) by (simp_all add: arriving_def ready_def state_defs)
  show ?thesis
    using focus_interest_client [OF f, of OP_NOOP] rest
    by (auto simp: resolv_arrival_def focus_get [OF f] elim!: returns_mono)
qed

lemma length_reply_bytes:
  assumes "local = None \<or> (\<exists>w w'. os_getsockname os fd w = (local, w'))" and "os_ok os"
  shows "length (reply_bytes rep local) \<le> 22"
  using assms os_okD(8,9,10) [OF assms(2), of fd]
  by (cases local rule: option.exhaust; cases "the local") (auto simp: reply_bytes_def)

lemma build_reply_ok:
  assumes f: "focus k ls js p s ci oi st" and os: "os_ok os"
  shows "returns (build_reply os p rep st) (\<lambda>st'. \<exists>b. focus k ls js p (s\<lparr>write_buffer := b\<rparr>) ci oi st')"
proof -
  obtain l st1 where l: "(if rep = SOCKS5_REP_SUCCESS \<and> 0 \<le> origin_fd s
      then sys (os_getsockname os (origin_fd s)) st else (None, st)) = (l, st1)" by (rule prod.exhaust)
  have f1: "focus k ls js p s ci oi st1"
    using l f by (auto split: if_splits dest: focus_sys [OF f])
  have "l = None \<or> (\<exists>w w'. os_getsockname os (origin_fd s) w = (l, w'))"
    using l by (auto simp: sys_def split: if_splits prod.splits)
  from length_reply_bytes [OF this os, of rep] obtain b where b:
    "buffer_write_list (buffer_reset (write_buffer s)) (reply_bytes rep l) = Some b"
    "buf_inv b" "b_limit b = buffer_size s"
    using write_reply_ok [OF focus_conn_ok [OF f], of "reply_bytes rep l"] by auto
  have "build_reply os p rep st = Some (put_conn p (s\<lparr>write_buffer := b\<rparr>) st1)"
    using l b(1) by (simp add: build_reply_def focus_get [OF f])
  then show ?thesis using focus_write_buffer [OF f1 b(2,3)] by auto
qed

lemma request_write_arrival_ok:
  assumes f: "focus k ls js p s ci oi st" and "arriving REQUEST_WRITE ci oi s" and os: "os_ok os"
  shows "returns (request_write_arrival os n (fd, Some (SocksConn p)) st) (\<lambda>st'. \<exists>b oi'.
    focus k ls js p (s\<lparr>write_buffer := b\<rparr>) OP_WRITE oi' st' \<and> ready REQUEST_WRITE OP_WRITE oi' (s\<lparr>write_buffer := b\<rparr>))"
proof -
  have rest: "\<not> resolving s" "authorised s" "reply s = SOCKS5_REP_SUCCESS \<longleftrightarrow> oi \<noteq> None"
    using assms(2) by (simp_all add: arriving_def state_defs)
  obtain st1 b where b: "build_reply os p (reply s) st = Some st1"
    and f1: "focus k ls js p (s\<lparr>write_buffer := b\<rparr>) ci oi st1"
    using build_reply_ok [OF f os, of "reply s"] by (auto simp: returns_def)
  have origin: "0 \<le> origin_fd s \<longleftrightarrow> oi \<noteq> None"
    using f by (auto simp: focus_def conn_regs_def split: if_splits)
  have "\<exists>st2 oi'. (if 0 \<le> origin_fd s then map_option snd (set_interest (origin_fd s) OP_NOOP st1) else Some st1) = Some st2
      \<and> focus k ls js p (s\<lparr>write_buffer := b\<rparr>) ci oi' st2 \<and> oi' = map_option (\<lambda>_. OP_NOOP) oi"
  proof (cases oi)
    case None
    with f1 origin show ?thesis by simp
  next
    case (Some j)
    with focus_interest_origin [of k ls js p "s\<lparr>write_buffer := b\<rparr>" ci j st1 OP_NOOP] f1 origin show ?thesis
      by (auto elim!: returns_pairE)
  qed
  then obtain st2 oi' where st2: "(if 0 \<le> origin_fd s then map_option snd (set_interest (origin_fd s) OP_NOOP st1)
      else Some st1) = Some st2"
    and f2: "focus k ls js p (s\<lparr>write_buffer := b\<rparr>) ci oi' st2" and oi': "oi' = map_option (\<lambda>_. OP_NOOP) oi" by blast
  obtain st3 where st3: "set_interest (client_fd s) OP_WRITE st2 = Some (SELECTOR_SUCCESS, st3)"
    and f3: "focus k ls js p (s\<lparr>write_buffer := b\<rparr>) OP_WRITE oi' st3"
    using focus_interest_client [OF f2, of OP_WRITE] by (auto elim!: returns_pairE)
  have "request_write_arrival os n (fd, Some (SocksConn p)) st = Some st3"
    using b st2 st3 by (simp add: request_write_arrival_def focus_get [OF f])
  moreover have "ready REQUEST_WRITE OP_WRITE oi' (s\<lparr>write_buffer := b\<rparr>)"
    using rest oi' by (cases oi) (simp_all add: ready_def state_defs authorised_def)
  ultimately show ?thesis using f3 by auto
qed

section \<open>Relaying\<close>

lemma compute_interests_ok:
  assumes f: "focus k ls js p s ci (Some j) st"
  shows "returns (copy_compute_interests p st)
    (focus k ls js p s (relay_interest (client_eof s) (read_buffer s) (write_buffer s))
       (Some (relay_interest (origin_eof s) (write_buffer s) (read_buffer s))))"
proof -
  let ?c = "relay_interest (client_eof s) (read_buffer s) (write_buffer s)"
  let ?o = "relay_interest (origin_eof s) (write_buffer s) (read_buffer s)"
  obtain st1 where st1: "set_interest (client_fd s) ?c st = Some (SELECTOR_SUCCESS, st1)"
    and f1: "focus k ls js p s ?c (Some j) st1"
    using focus_interest_client [OF f, of ?c] by (auto elim!: returns_pairE)
  obtain st2 where st2: "set_interest (origin_fd s) ?o st1 = Some (SELECTOR_SUCCESS, st2)"
    and f2: "focus k ls js p s ?c (Some ?o) st2"
    using focus_interest_origin [OF f1, of ?o] by (auto elim!: returns_pairE)
  have "copy_compute_interests p st = Some st2"
    using st1 st2 unfolding relay_interest_def
    by (simp add: copy_compute_interests_def focus_get [OF f] Let_def split del: if_split)
  with f2 show ?thesis by simp
qed

lemma copy_arrival_ok:
  fixes st :: "'w state"
  assumes f: "focus k ls js p s ci oi st" and "arriving COPY ci oi s"
  shows "returns (copy_arrival n (fd, Some (SocksConn p)) st)
    (\<lambda>st'. \<exists>s' ci' oi'. focus k ls js p s' ci' oi' st' \<and> ready COPY ci' oi' s'
       \<and> same_fds s s' \<and> stm s' = stm s)"
proof -
  have rest: "\<not> resolving s" "authorised s" "reply s = SOCKS5_REP_SUCCESS" "oi \<noteq> None"
    using assms(2) by (simp_all add: arriving_def state_defs)
  then obtain j where j: "oi = Some j" by auto
  let ?s = "s\<lparr>client_eof := False, origin_eof := False, client_wr_shut := False, origin_wr_shut := False,
    sniff_pop3 := unat (dest_port s) = POP3_PORT \<and> cfg_pop3_sniff (config st)\<rparr>"
  have f1: "focus k ls js p ?s ci (Some j) (put_conn p ?s st)"
    using focus_put [OF f, of ?s] focus_conn_ok [OF f] by (simp add: same_fds_def conn_ok_def j)
  have run: "copy_arrival n (fd, Some (SocksConn p)) st = copy_compute_interests p (put_conn p ?s st)"
    by (simp add: copy_arrival_def focus_get [OF f])
  show ?thesis
    unfolding run
  proof (rule returns_mono [OF compute_interests_ok [OF f1]])
    fix st' :: "'w state"
    let ?c = "relay_interest (client_eof ?s) (read_buffer ?s) (write_buffer ?s)"
    let ?o = "relay_interest (origin_eof ?s) (write_buffer ?s) (read_buffer ?s)"
    assume "focus k ls js p ?s ?c (Some ?o) st'"
    moreover have "ready COPY ?c (Some ?o) ?s"
      using rest by (simp add: ready_def state_defs relaying_def authorised_def)
    ultimately show "\<exists>s' ci' oi'. focus k ls js p s' ci' oi' st' \<and> ready COPY ci' oi' s' \<and> same_fds s s' \<and> stm s' = stm s"
      by (intro exI [of _ ?s] exI [of _ ?c] exI [of _ "Some ?o"]) (simp add: same_fds_def)
  qed
qed

end
