(* ===== verification/Relay.thy ===== *)
theory Relay
  imports Socks5_Proofs
begin

text \<open>
  The relay of \<open>src/socks5.c\<close>: \<open>copy_pump\<close>, \<open>copy_update\<close>, \<open>copy_read\<close>, \<open>copy_write\<close> and the answer
  before it. The callbacks keep the invariant, and no byte is lost, invented or reordered between the
  two descriptors: what was received from one is what was sent to the other followed by what is
  buffered.
\<close>

section \<open>Pumping\<close>

lemma pump_loop_step:
  assumes "buf_inv b"
  shows "pump_loop os dst b w =
     (if buf_contents b = [] then Some (False, b, w)
      else case os_send os dst (buf_contents b) w of
          (Inl e, w) \<Rightarrow> Some (\<not> would_block e, b, w)
        | (Inr m, w) \<Rightarrow>
            if m > 0
            then (case buffer_read_adv b (int m) of None \<Rightarrow> None | Some b' \<Rightarrow> pump_loop os dst b' w)
            else Some (True, b, w))"
  using assms by (subst pump_loop.simps) (simp add: buf_read_ptr buf_peek buf_can_read)

text \<open>What was sent is a prefix of what was buffered, the rest is still there.\<close>

lemma pump_loop_ok:
  assumes os: "os_ok os"
  shows "buf_inv b \<Longrightarrow> \<exists>e b' w'. pump_loop os dst b w = Some (e, b', w') \<and> buf_inv b' \<and> b_limit b' = b_limit b
    \<and> (observes os rx tx \<longrightarrow> rx w' = rx w \<and>
         (\<exists>bs. tx w' = (tx w)(dst := tx w dst @ bs) \<and> bs @ buf_contents b' = buf_contents b))"
proof (induction "length (buf_contents b)" arbitrary: b w rule: less_induct)
  case less
  note inv = less.prems
  have stop: "tx w = (tx w)(dst := tx w dst @ [])" by simp
  obtain r w1 where send: "os_send os dst (buf_contents b) w = (r, w1)" by fastforce
  show ?case
  proof (cases "buf_contents b = []")
    case True
    then show ?thesis using inv stop by (auto simp: pump_loop_step [OF inv])
  next
    case nonempty: False
    show ?thesis
    proof (cases r)
      case (Inl e)
      then show ?thesis
        using send inv nonempty observesD(2) [of os rx tx dst "buf_contents b" w r w1] stop
        by (auto simp: pump_loop_step [OF inv])
    next
      case (Inr m)
      have le: "m \<le> length (buf_contents b)" using os_okD(2) [OF os] send Inr by auto
      have sent: "rx w1 = rx w \<and> tx w1 = (tx w)(dst := tx w dst @ take m (buf_contents b))"
        if "observes os rx tx" using observesD(2) [OF that send] Inr by simp
      show ?thesis
      proof (cases "m = 0")
        case True
        then show ?thesis using send Inr inv nonempty sent by (auto simp: pump_loop_step [OF inv])
      next
        case False
        obtain b' where b': "buffer_read_adv b (int m) = Some b'" "buf_inv b'"
          "buf_contents b' = drop m (buf_contents b)" "b_limit b' = b_limit b"
          using buf_read_adv [OF inv le] by blast
        have "length (buf_contents b') < length (buf_contents b)"
          using b'(3) False le by simp
        from less.hyps [OF this b'(2), of w1] obtain e b2 w2 where
          r: "pump_loop os dst b' w1 = Some (e, b2, w2)" "buf_inv b2" "b_limit b2 = b_limit b'"
          and rest: "observes os rx tx \<Longrightarrow> rx w2 = rx w1 \<and>
            (\<exists>bs. tx w2 = (tx w1)(dst := tx w1 dst @ bs) \<and> bs @ buf_contents b2 = buf_contents b')" by blast
        have "rx w2 = rx w \<and> (\<exists>bs. tx w2 = (tx w)(dst := tx w dst @ bs) \<and> bs @ buf_contents b2 = buf_contents b)"
          if o: "observes os rx tx"
        proof -
          obtain bs where bs: "tx w2 = (tx w1)(dst := tx w1 dst @ bs)" "bs @ buf_contents b2 = buf_contents b'"
            using rest [OF o] by auto
          have "(take m (buf_contents b) @ bs) @ buf_contents b2 = buf_contents b"
            using bs(2) b'(3) by simp
          with bs(1) sent [OF o] rest [OF o] show ?thesis
            by (intro conjI exI [of _ "take m (buf_contents b) @ bs"]) simp_all
        qed
        then show ?thesis
          using send Inr False nonempty b' r by (simp add: pump_loop_step [OF inv])
      qed
    qed
  qed
qed

definition world :: "'w state \<Rightarrow> 'w" where
  "world st = px_world (snd st)"

lemma copy_pump_ok:
  assumes f: "focus k ls js p s ci oi st" and os: "os_ok os" and b: "buf_inv b"
  shows "\<exists>e b' st'. copy_pump os dst b st = Some ((e, b'), st') \<and> focus k ls js p s ci oi st' \<and> buf_inv b'
    \<and> b_limit b' = b_limit b
    \<and> (observes os rx tx \<longrightarrow> rx (world st') = rx (world st) \<and> (\<exists>bs.
         tx (world st') = (tx (world st))(dst := tx (world st) dst @ bs) \<and> bs @ buf_contents b' = buf_contents b))"
proof -
  obtain e b' w' where r: "pump_loop os dst b (world st) = Some (e, b', w')" "buf_inv b'" "b_limit b' = b_limit b"
    "observes os rx tx \<longrightarrow> rx w' = rx (world st) \<and>
      (\<exists>bs. tx w' = (tx (world st))(dst := tx (world st) dst @ bs) \<and> bs @ buf_contents b' = buf_contents b)"
    using pump_loop_ok [OF os b, of dst "world st" rx tx] by blast
  have "focus k ls js p s ci oi (sys_unit (\<lambda>_. w') st)" by (rule focus_sys_unit [OF f])
  with r show ?thesis by (auto simp: copy_pump_def world_def sys_unit_def)
qed

section \<open>What moved\<close>

text \<open>Between two moments of a connection: the bytes received from each side in between are exactly
  those that were sent to the other side or are buffered for it.\<close>

definition moved :: "('w \<Rightarrow> int \<Rightarrow> byte list) \<Rightarrow> ('w \<Rightarrow> int \<Rightarrow> byte list) \<Rightarrow>
    socks5 \<Rightarrow> 'w \<Rightarrow> socks5 \<Rightarrow> 'w \<Rightarrow> bool" where
  "moved rx tx s w s' w' \<longleftrightarrow> (\<exists>up down.
     rx w' (client_fd s) = rx w (client_fd s) @ up \<and> rx w' (origin_fd s) = rx w (origin_fd s) @ down
     \<and> tx w' (origin_fd s) @ buf_contents (read_buffer s')
         = tx w (origin_fd s) @ buf_contents (read_buffer s) @ up
     \<and> tx w' (client_fd s) @ buf_contents (write_buffer s')
         = tx w (client_fd s) @ buf_contents (write_buffer s) @ down)"

definition copying :: "socks5 \<Rightarrow> socks5 \<Rightarrow> bool" where
  "copying s s' \<longleftrightarrow> stm s' = stm s \<and> same_fds s s' \<and> conn_ok s' \<and> \<not> resolving s' \<and> authorised s'
     \<and> reply s' = SOCKS5_REP_SUCCESS"

text \<open>The result of a callback of the relay, which was called with the connection \<open>s\<close> in the world
  \<open>w\<close>\<close>

definition relayed :: "'w os \<Rightarrow> ('w \<Rightarrow> int \<Rightarrow> byte list) \<Rightarrow> ('w \<Rightarrow> int \<Rightarrow> byte list) \<Rightarrow>
    int list \<Rightarrow> listeners \<Rightarrow> int list \<Rightarrow> nat \<Rightarrow> socks5 \<Rightarrow> 'w \<Rightarrow> nat \<times> 'w state \<Rightarrow> bool" where
  "relayed os rx tx k ls js p s w r \<longleftrightarrow> step_ok k ls js p s COPY r \<and> fst r \<in> {COPY, DONE} \<and>
     (observes os rx tx \<longrightarrow> (\<exists>s'. get_conn p (snd r) = Some s' \<and> moved rx tx s w s' (world (snd r))))"

lemma world_simps [simp]:
  "world (put_conn p s st) = world st" "world (sys_unit f st) = f (world st)"
  "world (upd_metrics g st) = world st" "world (add_log e st) = world st"
  by (simp_all add: world_def put_conn_def sys_unit_def upd_metrics_def upd_services_def add_log_def)

lemma world_set_interest: "set_interest fd i st = Some (r, st') \<Longrightarrow> world st' = world st"
  by (auto simp: set_interest_def world_def)

lemma world_compute_interests: "copy_compute_interests p st = Some st' \<Longrightarrow> world st' = world st"
  by (auto simp: copy_compute_interests_def option_simps Let_def dest!: world_set_interest)

text \<open>\<open>copy_update\<close> shuts down what is finished, and ends the connection or waits for what is left.\<close>

lemma copy_update_ok:
  fixes st :: "'w state"
  assumes f: "focus k ls js p s1 ci (Some j) st" and c: "copying s s1"
    and m: "observes os rx tx \<longrightarrow> moved rx tx s w s1 (world st)"
  shows "returns (copy_update os p st) (relayed os rx tx k ls js p s w)"
proof -
  define so where "so \<longleftrightarrow> client_eof s1 \<and> \<not> buffer_can_read (read_buffer s1) \<and> \<not> origin_wr_shut s1"
  define st2 where "st2 = (if so then sys_unit (os_shutdown_wr os (origin_fd s1)) st else st)"
  define s2 where "s2 = (if so then s1\<lparr>origin_wr_shut := True\<rparr> else s1)"
  define sc where "sc \<longleftrightarrow> origin_eof s2 \<and> \<not> buffer_can_read (write_buffer s2) \<and> \<not> client_wr_shut s2"
  define st3 where "st3 = (if sc then sys_unit (os_shutdown_wr os (client_fd s2)) st2 else st2)"
  define s3 where "s3 = (if sc then s2\<lparr>client_wr_shut := True\<rparr> else s2)"
  let ?done = "(client_eof s3 \<and> \<not> buffer_can_read (read_buffer s3))
    \<and> (origin_eof s3 \<and> \<not> buffer_can_read (write_buffer s3))"
  let ?st = "put_conn p s3 st3"
  have run: "copy_update os p st =
      (if ?done then Some (DONE, ?st) else map_option (Pair COPY) (copy_compute_interests p ?st))"
    by (simp add: copy_update_def focus_get [OF f] Let_def so_def [symmetric] st2_def [symmetric]
        s2_def [symmetric] sc_def [symmetric] st3_def [symmetric] s3_def [symmetric] map_conv_bind_option comp_def
        split del: if_split cong: if_cong)
  have s3: "copying s s3" "same_fds s1 s3"
    using c by (auto simp: s3_def s2_def copying_def same_fds_def conn_ok_def authorised_def)
  have "focus k ls js p s1 ci (Some j) st3"
    using f by (simp add: st3_def st2_def focus_sys_unit)
  then have f3: "focus k ls js p s3 ci (Some j) ?st"
    using s3 by (intro focus_put) (simp_all add: copying_def)
  have m3: "moved rx tx s w s3 (world st3)" if "observes os rx tx"
    using m that observesD(3,4) [OF that] by (simp add: moved_def s3_def s2_def st3_def st2_def)
  have arr: "\<not> resolving s3" "authorised s3" "reply s3 = SOCKS5_REP_SUCCESS" and
    fds: "stm s3 = stm s" "client_fd s3 = client_fd s" "origin_fd s3 = origin_fd s"
    using s3 by (simp_all add: copying_def same_fds_def)
  show ?thesis
  proof (cases ?done)
    case True
    have "relayed os rx tx k ls js p s w (DONE, ?st)"
      unfolding relayed_def
      using step_okI [OF f3 fds, of DONE COPY] arriving_end [OF arr(1)] focus_get [OF f3] m3
      by (simp add: state_defs)
    with run True show ?thesis by simp
  next
    case False
    from compute_interests_ok [OF f3] obtain st4 where st4: "copy_compute_interests p ?st = Some st4"
      and f4: "focus k ls js p s3 (relay_interest (client_eof s3) (read_buffer s3) (write_buffer s3))
         (Some (relay_interest (origin_eof s3) (write_buffer s3) (read_buffer s3))) st4"
      by (auto simp: returns_def)
    have "ready COPY (relay_interest (client_eof s3) (read_buffer s3) (write_buffer s3))
        (Some (relay_interest (origin_eof s3) (write_buffer s3) (read_buffer s3))) s3"
      using arr False by (simp add: ready_def relaying_def state_defs)
    then have "step_ok k ls js p s COPY (COPY, st4)"
      using step_okI [OF f4 fds, of COPY COPY] by (simp add: state_defs)
    moreover have "moved rx tx s w s3 (world st4)" if "observes os rx tx"
      using m3 [OF that] world_compute_interests [OF st4] by simp
    ultimately have "relayed os rx tx k ls js p s w (COPY, st4)"
      using focus_get [OF f4] by (simp add: relayed_def)
    with run False st4 show ?thesis by auto
  qed
qed

text \<open>Pumping what \<open>bs\<close> adds to the buffer of one direction\<close>

lemma pump_to_origin:
  fixes st :: "'w state"
  assumes f: "focus k ls js p s ci (Some j) st" and c: "copying s s" and os: "os_ok os"
    and b: "buf_inv b" "b_limit b = buffer_size s" "buf_contents b = buf_contents (read_buffer s) @ bs"
    and w: "observes os rx tx \<longrightarrow>
      rx (world st) = (rx w)(client_fd s := rx w (client_fd s) @ bs) \<and> tx (world st) = tx w"
  shows "returns (do {
      ((err, b), st) \<leftarrow> copy_pump os (origin_fd s) b st;
      let st = put_conn p (s\<lparr>read_buffer := b, pop3 := sn\<rparr>) st;
      if err then Some (DONE, st) else copy_update os p st
    }) (relayed os rx tx k ls js p s w)"
proof -
  obtain e b' st' where pump: "copy_pump os (origin_fd s) b st = Some ((e, b'), st')"
    and f': "focus k ls js p s ci (Some j) st'" and b': "buf_inv b'" "b_limit b' = b_limit b"
    and w': "observes os rx tx \<longrightarrow> rx (world st') = rx (world st) \<and> (\<exists>bs.
      tx (world st') = (tx (world st))(origin_fd s := tx (world st) (origin_fd s) @ bs)
      \<and> bs @ buf_contents b' = buf_contents b)"
    using copy_pump_ok [OF f os b(1), of "origin_fd s" rx tx] by blast
  let ?s = "s\<lparr>read_buffer := b', pop3 := sn\<rparr>"
  have c': "copying s ?s" "same_fds s ?s"
    using c b' b(2) by (simp_all add: copying_def same_fds_def conn_ok_def authorised_def)
  have f2: "focus k ls js p ?s ci (Some j) (put_conn p ?s st')"
    by (rule focus_put [OF f' c'(2)]) (use c'(1) in \<open>simp add: copying_def\<close>)
  have "client_fd s \<noteq> origin_fd s" using f by (auto simp: focus_def conn_regs_def)
  then have m: "observes os rx tx \<longrightarrow> moved rx tx s w ?s (world (put_conn p ?s st'))"
    using w w' b(3) unfolding moved_def by auto
  have fds: "stm ?s = stm s" "client_fd ?s = client_fd s" "origin_fd ?s = origin_fd s" and idle: "\<not> resolving ?s"
    using c by (simp_all add: copying_def)
  have "relayed os rx tx k ls js p s w (DONE, put_conn p ?s st')"
    unfolding relayed_def using step_okI [OF f2 fds, of DONE COPY] arriving_end [OF idle] focus_get [OF f2] m
    by (simp add: state_defs)
  with pump copy_update_ok [OF f2 c'(1) m] show ?thesis by (simp add: Let_def)
qed

lemma pump_to_client:
  fixes st :: "'w state"
  assumes f: "focus k ls js p s ci (Some j) st" and c: "copying s s" and os: "os_ok os"
    and b: "buf_inv b" "b_limit b = buffer_size s" "buf_contents b = buf_contents (write_buffer s) @ bs"
    and w: "observes os rx tx \<longrightarrow>
      rx (world st) = (rx w)(origin_fd s := rx w (origin_fd s) @ bs) \<and> tx (world st) = tx w"
  shows "returns (do {
      ((err, b), st) \<leftarrow> copy_pump os (client_fd s) b st;
      let st = put_conn p (s\<lparr>write_buffer := b\<rparr>) st;
      if err then Some (DONE, st) else copy_update os p st
    }) (relayed os rx tx k ls js p s w)"
proof -
  obtain e b' st' where pump: "copy_pump os (client_fd s) b st = Some ((e, b'), st')"
    and f': "focus k ls js p s ci (Some j) st'" and b': "buf_inv b'" "b_limit b' = b_limit b"
    and w': "observes os rx tx \<longrightarrow> rx (world st') = rx (world st) \<and> (\<exists>bs.
      tx (world st') = (tx (world st))(client_fd s := tx (world st) (client_fd s) @ bs)
      \<and> bs @ buf_contents b' = buf_contents b)"
    using copy_pump_ok [OF f os b(1), of "client_fd s" rx tx] by blast
  let ?s = "s\<lparr>write_buffer := b'\<rparr>"
  have c': "copying s ?s" "same_fds s ?s"
    using c b' b(2) by (simp_all add: copying_def same_fds_def conn_ok_def authorised_def)
  have f2: "focus k ls js p ?s ci (Some j) (put_conn p ?s st')"
    by (rule focus_put [OF f' c'(2)]) (use c'(1) in \<open>simp add: copying_def\<close>)
  have "client_fd s \<noteq> origin_fd s" using f by (auto simp: focus_def conn_regs_def)
  then have m: "observes os rx tx \<longrightarrow> moved rx tx s w ?s (world (put_conn p ?s st'))"
    using w w' b(3) unfolding moved_def by auto
  have fds: "stm ?s = stm s" "client_fd ?s = client_fd s" "origin_fd ?s = origin_fd s" and idle: "\<not> resolving ?s"
    using c by (simp_all add: copying_def)
  have "relayed os rx tx k ls js p s w (DONE, put_conn p ?s st')"
    unfolding relayed_def using step_okI [OF f2 fds, of DONE COPY] arriving_end [OF idle] focus_get [OF f2] m
    by (simp add: state_defs)
  with pump copy_update_ok [OF f2 c'(1) m] show ?thesis by (simp add: Let_def)
qed

section \<open>The callbacks\<close>

lemma log_credentials_ok:
  assumes f: "focus k ls js p s ci oi st" and os: "os_ok os" and mem: "length mem = SOCKADDR_TO_HUMAN_MIN"
  shows "\<exists>st'. log_credentials os mem s creds st = Some st' \<and> focus k ls js p s ci oi st' \<and> world st' = world st"
proof -
  obtain o1 where o1: "origin_string os mem s = Some o1"
    using sockaddr_to_human_fits [OF os mem, of "client_addr s"] by (auto simp: origin_string_def)
  let ?add = "\<lambda>(u, w). add_log (LogPop3 (log_user s) o1 (dest_string s) u w)"
  have "focus k ls js p s ci oi (fold ?add creds st) \<and> world (fold ?add creds st) = world st"
    using f by (induction creds arbitrary: st) (auto simp: focus_log split: prod.split)
  with f o1 show ?thesis
    by (cases "creds = []") (auto simp: log_credentials_def simp del: split_paired_Ex)
qed

lemma ready_copying:
  assumes "focus k ls js p s ci oi st" and "ready COPY ci oi s"
  shows "copying s s" and "oi = Some (relay_interest (origin_eof s) (write_buffer s) (read_buffer s))"
  using assms focus_conn_ok [OF assms(1)]
  by (simp_all add: copying_def same_fds_def ready_def state_defs relaying_def)

lemma moved_refl: "moved rx tx s w s w"
  by (auto simp: moved_def)

text \<open>What a \<open>recv\<close> does to the connection and to what has been received\<close>

lemma receive_some:
  assumes f: "focus k ls js p s ci oi st" and os: "os_ok os" and b: "buf_inv b"
    and sys: "sys (os_recv os fd (buf_room b)) st = (r, st')"
  shows "focus k ls js p s ci oi st'"
    and "observes os rx tx \<Longrightarrow> tx (world st') = tx (world st) \<and> rx (world st') =
      (case r of Inl e \<Rightarrow> rx (world st) | Inr bs \<Rightarrow> (rx (world st))(fd := rx (world st) fd @ bs))"
    and "r = Inr bs \<Longrightarrow> length bs \<le> buf_room b"
proof -
  have call: "os_recv os fd (buf_room b) (world st) = (r, world st')"
    using sys by (auto simp: sys_def world_def split: prod.splits)
  show "focus k ls js p s ci oi st'" by (rule focus_sys [OF f sys])
  show "tx (world st') = tx (world st) \<and> rx (world st') =
      (case r of Inl e \<Rightarrow> rx (world st) | Inr bs \<Rightarrow> (rx (world st))(fd := rx (world st) fd @ bs))"
    if "observes os rx tx" using observesD(1) [OF that call] .
  show "r = Inr bs \<Longrightarrow> length bs \<le> buf_room b" using os_okD(1) [OF os] call by blast
qed

lemma relay_stopped:
  fixes st :: "'w state"
  assumes f: "focus k ls js p s ci (Some j) st" and f': "focus k ls js p s ci (Some j) st'" and "copying s s" and c: "copying s s'"
    and "read_buffer s' = read_buffer s" "write_buffer s' = write_buffer s"
    and "observes os rx tx \<Longrightarrow> rx (world st') = rx (world st) \<and> tx (world st') = tx (world st)"
  shows "returns (copy_update os p (put_conn p s' st')) (relayed os rx tx k ls js p s (world st))"
proof (rule copy_update_ok [OF _ c])
  show "focus k ls js p s' ci (Some j) (put_conn p s' st')"
    using c by (intro focus_put [OF f']) (simp_all add: copying_def)
  show "observes os rx tx \<longrightarrow> moved rx tx s (world st) s' (world (put_conn p s' st'))"
    using assms(5-) by (auto simp: moved_def)
qed

lemma copy_read_client_ok:
  fixes st :: "'w state"
  assumes f: "focus k ls js p s ci (Some j) st" and c: "copying s s" and os: "os_ok os" and mem: "length mem = SOCKADDR_TO_HUMAN_MIN"
    and fd: "fd = client_fd s"
  shows "returns (copy_read os mem (fd, Some (SocksConn p)) st) (relayed os rx tx k ls js p s (world st))"
proof -
  note bufs = conn_ok_buffers [OF focus_conn_ok [OF f]] and eof = relay_stopped [OF f _ c]
  have copying_eof: "copying s (s\<lparr>client_eof := True\<rparr>)"
    using c by (simp add: copying_def same_fds_def conn_ok_def authorised_def)
  let ?b = "read_buffer s"
  obtain r st' where sys: "sys (os_recv os (client_fd s) (buf_room ?b)) st = (r, st')" by (rule prod.exhaust)
  note got = receive_some [OF f os bufs(1) sys]
  have run: "copy_read os mem (fd, Some (SocksConn p)) st =
    (if buf_room ?b = 0 then copy_update os p st
     else case r of
       Inl e \<Rightarrow> copy_update os p (put_conn p (if would_block e then s else s\<lparr>client_eof := True\<rparr>) st')
     | Inr bs \<Rightarrow>
         if bs = [] then copy_update os p (put_conn p (s\<lparr>client_eof := True\<rparr>) st')
         else do {
           b \<leftarrow> buffer_write_adv (buffer_poke ?b (b_write ?b) bs) (int (length bs));
           let st = upd_metrics (metrics_add_sent (of_nat (length bs))) st';
           let (sn, creds) = (if sniff_pop3 s then pop3_sniffer_feed (pop3 s) bs else (pop3 s, []));
           st \<leftarrow> log_credentials os mem s creds st;
           ((err, b), st) \<leftarrow> copy_pump os (origin_fd s) b st;
           let st = put_conn p (s\<lparr>read_buffer := b, pop3 := sn\<rparr>) st;
           if err then Some (DONE, st) else copy_update os p st
         })"
    using sys fd by (simp add: copy_read_def focus_get [OF f] buf_write_ptr [OF bufs(1)])
  consider (full) "buf_room ?b = 0" | (err) e where "r = Inl e" "buf_room ?b \<noteq> 0"
    | (stop) "r = Inr []" "buf_room ?b \<noteq> 0"
    | (data) bs where "r = Inr bs" "bs \<noteq> []" "buf_room ?b \<noteq> 0" by (cases r) auto
  then show ?thesis
  proof cases
    case full
    then show ?thesis using copy_update_ok [OF f c] moved_refl run by fastforce
  next
    case err
    have "returns (copy_update os p (put_conn p (if would_block e then s else s\<lparr>client_eof := True\<rparr>) st'))
        (relayed os rx tx k ls js p s (world st))"
      by (rule eof [OF got(1)]) (use c copying_eof got(2) [of rx tx] err in simp_all)
    with run err show ?thesis by simp
  next
    case stop
    have "returns (copy_update os p (put_conn p (s\<lparr>client_eof := True\<rparr>) st'))
        (relayed os rx tx k ls js p s (world st))"
      by (rule eof [OF got(1)]) (use copying_eof got(2) [of rx tx] stop in simp_all)
    with run stop show ?thesis by simp
  next
    case (data bs)
    obtain b where b: "buffer_write_adv (buffer_poke ?b (b_write ?b) bs) (int (length bs)) = Some b"
      "buf_inv b" "buf_contents b = buf_contents ?b @ bs" "b_limit b = buffer_size s"
      using buf_poke_adv [OF bufs(1) got(3) [OF data(1)] data(2)] bufs(3) by auto
    define sn where "sn = fst (if sniff_pop3 s then pop3_sniffer_feed (pop3 s) bs else (pop3 s, []))"
    define creds where "creds = snd (if sniff_pop3 s then pop3_sniffer_feed (pop3 s) bs else (pop3 s, []))"
    have f2: "focus k ls js p s ci (Some j) (upd_metrics (metrics_add_sent (of_nat (length bs))) st')"
      by (rule focus_metrics [OF got(1)]) (simp add: metrics_add_sent_def)
    from log_credentials_ok [OF f2 os mem, of creds] obtain st3 where
      l: "log_credentials os mem s creds (upd_metrics (metrics_add_sent (of_nat (length bs))) st') = Some st3"
      and f3: "focus k ls js p s ci (Some j) st3" and w3: "world st3 = world st'" by auto
    have w: "observes os rx tx \<longrightarrow> rx (world st3) = (rx (world st))(client_fd s := rx (world st) (client_fd s) @ bs)
        \<and> tx (world st3) = tx (world st)"
      using got(2) [of rx tx] data(1) w3 by simp
    show ?thesis
      unfolding run using data b(1) l pump_to_origin [OF f3 c os b(2,4,3) w, of sn]
      by (simp add: sn_def creds_def case_prod_beta)
  qed
qed

lemma copy_read_origin_ok:
  fixes st :: "'w state"
  assumes f: "focus k ls js p s ci (Some j) st" and c: "copying s s" and os: "os_ok os"
    and fd: "fd \<noteq> client_fd s"
  shows "returns (copy_read os mem (fd, Some (SocksConn p)) st) (relayed os rx tx k ls js p s (world st))"
proof -
  note bufs = conn_ok_buffers [OF focus_conn_ok [OF f]] and eof = relay_stopped [OF f _ c]
  have copying_eof: "copying s (s\<lparr>origin_eof := True\<rparr>)"
    using c by (simp add: copying_def same_fds_def conn_ok_def authorised_def)
  let ?b = "write_buffer s"
  obtain r st' where sys: "sys (os_recv os (origin_fd s) (buf_room ?b)) st = (r, st')" by (rule prod.exhaust)
  note got = receive_some [OF f os bufs(2) sys]
  have run: "copy_read os mem (fd, Some (SocksConn p)) st =
    (if buf_room ?b = 0 then copy_update os p st
     else case r of
       Inl e \<Rightarrow> copy_update os p (put_conn p (if would_block e then s else s\<lparr>origin_eof := True\<rparr>) st')
     | Inr bs \<Rightarrow>
         if bs = [] then copy_update os p (put_conn p (s\<lparr>origin_eof := True\<rparr>) st')
         else do {
           b \<leftarrow> buffer_write_adv (buffer_poke ?b (b_write ?b) bs) (int (length bs));
           let st = upd_metrics (metrics_add_received (of_nat (length bs))) st';
           ((err, b), st) \<leftarrow> copy_pump os (client_fd s) b st;
           let st = put_conn p (s\<lparr>write_buffer := b\<rparr>) st;
           if err then Some (DONE, st) else copy_update os p st
         })"
    using sys fd by (simp add: copy_read_def focus_get [OF f] buf_write_ptr [OF bufs(2)])
  consider (full) "buf_room ?b = 0" | (err) e where "r = Inl e" "buf_room ?b \<noteq> 0"
    | (stop) "r = Inr []" "buf_room ?b \<noteq> 0"
    | (data) bs where "r = Inr bs" "bs \<noteq> []" "buf_room ?b \<noteq> 0" by (cases r) auto
  then show ?thesis
  proof cases
    case full
    then show ?thesis using copy_update_ok [OF f c] moved_refl run by fastforce
  next
    case err
    have "returns (copy_update os p (put_conn p (if would_block e then s else s\<lparr>origin_eof := True\<rparr>) st'))
        (relayed os rx tx k ls js p s (world st))"
      by (rule eof [OF got(1)]) (use c copying_eof got(2) [of rx tx] err in simp_all)
    with run err show ?thesis by simp
  next
    case stop
    have "returns (copy_update os p (put_conn p (s\<lparr>origin_eof := True\<rparr>) st'))
        (relayed os rx tx k ls js p s (world st))"
      by (rule eof [OF got(1)]) (use copying_eof got(2) [of rx tx] stop in simp_all)
    with run stop show ?thesis by simp
  next
    case (data bs)
    obtain b where b: "buffer_write_adv (buffer_poke ?b (b_write ?b) bs) (int (length bs)) = Some b"
      "buf_inv b" "buf_contents b = buf_contents ?b @ bs" "b_limit b = buffer_size s"
      using buf_poke_adv [OF bufs(2) got(3) [OF data(1)] data(2)] bufs(4) by auto
    have f2: "focus k ls js p s ci (Some j) (upd_metrics (metrics_add_received (of_nat (length bs))) st')"
      by (rule focus_metrics [OF got(1)]) (simp add: metrics_add_received_def)
    have w: "observes os rx tx \<longrightarrow> rx (world (upd_metrics (metrics_add_received (of_nat (length bs))) st')) =
          (rx (world st))(origin_fd s := rx (world st) (origin_fd s) @ bs)
        \<and> tx (world (upd_metrics (metrics_add_received (of_nat (length bs))) st')) = tx (world st)"
      using got(2) [of rx tx] data(1) by simp
    show ?thesis
      unfolding run using data b(1) pump_to_client [OF f2 c os b(2,4,3) w] by simp
  qed
qed

lemma copy_read_ok:
  fixes st :: "'w state"
  assumes f: "focus k ls js p s ci oi st" and r: "ready COPY ci oi s" and os: "os_ok os"
    and mem: "length mem = SOCKADDR_TO_HUMAN_MIN"
  shows "returns (copy_read os mem (fd, Some (SocksConn p)) st) (relayed os rx tx k ls js p s (world st))"
proof -
  obtain j where oi: "oi = Some j" using ready_copying(2) [OF f r] by simp
  note f = f [unfolded oi]
  have c: "copying s s" using ready_copying(1) [OF f] r oi by simp
  show ?thesis
    using copy_read_client_ok [OF f c os mem] copy_read_origin_ok [OF f c os] by blast
qed

lemma copy_write_ok:
  fixes st :: "'w state"
  assumes f: "focus k ls js p s ci oi st" and r: "ready COPY ci oi s" and os: "os_ok os"
  shows "returns (copy_write os (fd, Some (SocksConn p)) st) (relayed os rx tx k ls js p s (world st))"
proof -
  obtain j where oi: "oi = Some j" using ready_copying(2) [OF f r] by simp
  note f = f [unfolded oi]
  have c: "copying s s" using ready_copying(1) [OF f] r oi by simp
  note bufs = conn_ok_buffers [OF focus_conn_ok [OF f]]
  have same: "s\<lparr>read_buffer := b, pop3 := pop3 s\<rparr> = s\<lparr>read_buffer := b\<rparr>" for b by (cases s) simp
  show ?thesis
    using pump_to_client [OF f c os bufs(2,4), of "[]" rx tx "world st"]
      pump_to_origin [OF f c os bufs(1,3), of "[]" rx tx "world st" "pop3 s"]
    by (cases "fd = client_fd s") (simp_all add: copy_write_def focus_get [OF f] same)
qed

section \<open>After the answer\<close>

lemma request_write_ok:
  assumes f: "focus k ls js p s ci oi st" and r: "ready REQUEST_WRITE ci oi s" and os: "os_ok os"
    and mem: "length mem = SOCKADDR_TO_HUMAN_MIN"
  shows "returns (request_write os mem (fd, Some (SocksConn p)) st) (step_ok k ls js p s REQUEST_WRITE)"
proof (rule returns_pairE [OF transmit_ok [OF f os, of REQUEST_WRITE]], clarsimp)
  fix r' sel x b
  let ?s1 = "s\<lparr>write_buffer := b\<rparr>"
  assume tr: "transmit os REQUEST_WRITE p st = Some (r', sel, x)" and f': "focus k ls js p ?s1 ci oi (sel, x)"
    and r': "case r' of Inl n \<Rightarrow> n = REQUEST_WRITE \<or> n = ERROR_STATE
      | Inr s' \<Rightarrow> s' = ?s1 \<and> buf_contents b = []"
  have r1: "ready REQUEST_WRITE ci oi ?s1" using r by (simp add: ready_def state_defs authorised_def)
  show ?thesis
  proof (cases r')
    case (Inl n)
    have "request_write os mem (fd, Some (SocksConn p)) st = Some (n, sel, x)"
      by (simp add: request_write_def tr Inl)
    then show ?thesis using r' Inl stay_or_fail [OF f' _ _ _ r1] by (simp add: state_defs)
  next
    case (Inr s1)
    obtain o1 where o1: "origin_string os mem ?s1 = Some o1"
      using sockaddr_to_human_fits [OF os mem, of "client_addr ?s1"] by (auto simp: origin_string_def)
    let ?st = "add_log (LogAccess (log_user ?s1) (ascii ''CONNECT'') o1 (dest_string ?s1) (reply s)) (sel, x)"
    have f2: "focus k ls js p ?s1 ci oi ?st" by (rule focus_log [OF f'])
    have f3: "focus k ls js p ?s1 ci oi (upd_metrics metrics_connection_failed ?st)"
      by (rule focus_metrics [OF f2]) (simp add: metrics_connection_failed_def)
    have run: "request_write os mem (fd, Some (SocksConn p)) st =
        (if reply s \<noteq> SOCKS5_REP_SUCCESS then Some (DONE, upd_metrics metrics_connection_failed ?st)
         else Some (COPY, ?st))"
      using r' Inr o1 by (simp add: request_write_def tr)
    have "\<not> resolving s" "authorised s" "reply s = SOCKS5_REP_SUCCESS \<longleftrightarrow> oi \<noteq> None"
      using r by (simp_all add: ready_def state_defs)
    then show ?thesis
      unfolding run
      by (auto intro!: step_okI [OF f2] step_okI [OF f3] simp: arriving_def state_defs authorised_def)
  qed
qed

section \<open>A whole relay\<close>

text \<open>Any sequence of readiness events of the two descriptors, until the relay ends\<close>

datatype relay_event = CanRead int | CanWrite int

fun relay_step :: "'w os \<Rightarrow> byte list \<Rightarrow> nat \<Rightarrow> relay_event \<Rightarrow> 'w state \<Rightarrow> (nat \<times> 'w state) option" where
  "relay_step os mem p (CanRead fd) st = copy_read os mem (fd, Some (SocksConn p)) st"
| "relay_step os mem p (CanWrite fd) st = copy_write os (fd, Some (SocksConn p)) st"

primrec relay_run ::
    "'w os \<Rightarrow> byte list \<Rightarrow> nat \<Rightarrow> relay_event list \<Rightarrow> 'w state \<Rightarrow> (nat \<times> 'w state) option" where
  "relay_run os mem p [] st = Some (COPY, st)"
| "relay_run os mem p (e # es) st = do {
     (r, st) \<leftarrow> relay_step os mem p e st;
     if r = COPY then relay_run os mem p es st else Some (r, st)
   }"

lemma moved_trans:
  assumes "moved rx tx s w s1 w1" and "moved rx tx s1 w1 s2 w2"
    and "client_fd s1 = client_fd s" "origin_fd s1 = origin_fd s"
  shows "moved rx tx s w s2 w2"
proof -
  obtain u d where a: "rx w1 (client_fd s) = rx w (client_fd s) @ u" "rx w1 (origin_fd s) = rx w (origin_fd s) @ d"
    "tx w1 (origin_fd s) @ buf_contents (read_buffer s1) = tx w (origin_fd s) @ buf_contents (read_buffer s) @ u"
    "tx w1 (client_fd s) @ buf_contents (write_buffer s1) = tx w (client_fd s) @ buf_contents (write_buffer s) @ d"
    using assms(1) by (auto simp: moved_def)
  obtain u' d' where b: "rx w2 (client_fd s) = rx w1 (client_fd s) @ u'" "rx w2 (origin_fd s) = rx w1 (origin_fd s) @ d'"
    "tx w2 (origin_fd s) @ buf_contents (read_buffer s2) = tx w1 (origin_fd s) @ buf_contents (read_buffer s1) @ u'"
    "tx w2 (client_fd s) @ buf_contents (write_buffer s2) = tx w1 (client_fd s) @ buf_contents (write_buffer s1) @ d'"
    using assms(2-4) by (auto simp: moved_def)
  have "tx w2 (origin_fd s) @ buf_contents (read_buffer s2) = tx w (origin_fd s) @ buf_contents (read_buffer s) @ u @ u'"
    "tx w2 (client_fd s) @ buf_contents (write_buffer s2) = tx w (client_fd s) @ buf_contents (write_buffer s) @ d @ d'"
    using a(3,4) b(3,4) by (metis append.assoc)+
  with a(1,2) b(1,2) show ?thesis unfolding moved_def by (intro exI [of _ "u @ u'"] exI [of _ "d @ d'"]) simp
qed

lemma relay_step_ok:
  fixes st :: "'w state"
  assumes "focus k ls js p s ci oi st" and "ready COPY ci oi s" and "os_ok os" and "length mem = SOCKADDR_TO_HUMAN_MIN"
  shows "returns (relay_step os mem p e st) (relayed os rx tx k ls js p s (world st))"
  using copy_read_ok [OF assms] copy_write_ok [OF assms(1-3)] by (cases e) simp_all

lemma relay_run_ok:
  fixes st :: "'w state"
  assumes os: "os_ok os" "length mem = SOCKADDR_TO_HUMAN_MIN" and o: "observes os rx tx"
  shows "focus k ls js p s ci oi st \<Longrightarrow> ready COPY ci oi s \<Longrightarrow>
    \<exists>r st' s'. relay_run os mem p es st = Some (r, st') \<and> r \<in> {COPY, DONE}
      \<and> get_conn p st' = Some s' \<and> moved rx tx s (world st) s' (world st')"
proof (induction es arbitrary: s ci oi st)
  case Nil
  show ?case
    by (rule exI [of _ COPY], rule exI [of _ st], rule exI [of _ s]) (simp add: moved_refl focus_get [OF Nil(1)])
next
  case (Cons e es)
  obtain r st1 where run: "relay_step os mem p e st = Some (r, st1)" and rel: "relayed os rx tx k ls js p s (world st) (r, st1)"
    using relay_step_ok [OF Cons.prems os, of e rx tx] by (auto simp: returns_def)
  obtain s0 where s0: "get_conn p st1 = Some s0" "moved rx tx s (world st) s0 (world st1)"
    using rel o by (auto simp: relayed_def)
  show ?case
  proof (cases "r = COPY")
    case True
    with rel obtain s1 ci1 oi1 where f1: "focus k ls js p s1 ci1 oi1 st1" "ready COPY ci1 oi1 s1"
      and fds: "client_fd s1 = client_fd s" "origin_fd s1 = origin_fd s"
      by (auto simp: relayed_def step_ok_def)
    have "s0 = s1" using s0(1) focus_get [OF f1(1)] by simp
    with Cons.IH [OF f1] moved_trans [OF s0(2) _ _] fds run True show ?thesis by fastforce
  next
    case False
    with rel run s0 show ?thesis by (auto simp: relayed_def)
  qed
qed

end
