(* ===== verification/Machine.thy ===== *)
theory Machine
  imports Relay
begin

text \<open>
  The events of a SOCKS5 connection: \<open>socksv5_read\<close>, \<open>socksv5_write\<close> and \<open>socksv5_block\<close> run the
  machine of \<open>src/stm.c\<close> over the table of states. Each of them, called for a descriptor that waits for
  it, returns and keeps the invariant of the process.
\<close>

section \<open>The table of states\<close>

lemma states_table:
  shows "length (socks5_states os mem) = 11"
    and "c \<le> ERROR_STATE \<Longrightarrow> sd_state (socks5_states os mem ! c) = c"
    and "c \<le> ERROR_STATE \<Longrightarrow> on_departure (socks5_states os mem ! c) = None"
    and "c \<le> ERROR_STATE \<Longrightarrow> on_arrival (socks5_states os mem ! c) =
      (if c = REQUEST_RESOLV then Some resolv_arrival
       else if c = REQUEST_WRITE then Some (request_write_arrival os)
       else if c = COPY then Some copy_arrival else None)"
  by (auto simp: socks5_states_def plain_state_def state_defs nth_Cons split: nat.splits)

lemma columns:
  shows "on_read_ready (socks5_states os mem ! HELLO_READ) = Some (hello_read os)"
    and "on_read_ready (socks5_states os mem ! AUTH_READ) = Some (auth_read os)"
    and "on_read_ready (socks5_states os mem ! REQUEST_READ) = Some (request_read os)"
    and "on_read_ready (socks5_states os mem ! COPY) = Some (copy_read os mem)"
    and "on_write_ready (socks5_states os mem ! HELLO_WRITE) = Some (hello_write os)"
    and "on_write_ready (socks5_states os mem ! AUTH_WRITE) = Some (auth_write os)"
    and "on_write_ready (socks5_states os mem ! REQUEST_CONNECTING) = Some (connecting_write os)"
    and "on_write_ready (socks5_states os mem ! REQUEST_WRITE) = Some (request_write os mem)"
    and "on_write_ready (socks5_states os mem ! COPY) = Some (copy_write os)"
    and "on_block_ready (socks5_states os mem ! REQUEST_RESOLV) = Some (resolv_block os)"
  by (simp_all add: socks5_states_def plain_state_def state_defs)

text \<open>The machine itself is no part of what a connection waits for.\<close>

lemma stm_irrelevant [simp]:
  "ready c ci oi (s\<lparr>stm := m\<rparr>) = ready c ci oi s" "arriving c ci oi (s\<lparr>stm := m\<rparr>) = arriving c ci oi s"
  by (simp_all add: ready_def arriving_def authorised_def relaying_def)

lemma get_stm_focus: "focus k ls js p s ci oi st \<Longrightarrow> get_stm (fd, Some (SocksConn p)) st = Some (stm s)"
  by (simp add: get_stm_def focus_get)

lemma put_stm_focus:
  assumes f: "focus k ls js p s ci oi st" and m: "sm_initial m = HELLO_READ" "sm_max_state m = ERROR_STATE"
  shows "focus k ls js p (s\<lparr>stm := m\<rparr>) ci oi (put_stm (fd, Some (SocksConn p)) m st)"
  using focus_put [OF f, of "s\<lparr>stm := m\<rparr>"] focus_conn_ok [OF f] m
  by (simp add: put_stm_def focus_get [OF f] same_fds_def conn_ok_def)

section \<open>Entering and leaving states\<close>

text \<open>The first event starts the machine in \<open>HELLO_READ\<close>.\<close>

lemma machine_started:
  assumes f: "focus k ls js p s ci oi st"
  shows "\<exists>m st'. handle_first (socks5_states os mem) get_stm put_stm (fd, Some (SocksConn p)) st = Some st'
    \<and> focus k ls js p (s\<lparr>stm := m\<rparr>) ci oi st' \<and> sm_current m = Some (cur s) \<and> world st' = world st
    \<and> px_services (snd st') = px_services (snd st) \<and> fst st' = fst st"
proof (cases "sm_current (stm s)")
  case None
  have m: "sm_initial (stm s) = HELLO_READ" "sm_max_state (stm s) = ERROR_STATE"
    using focus_conn_ok [OF f] by (simp_all add: conn_ok_def)
  let ?m = "(stm s)\<lparr>sm_current := Some HELLO_READ\<rparr>"
  have "handle_first (socks5_states os mem) get_stm put_stm (fd, Some (SocksConn p)) st =
      Some (put_stm (fd, Some (SocksConn p)) ?m st)"
    using None m(1)
    by (simp add: handle_first_def get_stm_focus [OF f] run_hook_def Let_def states_table state_defs)
  moreover have "focus k ls js p (s\<lparr>stm := ?m\<rparr>) ci oi (put_stm (fd, Some (SocksConn p)) ?m st)"
    by (rule put_stm_focus [OF f]) (simp_all add: m)
  moreover have "world (put_stm (fd, Some (SocksConn p)) ?m st) = world st"
    "px_services (snd (put_stm (fd, Some (SocksConn p)) ?m st)) = px_services (snd st)"
    "fst (put_stm (fd, Some (SocksConn p)) ?m st) = fst st"
    by (simp_all add: put_stm_def focus_get [OF f] put_conn_def world_def)
  ultimately show ?thesis using None by (auto simp: cur_def intro!: exI [of _ ?m])
next
  case (Some c)
  then have "focus k ls js p (s\<lparr>stm := stm s\<rparr>) ci oi st" "sm_current (stm s) = Some (cur s)"
    using f by (simp_all add: cur_def)
  with Some show ?thesis
    by (intro exI [of _ "stm s"] exI [of _ st]) (simp add: handle_first_def get_stm_focus [OF f])
qed

text \<open>What is left when an event of state \<open>c\<close> ends in state \<open>n\<close>\<close>

definition settled ::
    "int list \<Rightarrow> listeners \<Rightarrow> int list \<Rightarrow> nat \<Rightarrow> socks5 \<Rightarrow> nat \<Rightarrow> nat \<Rightarrow> 'w state \<Rightarrow> bool" where
  "settled k ls js p s c n st \<longleftrightarrow> (\<exists>s' ci oi. focus k ls js p s' ci oi st \<and> client_fd s' = client_fd s
     \<and> (c = COPY \<longrightarrow> origin_fd s' = origin_fd s) \<and> sm_current (stm s') = Some n
     \<and> (if n = DONE \<or> n = ERROR_STATE then \<not> resolving s' else ready n ci oi s'))"

lemma settledI:
  assumes "focus k ls js p s' ci oi st" and "client_fd s' = client_fd s" and "c = COPY \<Longrightarrow> origin_fd s' = origin_fd s"
    and "sm_current (stm s') = Some n" and "if n = DONE \<or> n = ERROR_STATE then \<not> resolving s' else ready n ci oi s'"
  shows "settled k ls js p s c n st"
  unfolding settled_def using assms by (intro exI [of _ s'] exI [of _ ci] exI [of _ oi]) simp

text \<open>Leaving state \<open>c\<close> for another one: no state has an \<open>on_departure\<close>, the arrival is one of three.\<close>

lemma jump_arrives:
  fixes st :: "'w state"
  assumes f: "focus k ls js p s' ci oi st" and n: "n \<le> ERROR_STATE" "n \<noteq> c" and c: "c \<le> ERROR_STATE"
    and m: "sm_current (stm s') = Some c" and s: "client_fd s' = client_fd s" and "c \<noteq> COPY \<or> n = DONE \<or> n = ERROR_STATE"
    and "c = COPY \<Longrightarrow> origin_fd s' = origin_fd s"
    and arr: "arriving n ci oi s'" and os: "os_ok os"
  shows "returns (jump (socks5_states os mem) get_stm put_stm n (fd, Some (SocksConn p)) st) (settled k ls js p s c n)"
proof -
  have init: "sm_initial (stm s') = HELLO_READ" "sm_max_state (stm s') = ERROR_STATE"
    using focus_conn_ok [OF f] by (simp_all add: conn_ok_def)
  let ?m = "(stm s')\<lparr>sm_current := Some n\<rparr>"
  let ?s = "s'\<lparr>stm := ?m\<rparr>" and ?st = "put_stm (fd, Some (SocksConn p)) ?m st"
  have f1: "focus k ls js p ?s ci oi ?st" by (rule put_stm_focus [OF f]) (simp_all add: init)
  have arr1: "arriving n ci oi ?s" using arr by simp
  have lengths: "c < length (socks5_states os mem)" "n < length (socks5_states os mem)"
    using n(1) c by (simp_all add: states_table(1) state_defs)
  have run: "jump (socks5_states os mem) get_stm put_stm n (fd, Some (SocksConn p)) st =
      run_hook (on_arrival (socks5_states os mem ! n)) n (fd, Some (SocksConn p)) ?st"
    using n c m init lengths
    by (simp add: jump_def get_stm_focus [OF f] run_hook_def Let_def states_table(3) [OF c]
        states_table(2) [OF n(1)] cong: option.case_cong)
  note run = run [unfolded states_table(4) [OF n(1)]]
  have settle: "settled k ls js p s c n st'"
    if "focus k ls js p s2 ci2 oi2 st'" "client_fd s2 = client_fd ?s" "origin_fd s2 = origin_fd ?s" "stm s2 = ?m"
      "if n = DONE \<or> n = ERROR_STATE then \<not> resolving s2 else ready n ci2 oi2 s2" for s2 ci2 oi2 and st' :: "'w state"
    using that s assms(8) by (intro settledI [OF that(1)]) simp_all
  consider "n = REQUEST_RESOLV" | "n = REQUEST_WRITE" | "n = COPY"
    | (plain) "n \<notin> {REQUEST_RESOLV, REQUEST_WRITE, COPY}" by blast
  then show ?thesis
  proof cases
    case 1
    have a: "arriving REQUEST_RESOLV ci oi ?s" using arr 1 by simp
    have "returns (resolv_arrival n (fd, Some (SocksConn p)) ?st) (settled k ls js p s c n)"
      by (rule returns_mono [OF resolv_arrival_ok [OF f1 a]])
        (auto intro!: settle [unfolded 1 state_defs] simp: 1 same_fds_def state_defs)
    with 1 show ?thesis unfolding run by (simp add: run_hook_def state_defs)
  next
    case 2
    have a: "arriving REQUEST_WRITE ci oi ?s" using arr 2 by simp
    have "returns (request_write_arrival os n (fd, Some (SocksConn p)) ?st) (settled k ls js p s c n)"
      by (rule returns_mono [OF request_write_arrival_ok [OF f1 a os]])
        (auto intro!: settle [unfolded 2 state_defs] simp: 2 same_fds_def state_defs)
    with 2 show ?thesis unfolding run by (simp add: run_hook_def state_defs)
  next
    case 3
    have a: "arriving COPY ci oi ?s" using arr 3 by simp
    have "returns (copy_arrival n (fd, Some (SocksConn p)) ?st) (settled k ls js p s c n)"
      by (rule returns_mono [OF copy_arrival_ok [OF f1 a]])
        (auto intro!: settle [unfolded 3 state_defs] simp: 3 same_fds_def state_defs)
    with 3 show ?thesis unfolding run by (simp add: run_hook_def state_defs)
  next
    case plain
    have "settled k ls js p s c n ?st"
      by (rule settle [OF f1]) (use arr plain in \<open>simp_all add: arriving_def\<close>)
    with plain show ?thesis unfolding run by (simp add: run_hook_def)
  qed
qed

text \<open>The jump after any event\<close>

lemma jump_settles:
  assumes ok: "step_ok k ls js p s c (n, st)" and c: "c \<le> COPY" and m: "sm_current (stm s) = Some c" and os: "os_ok os"
    and copy: "c = COPY \<Longrightarrow> n \<in> {COPY, DONE, ERROR_STATE}"
  shows "returns (jump (socks5_states os mem) get_stm put_stm n (fd, Some (SocksConn p)) st) (settled k ls js p s c n)"
proof -
  obtain s' ci oi where f: "focus k ls js p s' ci oi st" and n: "n \<le> ERROR_STATE"
    and s': "stm s' = stm s" "client_fd s' = client_fd s" "c = COPY \<longrightarrow> origin_fd s' = origin_fd s"
    and arr: "if n = c then ready c ci oi s' else arriving n ci oi s'"
    using ok unfolding step_ok_def fst_conv snd_conv by blast
  show ?thesis
  proof (cases "n = c")
    case True
    have "jump (socks5_states os mem) get_stm put_stm n (fd, Some (SocksConn p)) st = Some st"
      using m s'(1) True n focus_conn_ok [OF f] by (simp add: jump_def get_stm_focus [OF f] conn_ok_def)
    moreover have "settled k ls js p s c n st"
      by (rule settledI [OF f s'(2)]) (use s' m True arr c in \<open>auto simp: state_defs\<close>)
    ultimately show ?thesis by simp
  next
    case False
    show ?thesis
      by (rule jump_arrives [OF f n False])
        (use c m s' arr copy False os in \<open>auto simp: state_defs\<close>)
  qed
qed

section \<open>An event\<close>

text \<open>The outcome of a callback of connection \<open>p\<close> for descriptor \<open>fd\<close>\<close>

definition event_ok :: "int list \<Rightarrow> listeners \<Rightarrow> int list \<Rightarrow> nat \<Rightarrow> int \<Rightarrow> 'w state \<Rightarrow> bool" where
  "event_ok k ls js p fd st \<longleftrightarrow> server_inv ls js st \<and> s_jobs (fst st) = k
     \<and> (\<forall>i h d. sel_map (fst st) fd = Some (i, h, d) \<longrightarrow> h = SocksHandler \<and> d = Some (SocksConn p))"

lemma finish_ok:
  assumes s: "settled k ls js p s c n st" and fd: "fd = client_fd s \<or> c = COPY \<and> fd = origin_fd s"
  shows "returns (finish os (fd', Some (SocksConn p)) (n, st)) (event_ok k ls js p fd)"
proof -
  obtain s' ci oi where f: "focus k ls js p s' ci oi st" and s': "client_fd s' = client_fd s"
    "c = COPY \<longrightarrow> origin_fd s' = origin_fd s" "sm_current (stm s') = Some n"
    and r: "if n = DONE \<or> n = ERROR_STATE then \<not> resolving s' else ready n ci oi s'"
    using s by (auto simp: settled_def)
  have entry: "sel_map (fst st) fd = None \<or> (\<exists>i. sel_map (fst st) fd = Some (i, SocksHandler, Some (SocksConn p)))"
  proof -
    have regs: "conn_regs (sel_map (fst st)) p s' ci oi" using f by (simp add: focus_def)
    show ?thesis
    proof (cases "fd = client_fd s'")
      case True
      with conn_regs_entry(1) [OF regs] show ?thesis by blast
    next
      case False
      with fd s' have origin: "fd = origin_fd s'" by auto
      show ?thesis
      proof (cases oi)
        case None
        with regs origin show ?thesis by (simp add: conn_regs_def sel_map_def)
      next
        case (Some i)
        with conn_regs_entry(2) [of _ p s' ci i] regs origin show ?thesis by blast
      qed
    qed
  qed
  show ?thesis
  proof (cases "n = DONE \<or> n = ERROR_STATE")
    case True
    with r have idle: "\<not> resolving s'" by simp
    have "without (SocksConn p) (sel_map (fst st)) fd = None"
      using entry by (auto simp: without_def)
    with True show ?thesis
      by (auto simp: finish_def event_ok_def intro!: returns_mono [OF focus_closed [OF f idle]])
  next
    case False
    then have "ready (cur s') ci oi s'" using r s'(3) by (simp add: cur_def)
    from focus_done [OF f this] entry False show ?thesis
      by (auto simp: finish_def event_ok_def)
  qed
qed

text \<open>An event of one of the three kinds: \<open>g\<close> is the callback of the state.\<close>

lemma machine_event:
  fixes st :: "'w state"
  assumes f: "focus k ls js p s ci oi st" and r: "ready (cur s) ci oi s" and c: "cur s \<le> COPY" and os: "os_ok os"
    and fd: "fd = client_fd s \<or> cur s = COPY \<and> fd = origin_fd s"
    and g: "column (socks5_states os mem ! cur s) = Some g"
    and step: "\<And>s' (st' :: 'w state). focus k ls js p s' ci oi st' \<Longrightarrow> ready (cur s) ci oi s' \<Longrightarrow>
      returns (g (fd', Some (SocksConn p)) st')
        (\<lambda>r. step_ok k ls js p s' (cur s) r \<and> (cur s = COPY \<longrightarrow> fst r \<in> {COPY, DONE}))"
  shows "returns (Option.bind (stm_event column (socks5_states os mem) get_stm put_stm (fd', Some (SocksConn p)) st)
      (finish os (fd', Some (SocksConn p)))) (event_ok k ls js p fd)"
proof -
  obtain m st1 where first: "handle_first (socks5_states os mem) get_stm put_stm (fd', Some (SocksConn p)) st = Some st1"
    and f1: "focus k ls js p (s\<lparr>stm := m\<rparr>) ci oi st1" and m: "sm_current m = Some (cur s)"
    using machine_started [OF f, of os mem fd'] by auto
  obtain n st2 where g1: "g (fd', Some (SocksConn p)) st1 = Some (n, st2)"
    and ok: "step_ok k ls js p (s\<lparr>stm := m\<rparr>) (cur s) (n, st2)" and copy: "cur s = COPY \<longrightarrow> n \<in> {COPY, DONE}"
    using step [OF f1] r by (auto elim!: returns_pairE)
  have cur: "sm_current (stm (s\<lparr>stm := m\<rparr>)) = Some (cur s)" using m by simp
  from jump_settles [OF ok c cur os, of mem fd'] copy obtain st3 where
    j: "jump (socks5_states os mem) get_stm put_stm n (fd', Some (SocksConn p)) st2 = Some st3"
    and s3: "settled k ls js p (s\<lparr>stm := m\<rparr>) (cur s) n st3" by (auto simp: returns_def)
  have "cur s < length (socks5_states os mem)" using c by (simp add: states_table(1) state_defs)
  then have "stm_event column (socks5_states os mem) get_stm put_stm (fd', Some (SocksConn p)) st = Some (n, st3)"
    using first g g1 j m by (simp add: stm_event_def get_stm_focus [OF f1])
  moreover have "returns (finish os (fd', Some (SocksConn p)) (n, st3)) (event_ok k ls js p fd)"
    by (rule finish_ok [OF s3]) (use fd in simp)
  ultimately show ?thesis by simp
qed

section \<open>Which state an event belongs to\<close>

text \<open>A descriptor that is readable and waits for it is the client's in a state that reads, or either
  one in \<open>COPY\<close>; likewise for writable ones.\<close>

lemma waits_read:
  assumes "ready c ci oi s" and "fd = client_fd s \<and> i = ci \<or> fd = origin_fd s \<and> oi = Some i" and "wants OP_READ i"
  shows "c \<in> {HELLO_READ, AUTH_READ, REQUEST_READ} \<and> fd = client_fd s \<or> c = COPY \<and> (fd = client_fd s \<or> fd = origin_fd s)"
  using assms by (auto simp: ready_def wants_def op_defs split: if_splits)

lemma waits_write:
  assumes "ready c ci oi s" and "fd = client_fd s \<and> i = ci \<or> fd = origin_fd s \<and> oi = Some i" and "wants OP_WRITE i"
  shows "c \<in> {HELLO_WRITE, AUTH_WRITE, REQUEST_WRITE} \<and> fd = client_fd s
    \<or> c = REQUEST_CONNECTING \<and> fd = origin_fd s \<or> c = COPY \<and> (fd = client_fd s \<or> fd = origin_fd s)"
  using assms by (auto simp: ready_def wants_def op_defs split: if_splits)

section \<open>The handlers\<close>

text \<open>A connection whose descriptor is registered\<close>

lemma server_conn:
  assumes inv: "server_inv ls js st" and "sel_map (fst st) fd = Some (i, h, Some (SocksConn p))"
  shows "h = SocksHandler \<and> (\<exists>s ci oi. live (snd st) p = Some s \<and> ready (cur s) ci oi s
    \<and> conn_regs (sel_map (fst st)) p s ci oi
    \<and> (fd = client_fd s \<and> i = ci \<or> fd = origin_fd s \<and> oi = Some i))"
proof -
  have c: "core (sel_map (fst st)) (live (snd st)) (px_mgmt (snd st)) ls js" using inv by (simp add: server_inv_def)
  from coreD(3) [OF c assms(2)] obtain s where s: "live (snd st) p = Some s" by (auto simp: owner_ok_def)
  from coreD(1) [OF c s] obtain ci oi where r: "conn_regs (sel_map (fst st)) p s ci oi" "ready (cur s) ci oi s" by blast
  have "h = SocksHandler \<and> (fd = client_fd s \<and> i = ci \<or> fd = origin_fd s \<and> oi = Some i)"
    using r(1) assms(2) by (simp add: conn_regs_def)
  with s r show ?thesis by blast
qed

lemma conn_regs_unique:
  assumes "conn_regs R p s ci oi" and "conn_regs R p s ci' oi'"
  shows "ci' = ci \<and> oi' = oi"
proof
  show "ci' = ci" using conn_regs_entry(1) [OF assms(1)] conn_regs_entry(1) [OF assms(2)] by simp
  show "oi' = oi"
  proof (cases oi)
    case None
    with assms show ?thesis by (simp add: conn_regs_def split: if_splits)
  next
    case (Some i)
    then have "0 \<le> origin_fd s" using assms(1) by (simp add: conn_regs_def)
    then obtain j where j: "oi' = Some j" using assms(2) by (cases oi') (simp_all add: conn_regs_def)
    show ?thesis
      using conn_regs_entry(2) [OF assms(1) [unfolded Some]] conn_regs_entry(2) [OF assms(2) [unfolded j]] Some j by simp
  qed
qed

text \<open>Nothing is notified for a connection that does not resolve.\<close>

lemma idle_not_notified:
  assumes inv: "server_inv ls js st" and s: "live (snd st) p = Some s" and "\<not> resolving s"
  shows "client_fd s \<notin> set js"
proof
  assume notified: "client_fd s \<in> set js"
  have c: "core (sel_map (fst st)) (live (snd st)) (px_mgmt (snd st)) ls js" using inv by (simp add: server_inv_def)
  from coreD(6) [OF c notified] obtain q s' where q: "live (snd st) q = Some s'" "client_fd s' = client_fd s" "resolving s'"
    by auto
  have "p = q"
    using coreD(1) [OF c s] coreD(1) [OF c q(1)] conn_regs_inj [where s = s and s' = s'] q(2) by metis
  with q s assms(3) show False by simp
qed

lemma focus_event:
  assumes inv: "server_inv ls js st" and reg: "sel_map (fst st) fd = Some (i, h, Some (SocksConn p))"
    and i: "wants OP_READ i \<or> wants OP_WRITE i"
  obtains s ci oi where "h = SocksHandler" "focus (s_jobs (fst st)) ls js p s ci oi st" "ready (cur s) ci oi s"
    "fd = client_fd s \<and> i = ci \<or> fd = origin_fd s \<and> oi = Some i"
proof -
  obtain s ci oi where h: "h = SocksHandler" and s: "live (snd st) p = Some s" "ready (cur s) ci oi s"
    "conn_regs (sel_map (fst st)) p s ci oi" "fd = client_fd s \<and> i = ci \<or> fd = origin_fd s \<and> oi = Some i"
    using server_conn [OF inv reg] by auto
  have "\<not> resolving s"
  proof
    assume "resolving s"
    with s(2) have "cur s = REQUEST_RESOLV" "ci = OP_NOOP" "oi = None"
      by (auto simp: ready_def state_defs split: if_splits)
    with s(4) i show False by (auto simp: wants_def op_defs)
  qed
  from focusI [OF inv s(1) idle_not_notified [OF inv s(1) this]] obtain ci' oi' where
    f: "focus (s_jobs (fst st)) ls js p s ci' oi' st" "ready (cur s) ci' oi' s" by auto
  from f(1) have "conn_regs (sel_map (fst st)) p s ci' oi'" by (simp add: focus_def)
  from conn_regs_unique [OF s(3) this] have "ci' = ci \<and> oi' = oi" .
  with that h f s(4) show ?thesis by blast
qed

lemma relayed_step:
  "returns m (relayed os rx tx k ls js p s w) \<Longrightarrow> returns m (\<lambda>r. step_ok k ls js p s COPY r \<and> (fst r = COPY \<or> fst r = DONE))"
  by (erule returns_mono) (simp add: relayed_def)

lemma socksv5_read_ok:
  assumes inv: "server_inv ls js st" and reg: "sel_map (fst st) fd = Some (i, h, Some (SocksConn p))"
    and i: "wants OP_READ i" and os: "os_ok os" and mem: "length mem = SOCKADDR_TO_HUMAN_MIN"
  shows "returns (socksv5_read os mem (fd, Some (SocksConn p)) st) (event_ok (s_jobs (fst st)) ls js p fd)"
proof -
  from focus_event [OF inv reg] i obtain s ci oi where
    f: "focus (s_jobs (fst st)) ls js p s ci oi st" and r: "ready (cur s) ci oi s"
    and e: "fd = client_fd s \<and> i = ci \<or> fd = origin_fd s \<and> oi = Some i" by metis
  note event = machine_event [OF f r _ os, where fd' = fd and fd = fd and column = on_read_ready and mem = mem]
  from waits_read [OF r e i] consider
      (hello) "cur s = HELLO_READ" "fd = client_fd s" | (auth) "cur s = AUTH_READ" "fd = client_fd s"
    | (request) "cur s = REQUEST_READ" "fd = client_fd s" | (copy) "cur s = COPY" "fd = client_fd s \<or> fd = origin_fd s"
    by blast
  then show ?thesis
  proof cases
    case hello
    show ?thesis
      unfolding socksv5_read_def stm_handler_read_def
      by (rule event [where g = "hello_read os"])
        (use hello hello_read_ok [OF _ _ os] in \<open>simp_all add: columns\<close>, simp_all add: state_defs)
  next
    case auth
    show ?thesis
      unfolding socksv5_read_def stm_handler_read_def
      by (rule event [where g = "auth_read os"])
        (use auth auth_read_ok [OF _ _ os] in \<open>simp_all add: columns\<close>, simp_all add: state_defs)
  next
    case request
    show ?thesis
      unfolding socksv5_read_def stm_handler_read_def
      by (rule event [where g = "request_read os"])
        (use request request_read_ok [OF _ _ os] in \<open>simp_all add: columns\<close>, simp_all add: state_defs)
  next
    case copy
    show ?thesis
      unfolding socksv5_read_def stm_handler_read_def
      by (rule event [where g = "copy_read os mem"])
        (use copy relayed_step [OF copy_read_ok [OF _ _ os mem]] in \<open>simp_all add: columns\<close>)
  qed
qed

lemma socksv5_write_ok:
  assumes inv: "server_inv ls js st" and reg: "sel_map (fst st) fd = Some (i, h, Some (SocksConn p))"
    and i: "wants OP_WRITE i" and os: "os_ok os" and mem: "length mem = SOCKADDR_TO_HUMAN_MIN"
  shows "returns (socksv5_write os mem (fd, Some (SocksConn p)) st) (\<lambda>st'. server_inv ls js st' \<and> s_jobs (fst st') = s_jobs (fst st))"
proof -
  from focus_event [OF inv reg] i obtain s ci oi where
    f: "focus (s_jobs (fst st)) ls js p s ci oi st" and r: "ready (cur s) ci oi s"
    and e: "fd = client_fd s \<and> i = ci \<or> fd = origin_fd s \<and> oi = Some i" by metis
  note event = machine_event [OF f r _ os, where fd' = fd and fd = "client_fd s" and column = on_write_ready and mem = mem]
  have "returns (socksv5_write os mem (fd, Some (SocksConn p)) st) (event_ok (s_jobs (fst st)) ls js p (client_fd s))"
  proof -
    from waits_write [OF r e i] consider (hello) "cur s = HELLO_WRITE" | (auth) "cur s = AUTH_WRITE"
      | (connecting) "cur s = REQUEST_CONNECTING" | (request) "cur s = REQUEST_WRITE" | (copy) "cur s = COPY"
      by blast
    then show ?thesis
    proof cases
      case hello
      show ?thesis
        unfolding socksv5_write_def stm_handler_write_def
        by (rule event [where g = "hello_write os"])
          (use hello hello_write_ok [OF _ _ os] in \<open>simp_all add: columns\<close>, simp_all add: state_defs)
    next
      case auth
      show ?thesis
        unfolding socksv5_write_def stm_handler_write_def
        by (rule event [where g = "auth_write os"])
          (use auth auth_write_ok [OF _ _ os] in \<open>simp_all add: columns\<close>, simp_all add: state_defs)
    next
      case connecting
      show ?thesis
        unfolding socksv5_write_def stm_handler_write_def
        by (rule event [where g = "connecting_write os"])
          (use connecting connecting_write_ok [OF _ _ os] in \<open>simp_all add: columns\<close>, simp_all add: state_defs)
    next
      case request
      show ?thesis
        unfolding socksv5_write_def stm_handler_write_def
        by (rule event [where g = "request_write os mem"])
          (use request request_write_ok [OF _ _ os mem] in \<open>simp_all add: columns\<close>, simp_all add: state_defs)
    next
      case copy
      show ?thesis
        unfolding socksv5_write_def stm_handler_write_def
        by (rule event [where g = "copy_write os"])
          (use copy relayed_step [OF copy_write_ok [OF _ _ os]] in \<open>simp_all add: columns\<close>)
    qed
  qed
  then show ?thesis by (rule returns_mono) (simp add: event_ok_def)
qed

text \<open>A notification\<close>

lemma server_inv_tail: "server_inv ls (fd # js) st \<Longrightarrow> server_inv ls js st"
  by (auto simp: server_inv_def core_def)

lemma notified:
  assumes "server_inv ls (fd # js) st"
  obtains p s where "live (snd st) p = Some s" "client_fd s = fd" "resolving s" "fd \<notin> set js"
proof -
  have c: "core (sel_map (fst st)) (live (snd st)) (px_mgmt (snd st)) ls (fd # js)"
    using assms by (simp add: server_inv_def)
  from coreD(6) [OF c, of fd] obtain p s where "live (snd st) p = Some s" "client_fd s = fd" "resolving s" by auto
  with that coreD(5) [OF c] show ?thesis by simp
qed

lemma socksv5_block_ok:
  assumes inv: "server_inv ls (fd # js) st" and reg: "sel_map (fst st) fd = Some (i, h, d)" and os: "os_ok os"
  shows "h = SocksHandler \<and> returns (socksv5_block os mem (fd, d) st)
    (\<lambda>st'. server_inv ls js st' \<and> s_jobs (fst st') = s_jobs (fst st))"
proof -
  obtain p s where s: "live (snd st) p = Some s" "client_fd s = fd" "resolving s" "fd \<notin> set js"
    using notified [OF inv] by blast
  from focusI [OF server_inv_tail [OF inv] s(1)] s(2,4) obtain ci oi where
    f: "focus (s_jobs (fst st)) ls js p s ci oi st" and r: "ready (cur s) ci oi s" by auto
  have c: "cur s = REQUEST_RESOLV" using r s(3) by (simp add: ready_def)
  have "conn_regs (sel_map (fst st)) p s ci oi" using f by (simp add: focus_def)
  from conn_regs_entry(1) [OF this] reg s(2) have d: "h = SocksHandler" "d = Some (SocksConn p)" by simp_all
  have "returns (socksv5_block os mem (fd, Some (SocksConn p)) st) (event_ok (s_jobs (fst st)) ls js p (client_fd s))"
    unfolding socksv5_block_def stm_handler_block_def
    by (rule machine_event [OF f r _ os, where g = "resolv_block os"])
      (use c resolv_block_ok [OF _ _ os] in \<open>simp_all add: columns\<close>, simp_all add: state_defs)
  then show ?thesis unfolding d by (auto simp: event_ok_def elim: returns_mono)
qed

end
