(* ===== verification/Accept.thy ===== *)
theory Accept
  imports Machine
begin

text \<open>
  Where connections come from: \<open>socks5_new\<close> with its pool, and \<open>socksv5_passive_accept\<close>. While a
  new connection is being set up it is apart: allocated, but in no table yet.
\<close>

section \<open>A connection that is not in the tables yet\<close>

definition apart :: "int list \<Rightarrow> listeners \<Rightarrow> int list \<Rightarrow> nat \<Rightarrow> 'w state \<Rightarrow> bool" where
  "apart k ls js p st \<longleftrightarrow> sel_inv (fst st) \<and> s_jobs (fst st) = k
     \<and> core (sel_map (fst st)) ((live (snd st))(p := None)) (px_mgmt (snd st)) ls js
     \<and> (\<forall>fd i h. sel_map (fst st) fd \<noteq> Some (i, h, Some (SocksConn p)))
     \<and> p < px_next (snd st) \<and> p \<notin> set (px_pool (snd st))
     \<and> heap_ok ((snd st)\<lparr>px_conns := (px_conns (snd st))(p := None)\<rparr>)"

lemma live_without: "live (x\<lparr>px_conns := (px_conns x)(p := None)\<rparr>) = (live x)(p := None)"
  by (auto simp: live_def fun_eq_iff)

lemma heap_ok_pool: "heap_ok x \<Longrightarrow> q \<in> set (px_pool x) \<Longrightarrow> \<exists>s. px_conns x q = Some s \<and> conn_ok s"
  by (simp add: heap_ok_def)

lemma heap_ok_next: "heap_ok x \<Longrightarrow> px_conns x q \<noteq> None \<or> px_mgmt x q \<noteq> None \<Longrightarrow> q < px_next x"
  by (auto simp: heap_ok_def)

text \<open>Only the world changes.\<close>

lemma heap_ok_frame:
  assumes "heap_ok x" and "px_conns x' = px_conns x" "px_mgmt x' = px_mgmt x" "px_next x' = px_next x"
    "px_pool x' = px_pool x" "px_pool_size x' = px_pool_size x" "px_services x' = px_services x"
  shows "heap_ok x'" and "live x' = live x"
proof -
  show l: "live x' = live x" unfolding live_def assms(2,5) ..
  show "heap_ok x'" using assms(1) unfolding heap_ok_def l assms(2-7) .
qed

lemma sys_frame:
  assumes "sys f st = (r, st')"
  shows "fst st' = fst st" "px_conns (snd st') = px_conns (snd st)" "px_mgmt (snd st') = px_mgmt (snd st)"
    "px_next (snd st') = px_next (snd st)" "px_pool (snd st') = px_pool (snd st)"
    "px_pool_size (snd st') = px_pool_size (snd st)" "px_services (snd st') = px_services (snd st)"
  using assms by (auto simp: sys_def split: prod.splits)

lemma server_inv_frame:
  assumes "server_inv ls js st" and "fst st' = fst st"
    and "px_conns (snd st') = px_conns (snd st)" "px_mgmt (snd st') = px_mgmt (snd st)" "px_next (snd st') = px_next (snd st)"
    "px_pool (snd st') = px_pool (snd st)" "px_pool_size (snd st') = px_pool_size (snd st)"
    "px_services (snd st') = px_services (snd st)"
  shows "server_inv ls js st'"
proof -
  have h: "heap_ok (snd st)" using assms(1) by (simp add: server_inv_def)
  show ?thesis
    using assms(1) heap_ok_frame [OF h assms(3-8)] unfolding server_inv_def assms(2,4) by simp
qed

lemma server_inv_sys: "server_inv ls js st \<Longrightarrow> sys f st = (r, st') \<Longrightarrow> server_inv ls js st'"
  by (erule server_inv_frame) (rule sys_frame, assumption)+

lemma server_inv_sys_unit: "server_inv ls js st \<Longrightarrow> server_inv ls js (sys_unit f st)"
  by (erule server_inv_frame) (simp_all add: sys_unit_def)

lemma apart_frame:
  assumes "apart k ls js p st" and "fst st' = fst st"
    and "px_conns (snd st') = px_conns (snd st)" "px_mgmt (snd st') = px_mgmt (snd st)" "px_next (snd st') = px_next (snd st)"
    "px_pool (snd st') = px_pool (snd st)" "px_pool_size (snd st') = px_pool_size (snd st)"
    "px_services (snd st') = px_services (snd st)"
  shows "apart k ls js p st'"
proof -
  have l: "live (snd st') = live (snd st)" unfolding live_def assms(3,6) ..
  have "heap_ok ((snd st')\<lparr>px_conns := (px_conns (snd st'))(p := None)\<rparr>)"
    by (rule heap_ok_frame(1) [where x = "(snd st)\<lparr>px_conns := (px_conns (snd st))(p := None)\<rparr>"])
      (use assms in \<open>simp_all add: apart_def\<close>)
  with assms(1) show ?thesis unfolding apart_def l assms(2,4,5,6) by simp
qed

lemma apart_sys: "apart k ls js p st \<Longrightarrow> sys f st = (r, st') \<Longrightarrow> apart k ls js p st'"
  by (erule apart_frame) (rule sys_frame, assumption)+

lemma apart_put:
  assumes "apart k ls js p st"
  shows "apart k ls js p (put_conn p s st)" and "live (snd (put_conn p s st)) p = Some s"
    and "get_conn p (put_conn p s st) = Some s"
proof -
  have l: "(live (snd (put_conn p s st)))(p := None) = (live (snd st))(p := None)"
    by (auto simp: live_def put_conn_def fun_eq_iff)
  have "(snd (put_conn p s st))\<lparr>px_conns := (px_conns (snd (put_conn p s st)))(p := None)\<rparr> =
      (snd st)\<lparr>px_conns := (px_conns (snd st))(p := None)\<rparr>"
    by (simp add: put_conn_def)
  with assms l show "apart k ls js p (put_conn p s st)" by (simp add: apart_def put_conn_def)
  show "live (snd (put_conn p s st)) p = Some s" using assms by (simp add: live_def put_conn_def apart_def)
  show "get_conn p (put_conn p s st) = Some s" by (simp add: get_conn_def put_conn_def)
qed

text \<open>Giving it up again\<close>

lemma apart_free:
  assumes "apart k ls js p st"
  shows "server_inv ls js (fst st, (snd st)\<lparr>px_conns := (px_conns (snd st))(p := None)\<rparr>)"
  using assms by (simp add: server_inv_def apart_def live_without)

lemma apart_destroy:
  assumes a: "apart k ls js p st" and s: "get_conn p st = Some s" "conn_ok s" "\<not> resolving s"
  shows "\<exists>st'. socks5_destroy p st = Some st' \<and> fst st' = fst st \<and> server_inv ls js st'"
proof -
  define x where "x = snd st"
  define s' where "s' = s\<lparr>dns := dns_request_clear (dns s)\<rparr>"
  define x' where "x' = (if px_pool_size x < MAX_POOL
    then x\<lparr>px_conns := (px_conns x)(p \<mapsto> s'), px_pool := p # px_pool x, px_pool_size := px_pool_size x + 1\<rparr>
    else x\<lparr>px_conns := (px_conns x)(p := None)\<rparr>)"
  have ok: "conn_ok s'" using s(2) by (simp add: s'_def conn_ok_def)
  have heap: "heap_ok (x\<lparr>px_conns := (px_conns x)(p := None)\<rparr>)" and p: "p < px_next x" "p \<notin> set (px_pool x)"
    using a by (simp_all add: apart_def x_def)
  have "socks5_destroy p st = Some (fst st, x')"
    using s(1,3) by (simp add: socks5_destroy_def put_conn_def Let_def x'_def s'_def x_def)
  moreover have l: "live x' = (live x)(p := None)"
    by (auto simp: x'_def live_def fun_eq_iff)
  moreover have "heap_ok x'"
  proof -
    let ?x0 = "x\<lparr>px_conns := (px_conns x)(p := None)\<rparr>"
    have "live ?x0 = live x'" using l live_without by metis
    moreover have "\<exists>s. px_conns x' q = Some s \<and> conn_ok s" if "q \<in> set (px_pool x')" for q
    proof (cases "q = p")
      case True
      with that ok p(2) show ?thesis by (simp add: x'_def split: if_splits)
    next
      case False
      then have "q \<in> set (px_pool ?x0)" using that by (simp add: x'_def split: if_splits)
      from heap_ok_pool [OF heap this] False show ?thesis by (simp add: x'_def)
    qed
    moreover have "distinct (px_pool x') \<and> px_pool_size x' = length (px_pool x') \<and> px_pool_size x' \<le> MAX_POOL
        \<and> px_services x' = px_services x \<and> px_next x' = px_next x"
      using heap p(2) by (simp add: heap_ok_def x'_def)
    moreover have "q < px_next x" if "px_conns x' q \<noteq> None \<or> px_mgmt x' q \<noteq> None" for q
      using heap_ok_next [OF heap, of q] p(1) that by (cases "q = p") (simp_all add: x'_def split: if_splits)
    ultimately show ?thesis using heap by (simp add: heap_ok_def)
  qed
  moreover have "px_mgmt x' = px_mgmt x" by (simp add: x'_def)
  ultimately show ?thesis using a by (simp add: server_inv_def apart_def x_def)
qed

section \<open>Memory for a new connection\<close>

text \<open>A zeroed connection, with the blocks of a recycled one or none\<close>

definition blank_conn :: "socks5 \<Rightarrow> bool" where
  "blank_conn s \<longleftrightarrow> (\<exists>a b n. s = zero_conn\<lparr>raw_read := a, raw_write := b, buffer_size := n\<rparr>
     \<and> (a = None \<or> (\<exists>x y. a = Some x \<and> b = Some y \<and> length x = n \<and> length y = n)))"

lemma no_registration:
  assumes "core R L M ls js" and "L p = None"
  shows "R fd \<noteq> Some (i, h, Some (SocksConn p))"
  using coreD(3) [OF assms(1), of fd "(i, h, Some (SocksConn p))"] assms(2) by (auto simp: owner_ok_def)

lemma pool_alloc_apart:
  assumes inv: "server_inv ls js st" and pool: "px_pool (snd st) = p # ps"
  shows "apart (s_jobs (fst st)) ls js p (fst st, (snd st)\<lparr>px_pool := ps, px_pool_size := px_pool_size (snd st) - 1\<rparr>)"
proof -
  define x where "x = snd st"
  define x' where "x' = x\<lparr>px_pool := ps, px_pool_size := px_pool_size x - 1\<rparr>"
  let ?x0 = "x'\<lparr>px_conns := (px_conns x')(p := None)\<rparr>"
  have c: "core (sel_map (fst st)) (live x) (px_mgmt x) ls js" and sel: "sel_inv (fst st)" and heap: "heap_ok x"
    using inv by (simp_all add: server_inv_def x_def)
  have none: "live x p = None" using pool by (simp add: live_def x_def)
  have dist: "p \<notin> set ps" "distinct ps" and len: "px_pool_size x = Suc (length ps)" "length ps < MAX_POOL"
    using heap pool by (simp_all add: heap_ok_def x_def)
  have l: "(live x')(p := None) = live x"
    using none pool dist by (auto simp: live_def x'_def x_def fun_eq_iff)
  have "p < px_next x" using heap_ok_pool [OF heap] heap_ok_next [OF heap] pool by (fastforce simp: x_def)
  moreover have "heap_ok ?x0"
  proof -
    have "\<exists>s. px_conns ?x0 q = Some s \<and> conn_ok s" if "q \<in> set (px_pool ?x0)" for q
      using heap_ok_pool [OF heap, of q] that dist(1) pool by (auto simp: x'_def x_def)
    moreover have "q < px_next x" if "px_conns ?x0 q \<noteq> None \<or> px_mgmt x q \<noteq> None" for q
      using heap_ok_next [OF heap, of q] that by (cases "q = p") (simp_all add: x'_def)
    moreover have "unat (m_current (sv_metrics (px_services x))) = card (dom (live x))" "services_inv (px_services x)"
      using heap by (simp_all add: heap_ok_def)
    ultimately show ?thesis
      using l dist(2) len unfolding heap_ok_def live_without by (simp add: x'_def)
  qed
  ultimately show ?thesis
    using sel c l dist(1) no_registration [OF c none] by (simp add: apart_def x'_def x_def)
qed

lemma fresh_alloc_apart:
  assumes inv: "server_inv ls js st"
  shows "apart (s_jobs (fst st)) ls js (px_next (snd st)) (fst st, (snd st)\<lparr>px_next := px_next (snd st) + 1\<rparr>)"
proof -
  define x where "x = snd st"
  define x' where "x' = x\<lparr>px_next := px_next x + 1\<rparr>"
  let ?p = "px_next x" and ?x0 = "x'\<lparr>px_conns := (px_conns x')(px_next x := None)\<rparr>"
  have c: "core (sel_map (fst st)) (live x) (px_mgmt x) ls js" and sel: "sel_inv (fst st)" and heap: "heap_ok x"
    using inv by (simp_all add: server_inv_def x_def)
  have conns: "px_conns x ?p = None" using heap_ok_next [OF heap, of ?p] by blast
  then have none: "live x ?p = None" by (simp add: live_def)
  have same: "?x0 = x'" using conns by (simp add: x'_def fun_upd_idem)
  have l: "live x' = live x" "(live x)(?p := None) = live x"
    using none by (simp_all add: live_def x'_def fun_upd_idem fun_eq_iff)
  have "?p \<notin> set (px_pool x)" using heap_ok_pool [OF heap, of ?p] conns by auto
  moreover have "heap_ok x'"
  proof -
    have "q < px_next x'" if "px_conns x q \<noteq> None \<or> px_mgmt x q \<noteq> None" for q
      using heap_ok_next [OF heap that] by (simp add: x'_def)
    with heap show ?thesis unfolding heap_ok_def l by (simp add: x'_def)
  qed
  ultimately show ?thesis
    using sel c l same no_registration [OF c none] by (simp add: apart_def x'_def x_def)
qed

lemma conn_alloc_ok:
  assumes inv: "server_inv ls js st"
  shows "\<exists>r st'. conn_alloc os st = Some (r, st') \<and> fst st' = fst st \<and>
    (case r of None \<Rightarrow> server_inv ls js st' | Some (p, s) \<Rightarrow> apart (s_jobs (fst st)) ls js p st' \<and> blank_conn s)"
proof (cases "px_pool (snd st)")
  case (Cons p ps)
  have heap: "heap_ok (snd st)" using inv by (simp add: server_inv_def)
  obtain s where s: "px_conns (snd st) p = Some s" "conn_ok s"
    using heap_ok_pool [OF heap, of p] Cons by auto
  have "blank_conn (zero_conn\<lparr>raw_read := raw_read s, raw_write := raw_write s, buffer_size := buffer_size s\<rparr>)"
    using s(2) unfolding blank_conn_def conn_ok_def by blast
  with pool_alloc_apart [OF inv Cons] Cons s(1) show ?thesis by (simp add: conn_alloc_def get_conn_def)
next
  case Nil
  obtain ok st1 where sys: "sys (os_calloc_ok os) st = (ok, st1)" by (rule prod.exhaust)
  have inv1: "server_inv ls js st1" and sel: "fst st1 = fst st"
    using server_inv_sys [OF inv sys] sys_frame(1) [OF sys] .
  have "zero_conn = zero_conn\<lparr>raw_read := None, raw_write := None, buffer_size := 0\<rparr>"
    by (simp add: zero_conn_def)
  then have "blank_conn zero_conn" unfolding blank_conn_def by blast
  with fresh_alloc_apart [OF inv1] inv1 sel sys Nil show ?thesis by (cases st1) (auto simp: conn_alloc_def)
qed

section \<open>\<open>socks5_new\<close>\<close>

lemma stm_init_ok:
  "stm_init (socks5_states os mem) \<lparr>sm_initial = HELLO_READ, sm_max_state = ERROR_STATE, sm_current = c\<rparr> =
     Some \<lparr>sm_initial = HELLO_READ, sm_max_state = ERROR_STATE, sm_current = None\<rparr>"
proof -
  have "\<forall>i \<in> set [0..<Suc ERROR_STATE]. i < length (socks5_states os mem) \<and> sd_state (socks5_states os mem ! i) = i"
    by (auto simp: states_table(1) intro: states_table(2)) (simp_all add: state_defs)
  then show ?thesis by (simp add: stm_init_def state_defs del: set_upt)
qed

text \<open>A connection fit to be registered\<close>

definition newborn :: "int \<Rightarrow> socks5 \<Rightarrow> bool" where
  "newborn fd s \<longleftrightarrow> conn_ok s \<and> client_fd s = fd \<and> origin_fd s = -1 \<and> references s = 0 \<and> \<not> resolving s
     \<and> cur s = HELLO_READ"

lemma io_buffers:
  assumes os: "os_ok os" and a: "apart k ls js p st" and s: "blank_conn s" and want: "CONFIG_MIN_BUFFER \<le> want"
    and r: "(if raw_read s = None \<or> buffer_size s \<noteq> want
       then let (a, st) = sys (os_malloc os want) st; (b, st) = sys (os_malloc os want) st
            in (s\<lparr>raw_read := a, raw_write := b, buffer_size := want\<rparr>, st)
       else (s, st)) = (s', st')"
  shows "apart k ls js p st' \<and> fst st' = fst st \<and> (raw_read s' = None \<or> raw_write s' = None \<or>
    (\<exists>x y. s' = zero_conn\<lparr>raw_read := Some x, raw_write := Some y, buffer_size := want\<rparr> \<and> length x = want \<and> length y = want))"
proof -
  obtain a0 b0 n where s0: "s = zero_conn\<lparr>raw_read := a0, raw_write := b0, buffer_size := n\<rparr>"
    "a0 = None \<or> (\<exists>x y. a0 = Some x \<and> b0 = Some y \<and> length x = n \<and> length y = n)"
    using s by (auto simp: blank_conn_def)
  obtain m1 st1 where m1: "sys (os_malloc os want) st = (m1, st1)" by (rule prod.exhaust)
  obtain m2 st2 where m2: "sys (os_malloc os want) st1 = (m2, st2)" by (rule prod.exhaust)
  show ?thesis
  proof (cases "raw_read s = None \<or> buffer_size s \<noteq> want")
    case True
    then have s': "s' = zero_conn\<lparr>raw_read := m1, raw_write := m2, buffer_size := want\<rparr>" "st' = st2"
      using r m1 m2 s0(1) by auto
    have "length x = want" if "m1 = Some x" for x
      using m1 that os_okD(11) [OF os] by (auto simp: sys_def split: prod.splits)
    moreover have "length y = want" if "m2 = Some y" for y
      using m2 that os_okD(11) [OF os] by (auto simp: sys_def split: prod.splits)
    ultimately have "m1 = None \<or> m2 = None \<or> (\<exists>x y. m1 = Some x \<and> m2 = Some y \<and> length x = want \<and> length y = want)"
      by (cases m1; cases m2) auto
    then have "raw_read s' = None \<or> raw_write s' = None \<or> (\<exists>x y. s' = zero_conn\<lparr>raw_read := Some x,
        raw_write := Some y, buffer_size := want\<rparr> \<and> length x = want \<and> length y = want)"
      unfolding s'(1) by (elim disjE exE conjE) (simp, simp, blast)
    with apart_sys [OF apart_sys [OF a m1] m2] sys_frame(1) [OF m1] sys_frame(1) [OF m2] s'(2)
    show ?thesis by simp
  next
    case False
    then have "s' = s" "st' = st" "n = want" "a0 \<noteq> None" using r s0(1) by (simp_all split: if_splits)
    with s0 a show ?thesis by blast
  qed
qed

lemma socks5_new_ok:
  assumes inv: "server_inv ls js st" and os: "os_ok os" and fd: "0 \<le> fd"
  shows "\<exists>r st'. socks5_new os mem fd st = Some (r, st') \<and> fst st' = fst st \<and>
    (case r of None \<Rightarrow> server_inv ls js st'
     | Some p \<Rightarrow> apart (s_jobs (fst st)) ls js p st' \<and> (\<exists>s. get_conn p st' = Some s \<and> newborn fd s))"
proof -
  obtain r st1 where al: "conn_alloc os st = Some (r, st1)" "fst st1 = fst st"
    and r: "case r of None \<Rightarrow> server_inv ls js st1 | Some (p, s) \<Rightarrow> apart (s_jobs (fst st)) ls js p st1 \<and> blank_conn s"
    using conn_alloc_ok [OF inv] by blast
  show ?thesis
  proof (cases r)
    case None
    with al r show ?thesis by (simp add: socks5_new_def)
  next
    case (Some ps)
    then obtain p s where ps: "r = Some (p, s)" by (cases ps) simp
    define want where "want = (let w = unat (cfg_io_buffer_size (config st1)) in
      if w < CONFIG_MIN_BUFFER then CONFIG_MIN_BUFFER else w)"
    have want: "CONFIG_MIN_BUFFER \<le> want" by (simp add: want_def Let_def)
    obtain s1 st2 where io: "(if raw_read s = None \<or> buffer_size s \<noteq> want
       then let (a, st) = sys (os_malloc os want) st1; (b, st) = sys (os_malloc os want) st
            in (s\<lparr>raw_read := a, raw_write := b, buffer_size := want\<rparr>, st)
       else (s, st1)) = (s1, st2)" by (rule prod.exhaust)
    from io_buffers [OF os _ _ want io, of "s_jobs (fst st)" ls js p] r ps al(2) have
      a: "apart (s_jobs (fst st)) ls js p st2" "fst st2 = fst st" and
      s1: "raw_read s1 = None \<or> raw_write s1 = None \<or> (\<exists>x y. s1 = zero_conn\<lparr>raw_read := Some x,
        raw_write := Some y, buffer_size := want\<rparr> \<and> length x = want \<and> length y = want)" by auto
    have w: "(if unat (cfg_io_buffer_size (config st1)) < CONFIG_MIN_BUFFER then CONFIG_MIN_BUFFER
        else unat (cfg_io_buffer_size (config st1))) = want"
      by (simp add: want_def Let_def)
    note run = socks5_new_def al(1) ps Let_def w io [unfolded Let_def]
    show ?thesis
    proof (cases "raw_read s1 = None \<or> raw_write s1 = None")
      case True
      have "socks5_new os mem fd st = Some (None, fst st2, (snd st2)\<lparr>px_conns := (px_conns (snd st2))(p := None)\<rparr>)"
        using True by (auto simp: run split del: if_split split: option.splits cong: if_cong)
      with apart_free [OF a(1)] a(2) show ?thesis by simp
    next
      case False
      with s1 obtain x y where xy: "s1 = zero_conn\<lparr>raw_read := Some x, raw_write := Some y, buffer_size := want\<rparr>"
        "length x = want" "length y = want" by auto
      define s2 where "s2 = s1\<lparr>client_fd := fd, origin_fd := -1, references := 0,
        username := (username s1)[0 := 0], reply := SOCKS5_REP_SUCCESS,
        read_buffer := buffer_init (buffer_size s1) x, write_buffer := buffer_init (buffer_size s1) y,
        sniff_pop3 := False, pop3 := pop3_sniffer_init (pop3 s1),
        hello := hello_parser_init, auth := auth_parser_init (auth s1), request := request_parser_init (request s1),
        stm := \<lparr>sm_initial = HELLO_READ, sm_max_state = ERROR_STATE, sm_current = None\<rparr>\<rparr>"
      have "socks5_new os mem fd st = Some (Some p, put_conn p s2 st2)"
        using xy(1) by (simp add: run stm_init_ok s2_def split del: if_split cong: if_cong)
      moreover have "newborn fd s2"
        using xy want
        by (simp add: newborn_def s2_def conn_ok_def zero_conn_def cur_def auth_parser_init_def
            request_parser_init_def)
      ultimately show ?thesis using apart_put [OF a(1), of s2] a(2) by simp
    qed
  qed
qed

section \<open>Registering a new connection\<close>

text \<open>Every connection has a descriptor of its own, and there are 1024 of them.\<close>

lemma few_connections:
  assumes inv: "server_inv ls js st"
  shows "card (dom (live (snd st))) \<le> ITEMS_MAX_SIZE"
proof -
  have c: "core (sel_map (fst st)) (live (snd st)) (px_mgmt (snd st)) ls js" and sel: "sel_inv (fst st)"
    using inv by (simp_all add: server_inv_def)
  let ?fd = "\<lambda>p. client_fd (the (live (snd st) p))"
  have conn: "\<exists>ci oi. conn_regs (sel_map (fst st)) p (the (live (snd st) p)) ci oi" if "p \<in> dom (live (snd st))" for p
  proof -
    from that obtain s where "live (snd st) p = Some s" by auto
    with coreD(1) [OF c this] show ?thesis by (metis option.sel)
  qed
  have "inj_on ?fd (dom (live (snd st)))"
    using conn conn_regs_inj by (meson inj_onI)
  moreover have "?fd ` dom (live (snd st)) \<subseteq> {0..<int ITEMS_MAX_SIZE}"
  proof clarify
    fix p s assume "live (snd st) p = Some s"
    then have "p \<in> dom (live (snd st))" by auto
    from conn [OF this] obtain ci oi where "conn_regs (sel_map (fst st)) p (the (live (snd st) p)) ci oi" by auto
    from sel_map_slot(4) [OF sel conn_regs_entry(1) [OF this]] show "?fd p \<in> {0..<int ITEMS_MAX_SIZE}"
      by (simp add: invalid_fd_def)
  qed
  ultimately have "card (dom (live (snd st))) \<le> card {0..<int ITEMS_MAX_SIZE}"
    by (rule card_inj_on_le) simp
  then show ?thesis by simp
qed

lemma without_fresh:
  assumes "\<And>fd i h. R fd \<noteq> Some (i, h, Some d)" and "R fd = None"
  shows "without d (R(fd \<mapsto> (i, h, Some d))) = R"
proof
  fix x show "without d (R(fd \<mapsto> (i, h, Some d))) x = R x"
    using assms by (cases "R x") (auto simp: without_def)
qed

lemma enrolled:
  assumes a: "apart k ls js p st" and s: "newborn fd s" and fd: "0 \<le> fd" and free: "sel_map (fst st) fd = None"
    and sel: "sel_inv sel" "s_jobs sel = k" "sel_map sel = (sel_map (fst st))(fd \<mapsto> (OP_READ, SocksHandler, Some (SocksConn p)))"
  shows "server_inv ls js (upd_metrics metrics_connection_opened (put_conn p (s\<lparr>references := 1\<rparr>) (sel, snd st)))"
proof -
  let ?s = "s\<lparr>references := 1\<rparr>"
  let ?st = "put_conn p ?s (sel, snd st)"
  let ?x0 = "(snd st)\<lparr>px_conns := (px_conns (snd st))(p := None)\<rparr>"
  define x' where "x' = snd (upd_metrics metrics_connection_opened ?st)"
  have core: "core (sel_map (fst st)) ((live (snd st))(p := None)) (px_mgmt (snd st)) ls js"
    and heap: "heap_ok ?x0" and out: "p < px_next (snd st)" "p \<notin> set (px_pool (snd st))"
    and none: "\<And>fd i h. sel_map (fst st) fd \<noteq> Some (i, h, Some (SocksConn p))"
    using a by (simp_all add: apart_def)
  have l: "live x' = (live (snd st))(p \<mapsto> ?s)"
    using out by (auto simp: x'_def live_def upd_metrics_def upd_services_def put_conn_def fun_eq_iff)
  have ok: "conn_ok ?s" using s by (simp add: newborn_def conn_ok_def)
  have regs: "conn_regs (sel_map sel) p ?s OP_READ None"
    using s fd none unfolding conn_regs_def sel(3) by (auto simp: newborn_def)
  have ready: "ready (cur ?s) OP_READ None ?s"
    using s by (simp add: newborn_def ready_def state_defs cur_def)
  have "core (sel_map sel) (live x') (px_mgmt (snd st)) ls js"
  proof (rule core_merge [OF _ _ ok regs ready])
    show "core (without (SocksConn p) (sel_map sel)) ((live x')(p := None)) (px_mgmt (snd st)) ls js"
      using core without_fresh [where R = "sel_map (fst st)" and d = "SocksConn p", OF none free] l
      unfolding sel(3) by simp
  qed (simp add: l)
  moreover have "heap_ok x'"
  proof -
    have card: "unat (m_current (sv_metrics (px_services (snd st)))) = card (dom ((live (snd st))(p := None)))"
      using heap by (simp add: heap_ok_def live_without)
    have few: "card (dom ((live (snd st))(p := None))) \<le> ITEMS_MAX_SIZE"
      using few_connections [OF apart_free [OF a]] by (simp add: live_without)
    have fin: "finite (dom ((live (snd st))(p := None)))" using finite_live [OF heap] by (simp add: live_without)
    have "dom (live x') = insert p (dom ((live (snd st))(p := None)))" unfolding l by auto
    then have "card (dom (live x')) = Suc (card (dom ((live (snd st))(p := None))))"
      using fin by (simp add: card.insert_remove)
    moreover have "unat (m_current (sv_metrics (px_services (snd st))) + 1) =
        Suc (unat (m_current (sv_metrics (px_services (snd st)))))"
      using card few by (simp add: ITEMS_MAX_SIZE_def unat_word_ariths)
    ultimately have "unat (m_current (sv_metrics (px_services x'))) = card (dom (live x'))"
      using card by (simp add: x'_def upd_metrics_def upd_services_def put_conn_def metrics_connection_opened_def)
    moreover have "\<exists>s. px_conns x' q = Some s \<and> conn_ok s" if "q \<in> set (px_pool (snd st))" for q
      using heap_ok_pool [OF heap, of q] that out(2)
      by (auto simp: x'_def upd_metrics_def upd_services_def put_conn_def)
    moreover have "q < px_next (snd st)" if "px_conns x' q \<noteq> None \<or> px_mgmt (snd st) q \<noteq> None" for q
      using heap_ok_next [OF heap, of q] that out(1)
      by (cases "q = p") (simp_all add: x'_def upd_metrics_def upd_services_def put_conn_def)
    moreover have "services_inv (px_services x')" "distinct (px_pool (snd st))"
      "px_pool_size (snd st) = length (px_pool (snd st))" "px_pool_size (snd st) \<le> MAX_POOL"
      using heap by (simp_all add: heap_ok_def x'_def upd_metrics_def upd_services_def put_conn_def services_inv_def)
    moreover have "px_pool x' = px_pool (snd st)" "px_pool_size x' = px_pool_size (snd st)"
      "px_next x' = px_next (snd st)" "px_mgmt x' = px_mgmt (snd st)"
      by (simp_all add: x'_def upd_metrics_def upd_services_def put_conn_def)
    ultimately show ?thesis unfolding heap_ok_def by simp
  qed
  moreover have "px_mgmt x' = px_mgmt (snd st)" "fst (upd_metrics metrics_connection_opened ?st) = sel"
    by (simp_all add: x'_def upd_metrics_def upd_services_def put_conn_def)
  ultimately show ?thesis using sel(1) unfolding server_inv_def x'_def by simp
qed

section \<open>Accepting\<close>

text \<open>The outcome of a callback of a listener\<close>

definition listened :: "int list \<Rightarrow> listeners \<Rightarrow> int list \<Rightarrow> regs \<Rightarrow> int \<Rightarrow> 'w state \<Rightarrow> bool" where
  "listened k ls js R fd st \<longleftrightarrow> server_inv ls js st \<and> s_jobs (fst st) = k \<and> sel_map (fst st) fd = R fd"

lemma register_outcome:
  assumes inv: "sel_inv (fst st)"
  shows "\<exists>r sel. register_fd fd h i d st = Some (r, sel, snd st) \<and> sel_inv sel \<and> s_jobs sel = s_jobs (fst st)
    \<and> (if r = SELECTOR_SUCCESS
       then sel_map (fst st) fd = None \<and> sel_map sel = (sel_map (fst st))(fd \<mapsto> (i, h, d))
       else sel_map sel = sel_map (fst st))"
  using register_law [OF inv, of True unused_item fd h i d]
  by (cases "\<not> invalid_fd fd \<and> sel_map (fst st) fd = None") (auto simp: register_fd_def)

lemma passive_accept_ok:
  assumes inv: "server_inv ls js st" and os: "os_ok os" and reg: "sel_map (fst st) fd \<noteq> None"
  shows "returns (socksv5_passive_accept os mem (fd, d) st) (listened (s_jobs (fst st)) ls js (sel_map (fst st)) fd)"
proof -
  obtain r st1 where acc: "sys (os_accept os fd) st = (r, st1)" by (rule prod.exhaust)
  have inv1: "server_inv ls js st1" and sel1: "fst st1 = fst st"
    using server_inv_sys [OF inv acc] sys_frame(1) [OF acc] .
  show ?thesis
  proof (cases r)
    case None
    with acc inv1 sel1 show ?thesis by (simp add: socksv5_passive_accept_def listened_def)
  next
    case (Some ca)
    then obtain c a where ca: "r = Some (c, a)" by (cases ca) simp
    have c: "0 \<le> c" using acc ca os_okD(5) [OF os] by (auto simp: sys_def split: prod.splits)
    obtain n st2 where nio: "sys (selector_fd_set_nio os c) st1 = (n, st2)" by (rule prod.exhaust)
    have inv2: "server_inv ls js st2" and sel2: "fst st2 = fst st"
      using server_inv_sys [OF inv1 nio] sys_frame(1) [OF nio] sel1 by simp_all
    obtain r3 st3 where new: "socks5_new os mem c st2 = Some (r3, st3)" and sel3: "fst st3 = fst st"
      and r3: "case r3 of None \<Rightarrow> server_inv ls js st3
        | Some p \<Rightarrow> apart (s_jobs (fst st)) ls js p st3 \<and> (\<exists>s. get_conn p st3 = Some s \<and> newborn c s)"
      using socks5_new_ok [OF inv2 os c, of mem] unfolding sel2 by blast
    show ?thesis
    proof (cases "n < 0 \<or> r3 = None")
      case True
      with acc ca nio new inv2 sel2 r3 sel3 show ?thesis
        by (auto simp: socksv5_passive_accept_def listened_def server_inv_sys_unit)
    next
      case False
      with r3 obtain p s where p: "r3 = Some p" "apart (s_jobs (fst st)) ls js p st3" "get_conn p st3 = Some s" "newborn c s"
        by auto
      let ?s = "s\<lparr>client_addr := a\<rparr>" and ?st4 = "put_conn p (s\<lparr>client_addr := a\<rparr>) st3"
      note a4 = apart_put [OF p(2), of ?s]
      have born: "newborn c ?s" using p(4) by (simp add: newborn_def conn_ok_def cur_def)
      have "sel_inv (fst ?st4)" using a4(1) by (simp add: apart_def)
      note out = register_outcome [OF this, of c SocksHandler OP_READ "Some (SocksConn p)"]
      have f4: "fst ?st4 = fst st" using sel3 by simp
      obtain r5 sel where
        r5: "register_fd c SocksHandler OP_READ (Some (SocksConn p)) ?st4 = Some (r5, sel, snd ?st4)" "sel_inv sel"
          "s_jobs sel = s_jobs (fst st)"
        and m: "if r5 = SELECTOR_SUCCESS then sel_map (fst st) c = None
            \<and> sel_map sel = (sel_map (fst st))(c \<mapsto> (OP_READ, SocksHandler, Some (SocksConn p)))
          else sel_map sel = sel_map (fst st)" using out unfolding f4 by blast
      have got: "get_conn p (sel, snd ?st4) = Some ?s" using a4(3) by (simp add: get_conn_def)
      show ?thesis
      proof (cases "r5 = SELECTOR_SUCCESS")
        case True
        have "server_inv ls js (upd_metrics metrics_connection_opened (put_conn p (?s\<lparr>references := 1\<rparr>) (sel, snd ?st4)))"
          by (rule enrolled [OF a4(1) born c]) (use m True r5(2,3) sel3 in simp_all)
        with True False acc ca nio new p r5 m got reg show ?thesis
          by (auto simp: socksv5_passive_accept_def listened_def upd_metrics_def upd_services_def)
      next
        case failed: False
        have "apart (s_jobs (fst st)) ls js p (sel, snd ?st4)"
          using a4(1) m failed r5(2,3) sel3 by (simp add: apart_def)
        from apart_destroy [OF this got] born obtain st6 where
          "socks5_destroy p (sel, snd ?st4) = Some st6" "fst st6 = sel" "server_inv ls js st6"
          by (auto simp: newborn_def)
        with failed False acc ca nio new p r5 m reg show ?thesis
          by (auto simp: socksv5_passive_accept_def listened_def server_inv_sys_unit)
      qed
    qed
  qed
qed

end
