(* ===== verification/Mgmt_Proofs.thy ===== *)
theory Mgmt_Proofs
  imports Accept
begin

text \<open>
  The management connections of \<open>src/mgmt.c\<close>: every handler returns and keeps the invariant of the
  process, and a command is carried out only on a connection that has authenticated itself.
\<close>

section \<open>One management connection in focus\<close>

definition mgmt_buffers :: "mgmt_conn \<Rightarrow> bool" where
  "mgmt_buffers m \<longleftrightarrow> buf_inv (mc_rbuf m) \<and> b_limit (mc_rbuf m) = MGMT_RBUF
     \<and> buf_inv (mc_wbuf m) \<and> b_limit (mc_wbuf m) = MGMT_WBUF"

definition mgmt_entry :: "regs \<Rightarrow> nat \<Rightarrow> int \<Rightarrow> fd_interest \<Rightarrow> bool" where
  "mgmt_entry R p fd i \<longleftrightarrow>
     (\<forall>fd' i' h. R fd' = Some (i', h, Some (MgmtConn p)) \<longleftrightarrow> h = MgmtHandler \<and> fd' = fd \<and> i' = i)"

definition mfocus :: "int list \<Rightarrow> listeners \<Rightarrow> int list \<Rightarrow> nat \<Rightarrow> mgmt_conn \<Rightarrow> fd_interest \<Rightarrow> 'w state \<Rightarrow> bool" where
  "mfocus k ls js p m i st \<longleftrightarrow> sel_inv (fst st) \<and> s_jobs (fst st) = k \<and> heap_ok (snd st)
     \<and> px_mgmt (snd st) p = Some m \<and> mgmt_buffers m \<and> mgmt_entry (sel_map (fst st)) p (mc_fd m) i
     \<and> core (without (MgmtConn p) (sel_map (fst st))) (live (snd st)) ((px_mgmt (snd st))(p := None)) ls js"

lemma mgmt_entryD: "mgmt_entry R p fd i \<Longrightarrow> R fd = Some (i, MgmtHandler, Some (MgmtConn p))"
  by (simp add: mgmt_entry_def)

lemma mgmt_regs_entry: "mgmt_regs R p m \<longleftrightarrow> mgmt_entry R p (mc_fd m) (mgmt_interest m)"
  by (simp add: mgmt_regs_def mgmt_entry_def)

lemma mcore_split:
  assumes c: "core R L M ls js" and m: "M p = Some m"
  shows "core (without (MgmtConn p) R) L (M(p := None)) ls js"
proof (rule coreI)
  show "conn_ok s \<and> (\<exists>ci oi. conn_regs (without (MgmtConn p) R) q s ci oi \<and> ready (cur s) ci oi s)"
    if "L q = Some s" for q s
    using coreD(1) [OF c that] conn_regs_without [of "MgmtConn p" q R] by simp
  show "mgmt_ok m' \<and> mgmt_regs (without (MgmtConn p) R) q m'" if "(M(p := None)) q = Some m'" for q m'
    using coreD(2) [OF c, of q m'] that mgmt_regs_without [of "MgmtConn p" q R] by (simp split: if_splits)
  show "owner_ok L (M(p := None)) r" if "without (MgmtConn p) R fd = Some r" for fd r
  proof (cases r)
    case (fields i h d)
    then have "R fd = Some r" "d \<noteq> Some (MgmtConn p)" using that by (simp_all add: without_Some)
    with coreD(3) [OF c, of fd r] fields show ?thesis
      by (auto simp: owner_ok_def split: option.splits pointer.splits)
  qed
  show "without (MgmtConn p) R fd = Some (i, h, None) \<longleftrightarrow> i = OP_READ \<and> ls fd = Some h" for fd i h
    using coreD(4) [OF c, of fd i h] by (simp add: without_Some)
qed (rule coreD(5) [OF c], rule coreD(6) [OF c])

lemma mcore_merge:
  assumes c: "core (without (MgmtConn p) R) L (M(p := None)) ls js" and m: "M p = Some m" "mgmt_ok m" "mgmt_regs R p m"
  shows "core R L M ls js"
proof (rule coreI)
  show "conn_ok s \<and> (\<exists>ci oi. conn_regs R q s ci oi \<and> ready (cur s) ci oi s)" if "L q = Some s" for q s
    using coreD(1) [OF c that] conn_regs_without [of "MgmtConn p" q R] by simp
  show "mgmt_ok m' \<and> mgmt_regs R q m'" if "M q = Some m'" for q m'
  proof (cases "q = p")
    case True
    with m that show ?thesis by simp
  next
    case False
    with coreD(2) [OF c, of q m'] that mgmt_regs_without [of "MgmtConn p" q R] show ?thesis by simp
  qed
  show "owner_ok L M r" if r: "R fd = Some r" for fd r
  proof (cases r)
    case (fields i h d)
    show ?thesis
    proof (cases "d = Some (MgmtConn p)")
      case True
      with fields m(1) show ?thesis by (simp add: owner_ok_def)
    next
      case False
      then have "without (MgmtConn p) R fd = Some r" using r fields by (simp add: without_Some)
      from coreD(3) [OF c this] fields show ?thesis
        by (auto simp: owner_ok_def split: option.splits pointer.splits if_splits)
    qed
  qed
  show "R fd = Some (i, h, None) \<longleftrightarrow> i = OP_READ \<and> ls fd = Some h" for fd i h
    using coreD(4) [OF c, of fd i h] by (simp add: without_Some)
qed (rule coreD(5) [OF c], rule coreD(6) [OF c])

lemma mfocusI:
  assumes inv: "server_inv ls js st" and reg: "sel_map (fst st) fd = Some (i, h, Some (MgmtConn p))"
  shows "\<exists>m. h = MgmtHandler \<and> fd = mc_fd m \<and> i = mgmt_interest m \<and> mgmt_ok m
    \<and> mfocus (s_jobs (fst st)) ls js p m i st"
proof -
  have c: "core (sel_map (fst st)) (live (snd st)) (px_mgmt (snd st)) ls js" "sel_inv (fst st)" "heap_ok (snd st)"
    using inv by (simp_all add: server_inv_def)
  obtain m where m: "px_mgmt (snd st) p = Some m"
    using coreD(3) [OF c(1) reg] by (auto simp: owner_ok_def)
  have ok: "mgmt_ok m" "mgmt_regs (sel_map (fst st)) p m" using coreD(2) [OF c(1) m] by simp_all
  have e: "h = MgmtHandler" "fd = mc_fd m" "i = mgmt_interest m"
    using ok(2) reg by (simp_all add: mgmt_regs_def)
  with c m ok mcore_split [OF c(1) m] show ?thesis
    by (intro exI [of _ m]) (simp add: mfocus_def mgmt_ok_def mgmt_buffers_def mgmt_regs_entry)
qed

text \<open>The outcome of a callback of management connection \<open>p\<close> for descriptor \<open>fd\<close>\<close>

definition mgmt_event :: "int list \<Rightarrow> listeners \<Rightarrow> int list \<Rightarrow> nat \<Rightarrow> int \<Rightarrow> 'w state \<Rightarrow> bool" where
  "mgmt_event k ls js p fd st \<longleftrightarrow> server_inv ls js st \<and> s_jobs (fst st) = k
     \<and> (\<forall>i h d. sel_map (fst st) fd = Some (i, h, d) \<longrightarrow> h = MgmtHandler \<and> d = Some (MgmtConn p))"

lemma mfocus_done:
  assumes f: "mfocus k ls js p m i st" and "mgmt_ok m" and "i = mgmt_interest m"
  shows "mgmt_event k ls js p (mc_fd m) st"
proof -
  have e: "mgmt_entry (sel_map (fst st)) p (mc_fd m) i" using f by (simp add: mfocus_def)
  have "core (sel_map (fst st)) (live (snd st)) (px_mgmt (snd st)) ls js"
    by (rule mcore_merge [where p = p and m = m]) (use f assms(2,3) e in \<open>simp_all add: mfocus_def mgmt_regs_entry\<close>)
  with f mgmt_entryD [OF e] show ?thesis by (simp add: mgmt_event_def server_inv_def mfocus_def)
qed

lemma mfocus_get: "mfocus k ls js p m i st \<Longrightarrow> get_mgmt p st = Some m"
  by (simp add: mfocus_def get_mgmt_def)

lemma live_updates [simp]:
  "live (x\<lparr>px_mgmt := m\<rparr>) = live x" "live (x\<lparr>px_services := sv\<rparr>) = live x"
  "live (x\<lparr>px_world := w\<rparr>) = live x" "live (x\<lparr>px_next := n\<rparr>) = live x"
  by (simp_all add: live_def fun_eq_iff)

lemma heap_ok_put_mgmt:
  assumes "heap_ok x" and "p < px_next x"
  shows "heap_ok (x\<lparr>px_mgmt := (px_mgmt x)(p \<mapsto> m)\<rparr>)"
  using assms by (simp add: heap_ok_def)

lemma mfocus_put:
  assumes f: "mfocus k ls js p m i st" and "mgmt_buffers m'" and "mc_fd m' = mc_fd m"
  shows "mfocus k ls js p m' i (put_mgmt p m' st)"
proof -
  have "heap_ok (snd (put_mgmt p m' st))"
    using heap_ok_put_mgmt [of "snd st" p m'] heap_ok_next [of "snd st" p] f by (simp add: put_mgmt_def mfocus_def)
  with f assms(2,3) show ?thesis by (simp add: mfocus_def put_mgmt_def)
qed

lemma mfocus_sys:
  assumes f: "mfocus k ls js p m i st" and s: "sys g st = (r, st')"
  shows "mfocus k ls js p m i st'"
proof -
  have "heap_ok (snd st)" using f by (simp add: mfocus_def)
  with heap_ok_frame [of "snd st" "snd st'"] sys_frame [OF s] f show ?thesis by (simp add: mfocus_def)
qed

text \<open>The services may change as long as their invariant and the number of connections stay.\<close>

lemma mfocus_services:
  assumes f: "mfocus k ls js p m i st" and "services_inv sv"
    and "m_current (sv_metrics sv) = m_current (sv_metrics (px_services (snd st)))"
  shows "mfocus k ls js p m i (upd_services (\<lambda>_. sv) st)"
proof -
  let ?x = "(snd st)\<lparr>px_services := sv\<rparr>"
  have "heap_ok (snd st)" using f by (simp add: mfocus_def)
  then have "heap_ok ?x" using assms(2,3) unfolding heap_ok_def by simp
  with f show ?thesis by (simp add: mfocus_def upd_services_def)
qed

lemma mfocus_interest:
  assumes f: "mfocus k ls js p m i st"
  shows "\<exists>r st'. set_interest (mc_fd m) j st = Some (r, st') \<and> mfocus k ls js p m j st' \<and> snd st' = snd st"
proof -
  have inv: "sel_inv (fst st)" and e: "mgmt_entry (sel_map (fst st)) p (mc_fd m) i" using f by (simp_all add: mfocus_def)
  note reg = mgmt_entryD [OF e]
  from set_interest_law [OF inv, of "mc_fd m" j] reg obtain sel where
    sel: "selector_set_interest (mc_fd m) j (fst st) = Some (SELECTOR_SUCCESS, sel)" "sel_inv sel"
    "s_jobs sel = s_jobs (fst st)"
    "sel_map sel = (sel_map (fst st))(mc_fd m \<mapsto> (j, MgmtHandler, Some (MgmtConn p)))" by auto
  have "without (MgmtConn p) (sel_map sel) = without (MgmtConn p) (sel_map (fst st))"
    using reg by (simp add: sel(4))
  moreover have "mgmt_entry (sel_map sel) p (mc_fd m) j"
    using e unfolding mgmt_entry_def sel(4) by auto
  ultimately show ?thesis using f sel(1-3) by (simp add: mfocus_def set_interest_def)
qed

text \<open>\<open>mgmt_done\<close>: the connection is gone.\<close>

lemma mgmt_done_ok:
  assumes f: "mfocus k ls js p m i st"
  shows "returns (mgmt_done os (mc_fd m, Some (MgmtConn p)) st) (mgmt_event k ls js p (mc_fd m))"
proof -
  have inv: "sel_inv (fst st)" and e: "mgmt_entry (sel_map (fst st)) p (mc_fd m) i" using f by (simp_all add: mfocus_def)
  note reg = mgmt_entryD [OF e]
  define x' where "x' = (snd st)\<lparr>px_world := os_close os (mc_fd m) (px_world (snd st)),
    px_mgmt := (px_mgmt (snd st))(p := None)\<rparr>"
  have close: "mgmt_close os (mc_fd m, Some (MgmtConn p)) (fst st, snd st) = Some (fst st, x')"
    using mfocus_get [OF f] by (simp add: mgmt_close_def attach_mgmt_def sys_unit_def get_mgmt_def x'_def)
  from unregister_law [OF inv, where fd = "mc_fd m" and close_of = "close_of os" and x = "snd st" and x' = x'] reg close obtain sel where
    sel: "selector_unregister_fd (close_of os) (mc_fd m) (fst st, snd st) = Some (SELECTOR_SUCCESS, sel, x')"
    "sel_inv sel" "s_jobs sel = s_jobs (fst st)" "sel_map sel = (sel_map (fst st))(mc_fd m := None)" by auto
  have w: "(sel_map (fst st))(mc_fd m := None) = without (MgmtConn p) (sel_map (fst st))"
  proof
    fix fd show "((sel_map (fst st))(mc_fd m := None)) fd = without (MgmtConn p) (sel_map (fst st)) fd"
    proof (cases "sel_map (fst st) fd")
      case None
      then show ?thesis by (simp add: without_def)
    next
      case (Some r)
      then obtain i' h d where r: "sel_map (fst st) fd = Some (i', h, d)" by (cases r) auto
      have "d = Some (MgmtConn p) \<longleftrightarrow> fd = mc_fd m"
      proof
        show "d = Some (MgmtConn p) \<Longrightarrow> fd = mc_fd m" using e r by (simp add: mgmt_entry_def)
        show "fd = mc_fd m \<Longrightarrow> d = Some (MgmtConn p)" using r reg by simp
      qed
      with r show ?thesis by (simp add: without_def)
    qed
  qed
  have l: "live x' = live (snd st)" by (simp add: x'_def)
  have "heap_ok x'"
  proof -
    have "heap_ok (snd st)" using f by (simp add: mfocus_def)
    then show ?thesis unfolding heap_ok_def l by (simp add: x'_def)
  qed
  moreover have "sel_map sel (mc_fd m) = None" using sel(4) by simp
  ultimately have "mgmt_event k ls js p (mc_fd m) (sel, x')"
    using f sel w l unfolding mgmt_event_def server_inv_def by (simp add: mfocus_def x'_def)
  with sel(1) show ?thesis by (simp add: mgmt_done_def unregister_fd_def)
qed

section \<open>Processing what has arrived\<close>

lemma attach_mgmt_conn [simp]: "attach_mgmt (fd, Some (MgmtConn p)) = Some p"
  by (simp add: attach_mgmt_def)

lemma parse_auth_rc: "fst (parse_auth p u w) \<le> int (length p)"
  by (auto simp: parse_auth_def Let_def not_less simp del: of_nat_add of_nat_Suc)

text \<open>Outside 0 and -1, \<open>parse_request\<close> has found a command at the front.\<close>

lemma parse_request_found:
  assumes "parse_request p blank_req = (rc, r)" and "rc \<noteq> 0" "rc \<noteq> -1"
  obtains c where "command_ok c" "rc = command_rc c" "r = command_req c" "length (command_bytes c) \<le> length p"
    "rc = -2 \<Longrightarrow> length (command_bytes c) = 2"
proof -
  have "2 \<le> length p"
    using assms by (cases "length p < 2") (simp_all add: parse_request_def Let_def)
  with parse_request_complete [of p] assms obtain c where
    c: "command_ok c" "prefix (command_bytes c) p \<or> strict_prefix p (command_bytes c)" by auto
  have "\<not> strict_prefix p (command_bytes c)"
    using parse_request_partial [OF c(1), of p] assms by auto
  with c(2) obtain rest where rest: "p = command_bytes c @ rest" by (auto elim: prefixE)
  then have eq: "parse_request p blank_req = (command_rc c, command_req c)"
    using parse_request_command [OF c(1), of rest] by simp
  have "length (command_bytes c) = 2" if "rc = -2"
    using that eq assms(1) by (cases c) (simp_all add: command_bytes_def)
  with that [OF c(1)] eq assms(1) rest show thesis by simp
qed

lemma command_rc_bounds: "command_rc c = -2 \<or> command_rc c = int (length (command_bytes c))"
  by (cases c) simp_all

lemma smp_exec_metrics: "sv_metrics (snd (smp_exec c sv)) = sv_metrics sv"
  by (cases c) (auto simp: Let_def split: prod.splits)

lemma length_response_bytes: "length (response_bytes cmd st d) = 5 + length d"
  by (simp add: response_bytes_def bytes16_def)

text \<open>A response always fits into the write buffer.\<close>

lemma response_fits:
  assumes "mgmt_buffers m" and "length bs \<le> MGMT_WBUF"
  shows "\<exists>b. buffer_write_list (buffer_reset (mc_wbuf m)) bs = Some b \<and> buf_inv b \<and> b_limit b = MGMT_WBUF
    \<and> buf_contents b = bs"
proof -
  have b: "buf_inv (mc_wbuf m)" "b_limit (mc_wbuf m) = MGMT_WBUF" using assms(1) by (simp_all add: mgmt_buffers_def)
  from snk.put_list_fits [OF buf_reset(1) [OF b(1)], of bs] assms(2) b obtain b' where b':
    "buffer_write_list (buffer_reset (mc_wbuf m)) bs = Some b'" "buf_inv b'" "buf_contents b' = bs" by auto
  with buffer_write_list_limit [OF b'(1)] b(2) show ?thesis by auto
qed

text \<open>The end of a request: the answer is in the write buffer.\<close>

lemma mgmt_answered:
  assumes f: "mfocus k ls js p m OP_READ st" and b: "buf_inv rb" "b_limit rb = MGMT_RBUF" "buf_inv wb" "b_limit wb = MGMT_WBUF"
    and ok: "mgmt_ok (m\<lparr>mc_rbuf := rb, mc_wbuf := wb, mc_auth_ok := a, mc_close_after_write := cl, mc_state := s\<rparr>)"
    and s: "s = MGMT_AUTH_REPLY \<or> s = MGMT_RESPONSE"
  shows "returns (map_option snd (set_interest (mc_fd m) OP_WRITE (put_mgmt p
    (m\<lparr>mc_rbuf := rb, mc_wbuf := wb, mc_auth_ok := a, mc_close_after_write := cl, mc_state := s\<rparr>) st)))
    (mgmt_event k ls js p (mc_fd m))"
proof -
  let ?m = "m\<lparr>mc_rbuf := rb, mc_wbuf := wb, mc_auth_ok := a, mc_close_after_write := cl, mc_state := s\<rparr>"
  have "mfocus k ls js p ?m OP_READ (put_mgmt p ?m st)"
    using mfocus_put [OF f, of ?m] b by (simp add: mgmt_buffers_def)
  from mfocus_interest [OF this, of OP_WRITE] obtain r st' where
    "set_interest (mc_fd m) OP_WRITE (put_mgmt p ?m st) = Some (r, st')" "mfocus k ls js p ?m OP_WRITE st'" by auto
  moreover have "mgmt_event k ls js p (mc_fd ?m) st'"
    by (rule mfocus_done [OF \<open>mfocus k ls js p ?m OP_WRITE st'\<close> ok]) (use s in \<open>auto simp: mgmt_interest_def\<close>)
  ultimately show ?thesis by simp
qed

lemma try_auth_ok:
  assumes f: "mfocus k ls js p m OP_READ st" and ok: "mgmt_ok m" and s: "mc_state m = MGMT_AUTH"
  shows "returns (mgmt_try_process os mem (mc_fd m, Some (MgmtConn p)) st) (mgmt_event k ls js p (mc_fd m))"
proof -
  have b: "buf_inv (mc_rbuf m)" "b_limit (mc_rbuf m) = MGMT_RBUF" using ok by (simp_all add: mgmt_ok_def)
  let ?w = "buf_contents (mc_rbuf m)"
  obtain rc user pass where pa: "parse_auth ?w mem mem = (rc, user, pass)" by (rule prod_cases3)
  have rc: "rc \<le> int (length ?w)" using parse_auth_rc [of ?w mem mem] pa by simp
  define ok' where "ok' \<longleftrightarrow> strcmp_eq user (cfg_admin_user (config st)) \<and> strcmp_eq pass (cfg_admin_pass (config st))"
  note run = mgmt_try_process_def mfocus_get [OF f] buf_read_ptr [OF b(1)] buf_peek [OF b(1)] s pa
  consider "rc = 0" | "rc < 0" | "0 < rc" by linarith
  then show ?thesis
  proof cases
    case 1
    have "mgmt_event k ls js p (mc_fd m) st"
      by (rule mfocus_done [OF f ok]) (simp add: mgmt_interest_def s)
    with 1 show ?thesis by (simp add: run)
  next
    case 2
    with mgmt_done_ok [OF f] show ?thesis by (simp add: run)
  next
    case 3
    then have "nat rc \<le> length ?w" "int (nat rc) = rc" using rc by linarith+
    with buf_read_adv [OF b(1)] b(2) obtain rb where rb: "buffer_read_adv (mc_rbuf m) rc = Some rb"
      "buf_inv rb" "b_limit rb = MGMT_RBUF" by metis
    have bufs: "mgmt_buffers m" using f by (simp add: mfocus_def)
    obtain wb where wb: "buffer_write_list (buffer_reset (mc_wbuf m)) [SMP_VERSION, if ok' then SMP_AUTH_OK else SMP_AUTH_FAILED] = Some wb"
      "buf_inv wb" "b_limit wb = MGMT_WBUF"
      using response_fits [OF bufs, of "[SMP_VERSION, if ok' then SMP_AUTH_OK else SMP_AUTH_FAILED]"]
      by (auto simp: MGMT_WBUF_def)
    obtain wb1 where w1: "buffer_write (buffer_reset (mc_wbuf m)) SMP_VERSION = Some wb1"
      "buffer_write wb1 (if ok' then SMP_AUTH_OK else SMP_AUTH_FAILED) = Some wb"
      using wb(1) by (cases "buffer_write (buffer_reset (mc_wbuf m)) SMP_VERSION") (simp_all split del: if_split)
    let ?m = "m\<lparr>mc_rbuf := rb, mc_wbuf := wb, mc_auth_ok := ok', mc_close_after_write := \<not> ok', mc_state := MGMT_AUTH_REPLY\<rparr>"
    have "mgmt_ok ?m" using rb wb by (simp add: mgmt_ok_def)
    from mgmt_answered [OF f rb(2,3) wb(2,3) this] show ?thesis
      using 3 rb(1) w1 by (simp add: run ok'_def Let_def split del: if_split)
  qed
qed

lemma try_request_ok:
  fixes st :: "'w state"
  assumes f: "mfocus k ls js p m OP_READ st" and ok: "mgmt_ok m" and s: "mc_state m = MGMT_REQUEST"
  shows "returns (mgmt_try_process os mem (mc_fd m, Some (MgmtConn p)) st) (mgmt_event k ls js p (mc_fd m))"
proof -
  have b: "buf_inv (mc_rbuf m)" "b_limit (mc_rbuf m) = MGMT_RBUF" and auth: "mc_auth_ok m"
    using ok s by (simp_all add: mgmt_ok_def)
  have bufs: "mgmt_buffers m" and sv: "services_inv (px_services (snd st))"
    using f by (simp_all add: mfocus_def heap_ok_def)
  let ?w = "buf_contents (mc_rbuf m)" and ?wb = "buffer_reset (mc_wbuf m)"
  let ?m0 = "m\<lparr>mc_wbuf := ?wb\<rparr>"
  have f0: "mfocus k ls js p ?m0 OP_READ (put_mgmt p ?m0 st)"
    using mfocus_put [OF f, of ?m0] bufs by (simp add: mgmt_buffers_def)
  obtain rc r where pr: "parse_request ?w blank_req = (rc, r)" by (rule prod.exhaust)
  note run = mgmt_try_process_def mfocus_get [OF f] buf_read_ptr [OF b(1)] buf_peek [OF b(1)] s pr
  show ?thesis
  proof (cases "rc = 0 \<or> rc = -1")
    case True
    have "mgmt_event k ls js p (mc_fd m) st"
      by (rule mfocus_done [OF f ok]) (simp add: mgmt_interest_def s)
    with True mgmt_done_ok [OF f0] show ?thesis by (auto simp: run Let_def)
  next
    case False
    then obtain c where c: "command_ok c" "rc = command_rc c" "r = command_req c"
      "length (command_bytes c) \<le> length ?w" "rc = -2 \<Longrightarrow> length (command_bytes c) = 2"
      using parse_request_found [OF pr] by blast
    have same: "?m0\<lparr>mc_rbuf := rb, mc_wbuf := wb, mc_auth_ok := mc_auth_ok m,
        mc_close_after_write := mc_close_after_write m, mc_state := MGMT_RESPONSE\<rparr> =
      m\<lparr>mc_rbuf := rb, mc_wbuf := wb, mc_state := MGMT_RESPONSE\<rparr>" for rb wb
      by (cases m) simp
    have ans: "returns (map_option snd (set_interest (mc_fd m) OP_WRITE (put_mgmt p
        (m\<lparr>mc_rbuf := rb, mc_wbuf := wb, mc_state := MGMT_RESPONSE\<rparr>) st'))) (mgmt_event k ls js p (mc_fd m))"
      if "mfocus k ls js p ?m0 OP_READ st'" "buf_inv rb" "b_limit rb = MGMT_RBUF" "buf_inv wb" "b_limit wb = MGMT_WBUF"
      for st' :: "'w state" and rb wb
      using mgmt_answered [OF that, where a = "mc_auth_ok m" and cl = "mc_close_after_write m" and s = MGMT_RESPONSE] that(2-5) auth
      unfolding same by (simp add: mgmt_ok_def)
    show ?thesis
    proof (cases "rc = -2")
      case True
      obtain rb where rb: "buffer_read_adv (mc_rbuf m) 2 = Some rb" "buf_inv rb" "b_limit rb = MGMT_RBUF"
        using buf_read_adv [OF b(1), of 2] c(4) c(5) [OF True] b(2) by auto
      obtain wb where wb: "resp_simple ?wb (rq_cmd r) SMP_UNKNOWN_COMMAND = Some wb" "buf_inv wb" "b_limit wb = MGMT_WBUF"
        using response_fits [OF bufs, of "response_bytes (rq_cmd r) SMP_UNKNOWN_COMMAND []"]
        by (auto simp: resp_simple_list length_response_bytes MGMT_WBUF_def)
      from ans [OF f0 rb(2,3) wb(2,3)] show ?thesis
        using rb(1) wb(1) True by (simp add: run Let_def)
    next
      case rc: False
      then have len: "rc = int (length (command_bytes c))" using c(2) command_rc_bounds by metis
      obtain rb where rb: "buffer_read_adv (mc_rbuf m) rc = Some rb" "buf_inv rb" "b_limit rb = MGMT_RBUF"
        using buf_read_adv [OF b(1) c(4)] len b(2) by auto
      let ?e = "smp_exec c (px_services (snd st))"
      obtain wb where wb: "buffer_write_list ?wb (response_bytes (command_code c) (fst (fst ?e)) (snd (fst ?e))) = Some wb"
        "buf_inv wb" "b_limit wb = MGMT_WBUF"
        using response_fits [OF bufs, of "response_bytes (command_code c) (fst (fst ?e)) (snd (fst ?e))"]
          length_smp_exec [OF sv, of c] by (auto simp: length_response_bytes MGMT_WBUF_def)
      have pr2: "mgmt_process_request r (px_services (snd (put_mgmt p ?m0 st))) ?wb = Some (wb, snd ?e)"
        using process_request_list [OF sv c(1), of ?wb] wb(1) by (simp add: c(3) put_mgmt_def)
      have "mfocus k ls js p ?m0 OP_READ (upd_services (\<lambda>_. snd ?e) (put_mgmt p ?m0 st))"
        by (rule mfocus_services [OF f0 smp_exec_inv [OF sv]]) (simp add: smp_exec_metrics put_mgmt_def)
      from ans [OF this rb(2,3) wb(2,3)] show ?thesis
        using rb(1) pr2 rc False by (simp add: run Let_def)
    qed
  qed
qed

section \<open>The handlers\<close>

lemma try_process_ok:
  assumes f: "mfocus k ls js p m OP_READ st" and ok: "mgmt_ok m" and "mgmt_interest m = OP_READ"
  shows "returns (mgmt_try_process os mem (mc_fd m, Some (MgmtConn p)) st) (mgmt_event k ls js p (mc_fd m))"
  using try_auth_ok [OF f ok] try_request_ok [OF f ok] assms(3)
  by (cases "mc_state m") (auto simp: mgmt_interest_def op_defs)

lemma mgmt_read_ok:
  assumes inv: "server_inv ls js st" and reg: "sel_map (fst st) fd = Some (i, h, Some (MgmtConn p))"
    and "wants OP_READ i" and os: "os_ok os"
  shows "returns (mgmt_read os mem (fd, Some (MgmtConn p)) st) (mgmt_event (s_jobs (fst st)) ls js p fd)"
proof -
  obtain m where m: "fd = mc_fd m" "i = mgmt_interest m" "mgmt_ok m" and f0: "mfocus (s_jobs (fst st)) ls js p m i st"
    using mfocusI [OF inv reg] by auto
  have i: "i = OP_READ" using m(2) assms(3) by (auto simp: mgmt_interest_def wants_def op_defs split: if_splits)
  note f = f0 [unfolded i]
  have b: "buf_inv (mc_rbuf m)" "b_limit (mc_rbuf m) = MGMT_RBUF" using m(3) by (simp_all add: mgmt_ok_def)
  let ?b = "mc_rbuf m"
  obtain r st' where sys: "sys (os_recv os (mc_fd m) (buf_room ?b)) st = (r, st')" by (rule prod.exhaust)
  note f1 = mfocus_sys [OF f sys]
  have same: "mgmt_event (s_jobs (fst st)) ls js p (mc_fd m) st'"
    by (rule mfocus_done [OF f1 m(3)]) (use m(2) i in simp)
  note run = mgmt_read_def mfocus_get [OF f] buf_write_ptr [OF b(1)] m(1) sys
  show ?thesis
  proof (cases "buf_room ?b = 0")
    case True
    with mgmt_done_ok [OF f] show ?thesis by (simp add: run)
  next
    case room: False
    show ?thesis
    proof (cases "\<exists>bs. r = Inr bs \<and> bs \<noteq> []")
      case False
      with room same mgmt_done_ok [OF f1] show ?thesis by (cases r) (simp_all add: run)
    next
      case True
      then obtain bs where bs: "r = Inr bs" "bs \<noteq> []" by auto
      then have "length bs \<le> buf_room ?b"
        using sys os_okD(1) [OF os] by (auto simp: sys_def split: prod.splits)
      from buf_poke_adv [OF b(1) this bs(2)] b(2) obtain rb where rb:
        "buffer_write_adv (buffer_poke ?b (b_write ?b) bs) (int (length bs)) = Some rb" "buf_inv rb" "b_limit rb = MGMT_RBUF"
        by auto
      let ?m = "m\<lparr>mc_rbuf := rb\<rparr>"
      have f2: "mfocus (s_jobs (fst st)) ls js p ?m OP_READ (put_mgmt p ?m st')"
        using mfocus_put [OF f1, of ?m] rb f1 by (simp add: mgmt_buffers_def mfocus_def)
      have ok: "mgmt_ok ?m" using m(3) rb by (simp add: mgmt_ok_def)
      have "mgmt_interest ?m = OP_READ" using m(2) i by (simp add: mgmt_interest_def)
      from try_process_ok [OF f2 ok this, of os mem] show ?thesis
        using room bs rb(1) by (simp add: run)
    qed
  qed
qed

lemma mgmt_write_ok:
  assumes inv: "server_inv ls js st" and reg: "sel_map (fst st) fd = Some (i, h, Some (MgmtConn p))"
    and "wants OP_WRITE i" and os: "os_ok os"
  shows "returns (mgmt_write os mem (fd, Some (MgmtConn p)) st) (mgmt_event (s_jobs (fst st)) ls js p fd)"
proof -
  obtain m where m: "fd = mc_fd m" "i = mgmt_interest m" "mgmt_ok m" and f0: "mfocus (s_jobs (fst st)) ls js p m i st"
    using mfocusI [OF inv reg] by auto
  have i: "i = OP_WRITE" "mc_state m \<noteq> MGMT_AUTH" "mc_state m \<noteq> MGMT_REQUEST"
    using m(2) assms(3) by (auto simp: mgmt_interest_def wants_def op_defs split: if_splits)
  note f = f0 [unfolded i]
  have b: "buf_inv (mc_wbuf m)" "b_limit (mc_wbuf m) = MGMT_WBUF" and bufs: "mgmt_buffers m"
    using m(3) f by (simp_all add: mgmt_ok_def mfocus_def)
  let ?b = "mc_wbuf m"
  obtain r st' where sys: "sys (os_send os (mc_fd m) (buf_contents ?b)) st = (r, st')" by (rule prod.exhaust)
  note f1 = mfocus_sys [OF f sys]
  have same: "mgmt_event (s_jobs (fst st)) ls js p (mc_fd m) st'"
    by (rule mfocus_done [OF f1 m(3)]) (use m(2) i in simp)
  note run = mgmt_write_def mfocus_get [OF f] buf_read_ptr [OF b(1)] buf_peek [OF b(1)] m(1) sys
  show ?thesis
  proof (cases r)
    case (Inl e)
    with same mgmt_done_ok [OF f1] show ?thesis by (simp add: run)
  next
    case (Inr n)
    then have "n \<le> length (buf_contents ?b)"
      using sys os_okD(2) [OF os] by (auto simp: sys_def split: prod.splits)
    from buf_read_adv [OF b(1) this] b(2) obtain wb where wb: "buffer_read_adv ?b (int n) = Some wb" "buf_inv wb"
      "b_limit wb = MGMT_WBUF" by auto
    let ?m1 = "m\<lparr>mc_wbuf := wb\<rparr>" and ?m2 = "m\<lparr>mc_wbuf := wb, mc_state := MGMT_REQUEST\<rparr>"
    have f2: "mfocus (s_jobs (fst st)) ls js p ?m1 OP_WRITE (put_mgmt p ?m1 st')"
      and f3: "mfocus (s_jobs (fst st)) ls js p ?m2 OP_WRITE (put_mgmt p ?m2 st')"
      using mfocus_put [OF f1, of ?m1] mfocus_put [OF f1, of ?m2] wb bufs by (simp_all add: mgmt_buffers_def)
    have ok1: "mgmt_ok ?m1" using m(3) wb by (simp add: mgmt_ok_def)
    have stay: "mgmt_event (s_jobs (fst st)) ls js p (mc_fd m) (put_mgmt p ?m1 st')"
      using mfocus_done [OF f2 ok1] i m(2) by (simp add: mgmt_interest_def)
    obtain r4 st4 where st4: "set_interest (mc_fd m) OP_READ (put_mgmt p ?m2 st') = Some (r4, st4)"
      and f4: "mfocus (s_jobs (fst st)) ls js p ?m2 OP_READ st4"
      using mfocus_interest [OF f3, of OP_READ] by auto
    have next_: "returns (mgmt_try_process os mem (mc_fd m, Some (MgmtConn p)) st4) (mgmt_event (s_jobs (fst st)) ls js p (mc_fd m))"
      if "\<not> mc_close_after_write m"
    proof -
      have "mc_auth_ok m" using m(3) that i by (cases "mc_state m") (simp_all add: mgmt_ok_def)
      then have "mgmt_ok ?m2" using ok1 by (simp add: mgmt_ok_def)
      from try_process_ok [OF f4 this] show ?thesis by (simp add: mgmt_interest_def)
    qed
    show ?thesis
      using Inr wb(1) stay mgmt_done_ok [OF f2] st4 next_ by (simp add: run Let_def)
  qed
qed

section \<open>Accepting\<close>

lemma mgmt_ok_new: "mgmt_ok (mgmt_new fd)" "mgmt_interest (mgmt_new fd) = OP_READ"
  by (simp_all add: mgmt_ok_def mgmt_new_def mgmt_interest_def)

lemma heap_ok_next_id: "heap_ok x \<Longrightarrow> heap_ok (x\<lparr>px_next := px_next x + 1\<rparr>)"
  by (auto simp: heap_ok_def less_Suc_eq)

lemma mgmt_enrolled:
  assumes inv: "server_inv ls js st" and free: "sel_map (fst st) fd = None" and p: "p = px_next (snd st)"
    and sel: "sel_inv sel" "sel_map sel = (sel_map (fst st))(fd \<mapsto> (OP_READ, MgmtHandler, Some (MgmtConn p)))"
  shows "server_inv ls js (sel, (snd st)\<lparr>px_next := px_next (snd st) + 1, px_mgmt := (px_mgmt (snd st))(p \<mapsto> mgmt_new fd)\<rparr>)"
proof -
  have c: "core (sel_map (fst st)) (live (snd st)) (px_mgmt (snd st)) ls js" and heap: "heap_ok (snd st)"
    using inv by (simp_all add: server_inv_def)
  have fresh: "px_mgmt (snd st) p = None" using heap_ok_next [OF heap, of p] p by blast
  have none: "sel_map (fst st) fd' \<noteq> Some (i, h, Some (MgmtConn p))" for fd' i h
    using coreD(3) [OF c, of fd' "(i, h, Some (MgmtConn p))"] fresh by (auto simp: owner_ok_def)
  have "mgmt_regs (sel_map sel) p (mgmt_new fd)"
    using none unfolding mgmt_regs_def sel(2) mgmt_ok_new by (auto simp: mgmt_new_def)
  moreover have "without (MgmtConn p) (sel_map sel) = sel_map (fst st)"
    unfolding sel(2) by (rule without_fresh) (rule none, rule free)
  moreover have "((px_mgmt (snd st))(p \<mapsto> mgmt_new fd))(p := None) = px_mgmt (snd st)"
    using fresh by (simp add: fun_upd_idem)
  ultimately have "core (sel_map sel) (live (snd st)) ((px_mgmt (snd st))(p \<mapsto> mgmt_new fd)) ls js"
    using c mcore_merge [of p "sel_map sel" "live (snd st)" "(px_mgmt (snd st))(p \<mapsto> mgmt_new fd)" ls js "mgmt_new fd"]
    by (simp only: mgmt_ok_new fun_upd_same)
  moreover have "heap_ok ((snd st)\<lparr>px_next := px_next (snd st) + 1, px_mgmt := (px_mgmt (snd st))(p \<mapsto> mgmt_new fd)\<rparr>)"
    using heap_ok_put_mgmt [OF heap_ok_next_id [OF heap], of p "mgmt_new fd"] p by simp
  ultimately show ?thesis using sel(1) by (simp add: server_inv_def)
qed

lemma mgmt_accept_ok:
  assumes inv: "server_inv ls js st" and os: "os_ok os" and reg: "sel_map (fst st) fd \<noteq> None"
  shows "returns (mgmt_passive_accept os (fd, d) st) (listened (s_jobs (fst st)) ls js (sel_map (fst st)) fd)"
proof -
  obtain r st1 where acc: "sys (os_accept os fd) st = (r, st1)" by (rule prod.exhaust)
  have inv1: "server_inv ls js st1" and sel1: "fst st1 = fst st"
    using server_inv_sys [OF inv acc] sys_frame(1) [OF acc] .
  show ?thesis
  proof (cases r)
    case None
    with acc inv1 sel1 show ?thesis by (simp add: mgmt_passive_accept_def listened_def)
  next
    case (Some ca)
    then obtain c a where ca: "r = Some (c, a)" by (cases ca) simp
    obtain n st2 where nio: "sys (selector_fd_set_nio os c) st1 = (n, st2)" by (rule prod.exhaust)
    have inv2: "server_inv ls js st2" and sel2: "fst st2 = fst st"
      using server_inv_sys [OF inv1 nio] sys_frame(1) [OF nio] sel1 by simp_all
    obtain ok st3 where al: "sys (os_calloc_ok os) st2 = (ok, st3)" by (rule prod.exhaust)
    have inv3: "server_inv ls js st3" and sel3: "fst st3 = fst st"
      using server_inv_sys [OF inv2 al] sys_frame(1) [OF al] sel2 by simp_all
    show ?thesis
    proof (cases "n < 0 \<or> \<not> ok")
      case True
      with acc ca nio al inv2 sel2 inv3 sel3 show ?thesis
        by (auto simp: mgmt_passive_accept_def listened_def server_inv_sys_unit)
    next
      case False
      let ?p = "px_next (snd st3)"
      let ?x = "(snd st3)\<lparr>px_next := ?p + 1, px_mgmt := (px_mgmt (snd st3))(?p \<mapsto> mgmt_new c)\<rparr>"
      have "sel_inv (fst st)" using inv by (simp add: server_inv_def)
      with register_outcome [of "(fst st, ?x)" c MgmtHandler OP_READ "Some (MgmtConn ?p)"] obtain r5 sel where
        r5: "register_fd c MgmtHandler OP_READ (Some (MgmtConn ?p)) (fst st, ?x) = Some (r5, sel, ?x)" "sel_inv sel"
          "s_jobs sel = s_jobs (fst st)"
        and m: "if r5 = SELECTOR_SUCCESS then sel_map (fst st) c = None
            \<and> sel_map sel = (sel_map (fst st))(c \<mapsto> (OP_READ, MgmtHandler, Some (MgmtConn ?p)))
          else sel_map sel = sel_map (fst st)" unfolding fst_conv snd_conv by blast
      note run = mgmt_passive_accept_def acc ca nio al put_mgmt_def Let_def sel3
      show ?thesis
      proof (cases "r5 = SELECTOR_SUCCESS")
        case True
        have "server_inv ls js (sel, ?x)"
          by (rule mgmt_enrolled [OF inv3 _ refl r5(2)]) (use m True sel3 in simp_all)
        with True False m r5 reg show ?thesis by (auto simp: run listened_def)
      next
        case failed: False
        let ?y = "?x\<lparr>px_mgmt := (px_mgmt ?x)(?p := None)\<rparr>"
        have c: "core (sel_map (fst st)) (live (snd st3)) (px_mgmt (snd st3)) ls js" and heap: "heap_ok (snd st3)"
          using inv3 sel3 by (simp_all add: server_inv_def)
        have "px_mgmt (snd st3) ?p = None" using heap_ok_next [OF heap, of ?p] by blast
        then have y: "?y = (snd st3)\<lparr>px_next := ?p + 1\<rparr>" by (simp add: fun_upd_idem)
        have "server_inv ls js (sel, ?y)"
          unfolding y using c m failed r5(2) heap_ok_next_id [OF heap] by (simp add: server_inv_def)
        with failed False m r5 reg show ?thesis by (auto simp: run listened_def server_inv_sys_unit)
      qed
    qed
  qed
qed

section \<open>What a client gets\<close>

text \<open>The bytes of a command, as far as they have arrived, are followed by others. The connection answers
  with the frame of the response and the services are those after the command.\<close>

definition executed :: "command \<Rightarrow> byte list \<Rightarrow> services \<Rightarrow> nat \<Rightarrow> int \<Rightarrow> 'w state \<Rightarrow> bool" where
  "executed c rest sv p fd st \<longleftrightarrow> (\<exists>m. px_mgmt (snd st) p = Some m \<and> mc_state m = MGMT_RESPONSE
     \<and> px_services (snd st) = snd (smp_exec c sv) \<and> buf_contents (mc_rbuf m) = rest
     \<and> buf_contents (mc_wbuf m) = response_bytes (command_code c) (fst (fst (smp_exec c sv))) (snd (fst (smp_exec c sv)))
     \<and> sel_map (fst st) fd = Some (OP_WRITE, MgmtHandler, Some (MgmtConn p)))"

lemma respond:
  fixes st :: "'w state"
  assumes f: "mfocus k ls js p m OP_READ st" and b: "buf_inv rb" "b_limit rb = MGMT_RBUF" "buf_inv wb" "b_limit wb = MGMT_WBUF"
    and "buf_contents rb = rest" "px_services (snd st) = snd (smp_exec c sv)"
    "buf_contents wb = response_bytes (command_code c) (fst (fst (smp_exec c sv))) (snd (fst (smp_exec c sv)))"
  shows "returns (map_option snd (set_interest (mc_fd m) OP_WRITE (put_mgmt p
    (m\<lparr>mc_rbuf := rb, mc_wbuf := wb, mc_state := MGMT_RESPONSE\<rparr>) st))) (executed c rest sv p (mc_fd m))"
proof -
  let ?m = "m\<lparr>mc_rbuf := rb, mc_wbuf := wb, mc_state := MGMT_RESPONSE\<rparr>"
  have "mfocus k ls js p ?m OP_READ (put_mgmt p ?m st)"
    using mfocus_put [OF f, of ?m] b by (simp add: mgmt_buffers_def)
  from mfocus_interest [OF this, of OP_WRITE] obtain r st' where
    st': "set_interest (mc_fd m) OP_WRITE (put_mgmt p ?m st) = Some (r, st')" "mfocus k ls js p ?m OP_WRITE st'"
    "snd st' = snd (put_mgmt p ?m st)" by auto
  have "mgmt_entry (sel_map (fst st')) p (mc_fd m) OP_WRITE" using st'(2) by (simp add: mfocus_def)
  from mgmt_entryD [OF this] st' assms(6-8) show ?thesis
    by (simp add: executed_def put_mgmt_def)
qed

lemma request_executed:
  fixes st :: "'w state"
  assumes f: "mfocus k ls js p m OP_READ st" and s: "mc_state m = MGMT_REQUEST"
    and w: "buf_contents (mc_rbuf m) = command_bytes c @ rest" and c: "command_ok c"
  shows "returns (mgmt_try_process os mem (mc_fd m, Some (MgmtConn p)) st)
    (executed c rest (px_services (snd st)) p (mc_fd m))"
proof -
  have bufs: "mgmt_buffers m" and sv: "services_inv (px_services (snd st))"
    using f by (simp_all add: mfocus_def heap_ok_def)
  then have b: "buf_inv (mc_rbuf m)" "b_limit (mc_rbuf m) = MGMT_RBUF" by (simp_all add: mgmt_buffers_def)
  let ?wb = "buffer_reset (mc_wbuf m)" and ?n = "length (command_bytes c)"
  let ?m0 = "m\<lparr>mc_wbuf := ?wb\<rparr>" and ?e = "smp_exec c (px_services (snd st))"
  have f0: "mfocus k ls js p ?m0 OP_READ (put_mgmt p ?m0 st)"
    using mfocus_put [OF f, of ?m0] bufs by (simp add: mgmt_buffers_def)
  obtain rb where rb: "buffer_read_adv (mc_rbuf m) (int ?n) = Some rb" "buf_inv rb" "b_limit rb = MGMT_RBUF"
    "buf_contents rb = rest"
    using buf_read_adv [OF b(1), of ?n] b(2) w by auto
  obtain wb where wb: "buffer_write_list ?wb (response_bytes (command_code c) (fst (fst ?e)) (snd (fst ?e))) = Some wb"
    "buf_inv wb" "b_limit wb = MGMT_WBUF" "buf_contents wb = response_bytes (command_code c) (fst (fst ?e)) (snd (fst ?e))"
    using response_fits [OF bufs, of "response_bytes (command_code c) (fst (fst ?e)) (snd (fst ?e))"]
      length_smp_exec [OF sv, of c] by (auto simp: length_response_bytes MGMT_WBUF_def)
  have pr: "parse_request (buf_contents (mc_rbuf m)) blank_req = (command_rc c, command_req c)"
    using parse_request_command [OF c] by (simp add: w)
  note run = mgmt_try_process_def mfocus_get [OF f] buf_read_ptr [OF b(1)] buf_peek [OF b(1)] s pr
  show ?thesis
  proof (cases "\<exists>x. c = CmdUnknown x")
    case True
    then obtain x where x: "c = CmdUnknown x" by blast
    have adv: "buffer_read_adv (mc_rbuf m) 2 = Some rb"
      using rb(1) by (simp add: x command_bytes_def)
    have "px_services (snd (put_mgmt p ?m0 st)) = snd ?e" by (simp add: x put_mgmt_def)
    from respond [OF f0 rb(2,3) wb(2,3) rb(4) this wb(4)] wb(1) show ?thesis
      by (simp add: run adv x resp_simple_list Let_def)
  next
    case False
    then have "command_rc c = int ?n" by (cases c) simp_all
    moreover have "0 < ?n" by (simp add: command_bytes_def)
    ultimately have rc: "command_rc c = int ?n" "0 < ?n" by auto
    have "mfocus k ls js p ?m0 OP_READ (upd_services (\<lambda>_. snd ?e) (put_mgmt p ?m0 st))"
      by (rule mfocus_services [OF f0 smp_exec_inv [OF sv]]) (simp add: smp_exec_metrics put_mgmt_def)
    from respond [OF this rb(2,3) wb(2,3) rb(4) _ wb(4)]
    have "returns (map_option snd (set_interest (mc_fd m) OP_WRITE (put_mgmt p
        (m\<lparr>mc_rbuf := rb, mc_wbuf := wb, mc_state := MGMT_RESPONSE\<rparr>) (upd_services (\<lambda>_. snd ?e) (put_mgmt p ?m0 st)))))
      (executed c rest (px_services (snd st)) p (mc_fd m))" by (simp add: upd_services_def)
    moreover have "mgmt_process_request (command_req c) (px_services (snd (put_mgmt p ?m0 st))) ?wb = Some (wb, snd ?e)"
      using process_request_list [OF sv c, of ?wb] wb(1) by (simp add: put_mgmt_def)
    ultimately show ?thesis using rb(1) rc by (simp add: run Let_def)
  qed
qed

text \<open>\<open>mgmt_read\<close> when the rest of a command arrives\<close>

lemma command_read:
  fixes st :: "'w state"
  assumes inv: "server_inv ls js st" and m: "px_mgmt (snd st) p = Some m" and s: "mc_state m = MGMT_REQUEST"
    and os: "os_ok os"
    and r: "os_recv os (mc_fd m) (buf_room (mc_rbuf m)) (px_world (snd st)) = (Inr bs, w)"
    and bs: "bs \<noteq> []" "buf_contents (mc_rbuf m) @ bs = command_bytes c @ rest" and c: "command_ok c"
  shows "returns (mgmt_read os mem (mc_fd m, Some (MgmtConn p)) st)
    (executed c rest (px_services (snd st)) p (mc_fd m))"
proof -
  have k: "core (sel_map (fst st)) (live (snd st)) (px_mgmt (snd st)) ls js" using inv by (simp add: server_inv_def)
  have ok: "mgmt_ok m" and regs: "mgmt_regs (sel_map (fst st)) p m" using coreD(2) [OF k m] by simp_all
  then have reg: "sel_map (fst st) (mc_fd m) = Some (mgmt_interest m, MgmtHandler, Some (MgmtConn p))"
    by (simp add: mgmt_regs_def)
  have i: "mgmt_interest m = OP_READ" by (simp add: mgmt_interest_def s)
  obtain m' where "mfocus (s_jobs (fst st)) ls js p m' OP_READ st" using mfocusI [OF inv reg] i by auto
  moreover from this m have "m' = m" using mfocus_get by (fastforce simp: get_mgmt_def)
  ultimately have f: "mfocus (s_jobs (fst st)) ls js p m OP_READ st" by simp
  let ?b = "mc_rbuf m"
  have b: "buf_inv ?b" "b_limit ?b = MGMT_RBUF" using ok by (simp_all add: mgmt_ok_def)
  have sys: "sys (os_recv os (mc_fd m) (buf_room ?b)) st = (Inr bs, sys_unit (\<lambda>_. w) st)"
    using r by (simp add: sys_def sys_unit_def)
  note f1 = mfocus_sys [OF f sys]
  have len: "length bs \<le> buf_room ?b" using os_okD(1) [OF os r] .
  with bs(1) have room: "buf_room ?b \<noteq> 0" by (cases bs) auto
  from buf_poke_adv [OF b(1) len bs(1)] b(2) obtain rb where rb:
    "buffer_write_adv (buffer_poke ?b (b_write ?b) bs) (int (length bs)) = Some rb" "buf_inv rb" "b_limit rb = MGMT_RBUF"
    "buf_contents rb = buf_contents ?b @ bs" by auto
  let ?m = "m\<lparr>mc_rbuf := rb\<rparr>" and ?st = "put_mgmt p (m\<lparr>mc_rbuf := rb\<rparr>) (sys_unit (\<lambda>_. w) st)"
  have f2: "mfocus (s_jobs (fst st)) ls js p ?m OP_READ ?st"
    using mfocus_put [OF f1, of ?m] rb f1 by (simp add: mgmt_buffers_def mfocus_def)
  have "px_services (snd ?st) = px_services (snd st)" by (simp add: put_mgmt_def sys_unit_def)
  with request_executed [OF f2 _ _ c, of rest os mem] s rb(4) bs room rb(1) show ?thesis
    by (simp add: mgmt_read_def mfocus_get [OF f] buf_write_ptr [OF b(1)] sys)
qed

end
