(* ===== verification/Server.thy ===== *)
theory Server
  imports Main_Loop Mgmt_Proofs
begin

text \<open>
  The whole server: the multiplexer with the handlers of the program is an instance of the contract
  between the event loop and its client, so one turn of the loop, whatever \<open>pselect\<close> answers, never
  faults and keeps the invariant. The steps of the process (turns of the main loop, and the end of a
  resolver thread) are a transition relation whose reachable states all satisfy it.
\<close>

section \<open>The handlers fulfil the contract of the multiplexer\<close>

definition serving ::
    "'w os \<Rightarrow> byte list \<Rightarrow> listeners \<Rightarrow> int list \<Rightarrow> 'w state \<Rightarrow> bool" where
  "serving os mem ls js st \<longleftrightarrow> os_ok os \<and> length mem = SOCKADDR_TO_HUMAN_MIN \<and> server_inv ls js st"

lemma sel_updates [simp]:
  "sel_inv (s\<lparr>s_slave_r := r\<rparr>) = sel_inv s" "sel_inv (s\<lparr>s_slave_w := r\<rparr>) = sel_inv s"
  "sel_inv (s\<lparr>s_jobs := k\<rparr>) = sel_inv s"
  "sel_map (s\<lparr>s_slave_r := r\<rparr>) = sel_map s" "sel_map (s\<lparr>s_slave_w := r\<rparr>) = sel_map s"
  "sel_map (s\<lparr>s_jobs := k\<rparr>) = sel_map s"
  by (simp_all add: sel_inv_def sel_wanting_def sel_map_def fun_eq_iff)

lemma listener_entry:
  assumes "server_inv ls js st" and "sel_map (fst st) fd = Some (i, h, None)"
  shows "i = OP_READ \<and> ls fd = Some h \<and> (h = SocksListener \<or> h = MgmtListener)"
proof -
  have c: "core (sel_map (fst st)) (live (snd st)) (px_mgmt (snd st)) ls js" using assms(1) by (simp add: server_inv_def)
  from coreD(3) [OF c assms(2)] coreD(4) [OF c, of fd i h] assms(2) show ?thesis by (simp add: owner_ok_def)
qed

lemma mgmt_handler:
  assumes "server_inv ls js st" and "sel_map (fst st) fd = Some (i, h, Some (MgmtConn p))"
  shows "h = MgmtHandler"
  using mfocusI [OF assms] by auto

lemma serving_read:
  assumes inv: "serving os mem ls js st" and reg: "sel_map (fst st) fd = Some (i, h, d)" and i: "wants OP_READ i"
  shows "\<exists>f st'. handle_read (handlers os mem mem' h) = Some f \<and> f (fd, d) st = Some st' \<and> serving os mem ls js st'
    \<and> s_jobs (fst st') = s_jobs (fst st)
    \<and> (\<forall>i' h' d'. sel_map (fst st') fd = Some (i', h', d') \<longrightarrow> h' = h \<and> d' = d)"
proof -
  have os: "os_ok os" and mem: "length mem = SOCKADDR_TO_HUMAN_MIN" and s: "server_inv ls js st"
    using inv by (simp_all add: serving_def)
  have used: "sel_map (fst st) fd \<noteq> None" using reg by simp
  show ?thesis
  proof (cases d rule: option.exhaust)
    case None
    note l = listener_entry [OF s reg [unfolded None]]
    from l passive_accept_ok [OF s os used, of mem None] mgmt_accept_ok [OF s os used, of None] show ?thesis
      using inv reg unfolding None by (elim disjE conjE) (auto simp: returns_def listened_def serving_def)
  next
    case (Some q)
    show ?thesis
    proof (cases q)
      case (SocksConn p)
      note reg = reg [unfolded Some SocksConn]
      have "h = SocksHandler" using server_conn [OF s reg] by blast
      with socksv5_read_ok [OF s reg i os mem] inv Some SocksConn show ?thesis
        by (auto simp: returns_def event_ok_def serving_def)
    next
      case (MgmtConn p)
      note reg = reg [unfolded Some MgmtConn]
      from mgmt_handler [OF s reg] mgmt_read_ok [OF s reg i os, of mem'] inv Some MgmtConn show ?thesis
        by (auto simp: returns_def mgmt_event_def serving_def)
    qed
  qed
qed

lemma serving_write:
  assumes inv: "serving os mem ls js st" and reg: "sel_map (fst st) fd = Some (i, h, d)" and i: "wants OP_WRITE i"
  shows "\<exists>f st'. handle_write (handlers os mem mem' h) = Some f \<and> f (fd, d) st = Some st' \<and> serving os mem ls js st'
    \<and> s_jobs (fst st') = s_jobs (fst st)"
proof -
  have os: "os_ok os" and mem: "length mem = SOCKADDR_TO_HUMAN_MIN" and s: "server_inv ls js st"
    using inv by (simp_all add: serving_def)
  show ?thesis
  proof (cases d rule: option.exhaust)
    case None
    with listener_entry [OF s reg [unfolded None]] i show ?thesis by (simp add: wants_def op_defs)
  next
    case (Some q)
    show ?thesis
    proof (cases q)
      case (SocksConn p)
      note reg = reg [unfolded Some SocksConn]
      have "h = SocksHandler" using server_conn [OF s reg] by blast
      with socksv5_write_ok [OF s reg i os mem] inv Some SocksConn show ?thesis
        by (auto simp: returns_def serving_def)
    next
      case (MgmtConn p)
      note reg = reg [unfolded Some MgmtConn]
      from mgmt_handler [OF s reg] mgmt_write_ok [OF s reg i os, of mem'] inv Some MgmtConn show ?thesis
        by (auto simp: returns_def mgmt_event_def serving_def)
    qed
  qed
qed

lemma serving_block:
  assumes inv: "serving os mem ls (fd # js) st" and reg: "sel_map (fst st) fd = Some (i, h, d)"
  shows "\<exists>f st'. handle_block (handlers os mem mem' h) = Some f \<and> f (fd, d) st = Some st' \<and> serving os mem ls js st'
    \<and> s_jobs (fst st') = s_jobs (fst st)"
proof -
  have "os_ok os" "server_inv ls (fd # js) st" using inv by (simp_all add: serving_def)
  from socksv5_block_ok [OF this(2) reg this(1), of mem] inv show ?thesis
    by (auto simp: returns_def serving_def)
qed

interpretation loop: event_client "handlers os mem mem'" "serving os mem ls"
proof
  show "sel_inv (fst st)" if "serving os mem ls js st" for js st
    using that by (simp add: serving_def server_inv_def)
  show "serving os mem ls js (s\<lparr>s_slave_r := r, s_slave_w := w\<rparr>, x)" if "serving os mem ls js (s, x)" for js s x r w
    using that by (simp add: serving_def server_inv_def)
  show "serving os mem ls js (s\<lparr>s_jobs := k\<rparr>, x)" if "serving os mem ls js (s, x)" for js s x k
    using that by (simp add: serving_def server_inv_def)
  show "serving os mem ls js st" if "serving os mem ls (fd # js) st" "sel_map (fst st) fd = None" for fd js st
    using that server_inv_tail [of ls fd js st] by (simp add: serving_def)
  show "\<not> invalid_fd fd" if "serving os mem ls (fd # js) st" for fd js st
  proof -
    have inv: "server_inv ls (fd # js) st" using that by (simp add: serving_def)
    obtain p s where s: "live (snd st) p = Some s" "client_fd s = fd" using notified [OF inv] by blast
    have c: "core (sel_map (fst st)) (live (snd st)) (px_mgmt (snd st)) ls (fd # js)" and sel: "sel_inv (fst st)"
      using inv by (simp_all add: server_inv_def)
    from coreD(1) [OF c s(1)] obtain ci oi where "conn_regs (sel_map (fst st)) p s ci oi" by blast
    from sel_map_slot(4) [OF sel conn_regs_entry(1) [OF this]] s(2) show ?thesis by simp
  qed
qed (rule serving_read serving_write serving_block; assumption)+

section \<open>Giving the listeners up\<close>

lemma core_without_listener:
  assumes c: "core R L M ls js" and "ls fd = Some h"
  shows "core (R(fd := None)) L M (ls(fd := None)) js"
proof -
  have fd: "R fd = Some (OP_READ, h, None)" using coreD(4) [OF c, of fd OP_READ h] assms(2) by simp
  then have same: "(R(fd := None)) fd' = Some (i, h', Some d) \<longleftrightarrow> R fd' = Some (i, h', Some d)" for fd' i h' d
    by auto
  show ?thesis
  proof (rule coreI)
    show "conn_ok s \<and> (\<exists>ci oi. conn_regs (R(fd := None)) p s ci oi \<and> ready (cur s) ci oi s)" if "L p = Some s" for p s
      using coreD(1) [OF c that] unfolding conn_regs_def same .
    show "mgmt_ok m \<and> mgmt_regs (R(fd := None)) p m" if "M p = Some m" for p m
      using coreD(2) [OF c that] unfolding mgmt_regs_def same .
    show "owner_ok L M r" if "(R(fd := None)) fd' = Some r" for fd' r
      using coreD(3) [OF c, of fd' r] that by (simp split: if_splits)
    show "(R(fd := None)) fd' = Some (i, h', None) \<longleftrightarrow> i = OP_READ \<and> (ls(fd := None)) fd' = Some h'" for fd' i h'
      using coreD(4) [OF c, of fd' i h'] by simp
  qed (rule coreD(5) [OF c], rule coreD(6) [OF c])
qed

lemma unregister_listener:
  assumes inv: "server_inv ls js st" and h: "ls fd = Some h"
  shows "\<exists>r st'. unregister_fd os fd st = Some (r, st') \<and> server_inv (ls(fd := None)) js st'
    \<and> s_jobs (fst st') = s_jobs (fst st) \<and> px_services (snd st') = px_services (snd st)"
proof -
  have c: "core (sel_map (fst st)) (live (snd st)) (px_mgmt (snd st)) ls js" and sel: "sel_inv (fst st)" and heap: "heap_ok (snd st)"
    using inv by (simp_all add: server_inv_def)
  have fd: "sel_map (fst st) fd = Some (OP_READ, h, None)" using coreD(4) [OF c, of fd OP_READ h] h by simp
  let ?x = "snd (sys_unit (os_close os fd) st)"
  have "close_of os h = Some (listener_close os)" using listener_entry [OF inv fd] by auto
  with unregister_law [OF sel, where fd = fd and close_of = "close_of os" and x = "snd st" and x' = ?x] fd
  obtain sl where sl: "unregister_fd os fd st = Some (SELECTOR_SUCCESS, sl, ?x)" "sel_inv sl"
    "s_jobs sl = s_jobs (fst st)" "sel_map sl = (sel_map (fst st))(fd := None)"
    by (auto simp: listener_close_def sys_unit_def unregister_fd_def)
  have "heap_ok ?x" "live ?x = live (snd st)"
    using heap_ok_frame [OF heap, of ?x] by (simp_all add: sys_unit_def)
  with sl core_without_listener [OF c h] show ?thesis
    by (auto simp: server_inv_def sys_unit_def)
qed

lemma unregister_listeners:
  "server_inv ls js st \<Longrightarrow> distinct fds \<Longrightarrow> set fds \<subseteq> dom ls \<Longrightarrow>
     \<exists>st'. unregister_fds os fds st = Some st' \<and> server_inv (ls |` (- set fds)) js st'
       \<and> s_jobs (fst st') = s_jobs (fst st) \<and> px_services (snd st') = px_services (snd st)"
proof (induction fds arbitrary: ls st)
  case (Cons fd fds)
  then obtain h where h: "ls fd = Some h" by auto
  obtain r st1 where st1: "unregister_fd os fd st = Some (r, st1)" "server_inv (ls(fd := None)) js st1"
    "s_jobs (fst st1) = s_jobs (fst st)" "px_services (snd st1) = px_services (snd st)"
    using unregister_listener [OF Cons.prems(1) h] by blast
  have "(ls(fd := None)) |` (- set fds) = ls |` (- set (fd # fds))"
    by (auto simp: restrict_map_def fun_eq_iff)
  with Cons.IH [OF st1(2)] st1 Cons.prems(2,3) show ?case by fastforce
qed (simp add: restrict_map_def)

section \<open>The main loop\<close>

definition server_ok :: "'w server \<Rightarrow> bool" where
  "server_ok sr \<longleftrightarrow>
     (\<exists>ls. server_inv ls (s_jobs (fst (sr_state sr))) (sr_state sr) \<and> dom ls = set (sr_listeners sr))
     \<and> distinct (sr_listeners sr) \<and> (sr_shutting_down sr \<longrightarrow> sr_listeners sr = [])"

lemma select_ok:
  assumes inv: "server_inv ls (s_jobs (fst st)) st" and os: "os_ok os" "length mem = SOCKADDR_TO_HUMAN_MIN"
  shows "\<exists>r st'. selector_select (handlers os mem mem') answer st = Some (r, st')
    \<and> server_inv ls (s_jobs (fst st')) st' \<and> (r = SELECTOR_SUCCESS \<longrightarrow> s_jobs (fst st') = [])"
  using loop.select_step [of os mem ls st mem' answer] assms by (simp add: serving_def)

lemma main_round_ok:
  assumes ok: "server_ok sr" and os: "os_ok os" "length mem = SOCKADDR_TO_HUMAN_MIN"
  shows "\<exists>go sr'. main_round os mem mem' answer sigcount sr = Some (go, sr') \<and> server_ok sr'"
proof -
  obtain ls where inv: "server_inv ls (s_jobs (fst (sr_state sr))) (sr_state sr)" and dom: "dom ls = set (sr_listeners sr)"
    and dist: "distinct (sr_listeners sr)" and down: "sr_shutting_down sr \<longrightarrow> sr_listeners sr = []"
    using ok by (auto simp: server_ok_def)
  obtain r st1 where sel: "selector_select (handlers os mem mem') answer (sr_state sr) = Some (r, st1)"
    and inv1: "server_inv ls (s_jobs (fst st1)) st1"
    using select_ok [OF inv os] by blast
  have ok1: "server_ok (sr\<lparr>sr_state := st1\<rparr>)" using inv1 dom dist down by (auto simp: server_ok_def)
  show ?thesis
  proof (cases "r = SELECTOR_SUCCESS \<and> sigcount < 2 \<and> sigcount \<ge> 1 \<and> \<not> sr_shutting_down sr")
    case True
    from unregister_listeners [OF inv1 dist] dom obtain st2 where
      st2: "unregister_fds os (sr_listeners sr) st1 = Some st2" "server_inv (ls |` (- set (sr_listeners sr))) (s_jobs (fst st1)) st2"
      "s_jobs (fst st2) = s_jobs (fst st1)" by blast
    have "ls |` (- set (sr_listeners sr)) = Map.empty"
      using dom by (auto simp: restrict_map_def fun_eq_iff)
    with st2(2,3) have "server_ok (sr\<lparr>sr_state := st2, sr_listeners := [], sr_shutting_down := True\<rparr>)"
      by (simp add: server_ok_def)
    with True sel st2(1) show ?thesis by (simp add: main_round_def)
  next
    case False
    with sel ok1 show ?thesis by (auto simp: main_round_def Let_def)
  qed
qed

section \<open>The end of a resolver thread\<close>

text \<open>The thread of a connection is still running while the connection resolves and has not been
  notified.\<close>

definition resolver_running :: "nat \<Rightarrow> 'w state \<Rightarrow> bool" where
  "resolver_running p st \<longleftrightarrow>
     (case live (snd st) p of None \<Rightarrow> False
      | Some s \<Rightarrow> resolving s \<and> dq_notify_fd (dns s) \<notin> set (s_jobs (fst st)))"

lemma ready_dns: "dq_notify_fd d = dq_notify_fd (dns s) \<Longrightarrow> ready c ci oi (s\<lparr>dns := d\<rparr>) = ready c ci oi s"
  by (simp add: ready_def authorised_def relaying_def)

lemma dns_finish_ok:
  assumes inv: "server_inv ls (s_jobs (fst st)) st" and run: "resolver_running p st"
  shows "\<exists>st'. dns_finish malloc_ok p status result st = Some st' \<and> server_inv ls (s_jobs (fst st')) st'"
proof -
  obtain s where s: "live (snd st) p = Some s" "resolving s" "dq_notify_fd (dns s) \<notin> set (s_jobs (fst st))"
    using run by (auto simp: resolver_running_def split: option.splits)
  have c: "core (sel_map (fst st)) (live (snd st)) (px_mgmt (snd st)) ls (s_jobs (fst st))" using inv by (simp add: server_inv_def)
  obtain ci oi where ready: "ready (cur s) ci oi s" using coreD(1) [OF c s(1)] by blast
  then have fd: "dq_notify_fd (dns s) = client_fd s" using s(2) by (simp add: ready_def state_defs)
  obtain ci oi where f: "focus (s_jobs (fst st)) ls (s_jobs (fst st)) p s ci oi st" and ready: "ready (cur s) ci oi s"
    using focusI [OF inv s(1)] s(3) fd by auto
  let ?d = "(dns s)\<lparr>dq_result := result, dq_status := status\<rparr>"
  let ?s = "s\<lparr>dns := ?d\<rparr>"
  let ?st = "put_conn p ?s st"
  have "focus (s_jobs (fst st)) ls (s_jobs (fst st)) p ?s ci oi ?st"
    using focus_put [OF f, of ?s] focus_conn_ok [OF f] by (simp add: same_fds_def conn_ok_def)
  moreover have "ready (cur ?s) ci oi ?s"
    using ready ready_dns [of ?d s] by (simp add: cur_def)
  ultimately have inv2: "server_inv ls (s_jobs (fst st)) ?st" using focus_done by blast
  have live: "live (snd ?st) p = Some ?s" using put_conn_live [OF s(1)] by simp
  show ?thesis
  proof (cases malloc_ok)
    case False
    with inv2 focus_get [OF f] show ?thesis by (simp add: dns_finish_def selector_notify_block_def)
  next
    case True
    let ?js = "client_fd s # s_jobs (fst st)"
    have c2: "core (sel_map (fst st)) (live (snd ?st)) (px_mgmt (snd st)) ls (s_jobs (fst st))"
      using inv2 by (simp add: server_inv_def)
    have "core (sel_map (fst st)) (live (snd ?st)) (px_mgmt (snd st)) ls ?js"
    proof (rule coreI [OF coreD(1) [OF c2] coreD(2) [OF c2] coreD(3) [OF c2] coreD(4) [OF c2]])
      show "distinct ?js" using coreD(5) [OF c2] s(3) fd by simp
      show "\<exists>q s. live (snd ?st) q = Some s \<and> client_fd s = fd \<and> resolving s" if "fd \<in> set ?js" for fd
      proof (cases "fd = client_fd s")
        case True
        with live s(2) show ?thesis by (intro exI [of _ p] exI [of _ ?s]) simp
      next
        case False
        with that show ?thesis by (intro coreD(6) [OF c2]) simp
      qed
    qed
    with inv2 focus_get [OF f] True fd show ?thesis
      by (simp add: dns_finish_def selector_notify_block_def server_inv_def)
  qed
qed

section \<open>What the invariant says\<close>

text \<open>A connection in use\<close>

lemma live_conn:
  assumes "server_ok sr" and "live (snd (sr_state sr)) p = Some s"
  obtains ci oi where "conn_ok s" "conn_regs (sel_map (fst (sr_state sr))) p s ci oi" "ready (cur s) ci oi s"
proof -
  obtain ls where "server_inv ls (s_jobs (fst (sr_state sr))) (sr_state sr)" using assms(1) by (auto simp: server_ok_def)
  then have "core (sel_map (fst (sr_state sr))) (live (snd (sr_state sr))) (px_mgmt (snd (sr_state sr))) ls (s_jobs (fst (sr_state sr)))"
    by (simp add: server_inv_def)
  from coreD(1) [OF this assms(2)] that show thesis by blast
qed

lemma live_mgmt:
  assumes "server_ok sr" and "px_mgmt (snd (sr_state sr)) p = Some m"
  shows "mgmt_ok m \<and> mgmt_regs (sel_map (fst (sr_state sr))) p m"
proof -
  obtain ls where "server_inv ls (s_jobs (fst (sr_state sr))) (sr_state sr)" using assms(1) by (auto simp: server_ok_def)
  then have "core (sel_map (fst (sr_state sr))) (live (snd (sr_state sr))) (px_mgmt (snd (sr_state sr))) ls (s_jobs (fst (sr_state sr)))"
    by (simp add: server_inv_def)
  from coreD(2) [OF this assms(2)] show ?thesis .
qed

text \<open>A relayed connection waits for something: when nothing can be read from either side and nothing
  can be written, both directions are finished, and then the connection has been closed.\<close>

lemma relaying_waits:
  assumes "conn_ok s" and "relaying ci oi s"
  shows "ci \<noteq> OP_NOOP \<or> oi \<noteq> Some OP_NOOP"
proof -
  note b = conn_ok_buffers [OF assms(1)]
  have room: "buffer_can_read b \<or> buffer_can_write b" if "buf_inv b" "0 < b_limit b" for b
    using that by (auto simp: buffer_can_read_def buffer_can_write_def buf_inv_def)
  have "buffer_can_read (read_buffer s) \<or> buffer_can_write (read_buffer s)"
    "buffer_can_read (write_buffer s) \<or> buffer_can_write (write_buffer s)"
    using room [OF b(1)] room [OF b(2)] b(3-5) by simp_all
  with assms(2) show ?thesis
    by (auto simp: relaying_def relay_interest_def op_defs split: if_splits)
qed

lemma ready_waits:
  assumes "conn_ok s" and "ready c ci oi s" and "\<not> resolving s"
  shows "ci \<noteq> OP_NOOP \<or> (oi \<noteq> None \<and> oi \<noteq> Some OP_NOOP)"
  using assms relaying_waits [OF assms(1)]
  by (auto simp: ready_def op_defs relaying_def split: if_splits)

text \<open>Only authorised clients have an origin.\<close>

lemma origin_authorised:
  assumes "conn_regs R p s ci oi" and "ready c ci oi s" and "0 \<le> origin_fd s"
  shows "authorised s \<and> REQUEST_CONNECTING \<le> c"
  using assms by (auto simp: ready_def conn_regs_def state_defs split: if_splits)

end
