(* ===== verification/Startup.thy ===== *)
theory Startup
  imports Server
begin

text \<open>
  From the command line to the loop: what \<open>main\<close> sets up satisfies the invariant of the server, and
  the accounts of the command line are those the proxy accepts. The steps of the running process are
  a transition relation; its reachable states satisfy the invariant.
\<close>

section \<open>The services\<close>

lemma config_inv_admin:
  assumes "config_inv c"
  shows "config_inv (c\<lparr>cfg_admin_user := (strncpy (cfg_admin_user c) u CONFIG_ADMIN_MAX)[CONFIG_ADMIN_MAX := 0],
    cfg_admin_pass := (strncpy (cfg_admin_pass c) p CONFIG_ADMIN_MAX)[CONFIG_ADMIN_MAX := 0],
    cfg_auth_required := a, cfg_pop3_sniff := d\<rparr>)"
  using assms by (simp add: config_inv_def length_strncpy config_limits)

text \<open>Adding accounts to the table: the last password of a name counts.\<close>

lemma add_accounts:
  "users_inv db \<Longrightarrow> \<forall>up \<in> set ups. cstring_field (cstr (fst up)) \<and> cstring_field (cstr (snd up)) \<Longrightarrow>
   card (dom (users_map db)) + length ups \<le> USERS_MAX \<Longrightarrow>
   users_inv (fold (\<lambda>(u, p) db. snd (users_add (Some u) (Some p) db)) ups db) \<and>
   users_map (fold (\<lambda>(u, p) db. snd (users_add (Some u) (Some p) db)) ups db) =
     users_map db ++ map_of (rev (map (\<lambda>(u, p). (cstr u, cstr p)) ups))"
proof (induction ups arbitrary: db)
  case (Cons up ups)
  obtain u p where up: "up = (u, p)" by (cases up)
  let ?db = "snd (users_add (Some u) (Some p) db)"
  have ok: "cstring_field (cstr u)" "cstring_field (cstr p)" using Cons.prems(2) up by simp_all
  have count: "users_count db < USERS_MAX" using Cons.prems(3) card_users [OF Cons.prems(1)] by simp
  note spec = users_add_spec [OF Cons.prems(1) ok]
  have m: "users_map ?db = (users_map db)(cstr u \<mapsto> cstr p)" using spec(3) count by blast
  have fin: "finite (dom (users_map db))"
    using Cons.prems(3) by (cases "finite (dom (users_map db))") (auto simp: dom_users_map [OF Cons.prems(1)])
  then have "card (dom (users_map ?db)) \<le> card (dom (users_map db)) + 1"
    unfolding m by (simp add: card_insert_if)
  then have "card (dom (users_map ?db)) + length ups \<le> USERS_MAX" using Cons.prems(3) by simp
  from Cons.IH [OF spec(2) _ this] Cons.prems(2) show ?case
    by (simp add: up m map_add_def fun_eq_iff split: option.split)
qed simp

lemma fold_users_accounts:
  "fold (\<lambda>u db. snd (users_add (Some (au_name u)) (Some (au_pass u)) db)) us db =
     fold (\<lambda>(u, p) db. snd (users_add (Some u) (Some p) db)) (map (\<lambda>u. (au_name u, au_pass u)) us) db"
  by (induction us arbitrary: db) simp_all

lemma users_inv_fold: "users_inv db \<Longrightarrow> users_inv (fold (\<lambda>u db. snd (users_add (Some (au_name u)) (Some (au_pass u)) db)) us db)"
proof (induction us arbitrary: db)
  case (Cons u us)
  have "users_inv (snd (users_add (Some (au_name u)) (Some (au_pass u)) db))"
    using users.step_inv [OF Cons.prems, of "AddUser (au_name u) (au_pass u)"] by simp
  with Cons.IH show ?case by simp
qed simp

lemma initial_services_inv: "services_inv (initial_services args)"
  by (simp add: services_inv_def initial_services_def Let_def users_inv_fold users_inv_init
      config_inv_admin config_inv_defaults)

section \<open>The listeners\<close>

lemma core_listener:
  assumes c: "core R L M ls js" and free: "R fd = None" and h: "h = SocksListener \<or> h = MgmtListener"
  shows "core (R(fd \<mapsto> (OP_READ, h, None))) L M (ls(fd \<mapsto> h)) js"
proof -
  have same: "(R(fd \<mapsto> (OP_READ, h, None))) fd' = Some (i, h', Some d) \<longleftrightarrow> R fd' = Some (i, h', Some d)" for fd' i h' d
    using free by auto
  show ?thesis
  proof (rule coreI)
    show "conn_ok s \<and> (\<exists>ci oi. conn_regs (R(fd \<mapsto> (OP_READ, h, None))) p s ci oi \<and> ready (cur s) ci oi s)" if "L p = Some s" for p s
      using coreD(1) [OF c that] unfolding conn_regs_def same .
    show "mgmt_ok m \<and> mgmt_regs (R(fd \<mapsto> (OP_READ, h, None))) p m" if "M p = Some m" for p m
      using coreD(2) [OF c that] unfolding mgmt_regs_def same .
    show "owner_ok L M r" if "(R(fd \<mapsto> (OP_READ, h, None))) fd' = Some r" for fd' r
    proof (cases "fd' = fd")
      case True
      with that h show ?thesis by (auto simp: owner_ok_def)
    next
      case False
      with that have "R fd' = Some r" by simp
      then show ?thesis by (rule coreD(3) [OF c])
    qed
    show "(R(fd \<mapsto> (OP_READ, h, None))) fd' = Some (i, h', None) \<longleftrightarrow> i = OP_READ \<and> (ls(fd \<mapsto> h)) fd' = Some h'" for fd' i h'
      using coreD(4) [OF c, of fd' i h'] by auto
  qed (rule coreD(5) [OF c], rule coreD(6) [OF c])
qed

lemma add_listener_ok:
  assumes inv: "server_inv ls js st" and dom: "dom ls = set fds" "distinct fds" and h: "h = SocksListener \<or> h = MgmtListener"
  shows "\<exists>r fds' st' ls'. add_listener os addr port fam h fds st = Some (r, fds', st') \<and> server_inv ls' js st'
    \<and> dom ls' = set fds' \<and> distinct fds' \<and> s_jobs (fst st') = s_jobs (fst st)"
proof -
  obtain fd st1 where sys: "sys (create_passive_socket os addr port fam 512) st = (fd, st1)" by (rule prod.exhaust)
  have inv1: "server_inv ls js st1" and sel1: "fst st1 = fst st"
    using server_inv_sys [OF inv sys] sys_frame(1) [OF sys] .
  show ?thesis
  proof (cases "fd < 0")
    case True
    with sys inv1 sel1 dom show ?thesis by (auto simp: add_listener_def)
  next
    case False
    have c: "core (sel_map (fst st)) (live (snd st1)) (px_mgmt (snd st1)) ls js" and heap: "heap_ok (snd st1)"
      and sinv: "sel_inv (fst st1)" using inv1 sel1 by (simp_all add: server_inv_def)
    obtain r sel where r: "register_fd fd h OP_READ None st1 = Some (r, sel, snd st1)" "sel_inv sel"
      "s_jobs sel = s_jobs (fst st)"
      and m: "if r = SELECTOR_SUCCESS then sel_map (fst st) fd = None
          \<and> sel_map sel = (sel_map (fst st))(fd \<mapsto> (OP_READ, h, None)) else sel_map sel = sel_map (fst st)"
      using register_outcome [OF sinv, of fd h OP_READ None] unfolding sel1 by blast
    show ?thesis
    proof (cases "r = SELECTOR_SUCCESS")
      case True
      then have free: "sel_map (fst st) fd = None" using m by simp
      then have "ls fd = None" using coreD(4) [OF c, of fd OP_READ "the (ls fd)"] by (cases "ls fd") simp_all
      then have new: "fd \<notin> set fds" using dom(1) by auto
      have "server_inv (ls(fd \<mapsto> h)) js (sel, snd st1)"
        using core_listener [OF c free h] m True r(2) heap by (simp add: server_inv_def)
      moreover have "dom (ls(fd \<mapsto> h)) = set (fds @ [fd])" "distinct (fds @ [fd])" using dom new by auto
      moreover have "add_listener os addr port fam h fds st = Some (0, fds @ [fd], sel, snd st1)"
        using sys False r(1) True by (simp add: add_listener_def)
      ultimately show ?thesis using r(3)
        by (intro exI [of _ "0 :: int"] exI [of _ "fds @ [fd]"] exI [of _ "(sel, snd st1)"] exI [of _ "ls(fd \<mapsto> h)"]) simp
    next
      case failed: False
      let ?st = "sys_unit (os_close os fd) (sel, snd st1)"
      have "server_inv ls js (sel, snd st1)" using c m failed r(2) heap by (simp add: server_inv_def)
      from server_inv_sys_unit [OF this] have "server_inv ls js ?st" .
      moreover have "add_listener os addr port fam h fds st = Some (-1, fds, ?st)"
        using sys False r(1) failed by (simp add: add_listener_def)
      ultimately show ?thesis using r(3) dom
        by (intro exI [of _ "-1 :: int"] exI [of _ fds] exI [of _ ?st] exI [of _ ls]) simp
    qed
  qed
qed

abbreviation empty_table :: "(handler, pointer) selector" where
  "empty_table \<equiv> blank_selector\<lparr>s_fds := replicate (Suc ITEMS_MAX_SIZE) unused_item\<rparr>"

lemma blank_inv: "server_inv Map.empty [] (empty_table, initial_proxy (initial_services args) w)"
proof -
  let ?s = empty_table
  let ?x = "initial_proxy (initial_services args) w"
  have x: "live ?x = Map.empty" "px_mgmt ?x = Map.empty" by (simp_all add: live_def initial_proxy_def fun_eq_iff)
  have "core (sel_map ?s) (live ?x) (px_mgmt ?x) Map.empty []"
    by (rule coreI) (simp_all only: sel_inv_new(2) x, simp_all)
  moreover have "heap_ok ?x"
    using initial_services_inv [of args]
    by (simp add: heap_ok_def x(1), simp add: initial_proxy_def initial_services_def metrics_init_def Let_def)
  ultimately show ?thesis using sel_inv_new(1) by (simp add: server_inv_def)
qed

text \<open>What holds while the listeners are being opened\<close>

definition setting_up :: "int list \<Rightarrow> 'w state \<Rightarrow> bool" where
  "setting_up fds st \<longleftrightarrow> s_jobs (fst st) = [] \<and> distinct fds \<and> (\<exists>ls. server_inv ls [] st \<and> dom ls = set fds)"

lemma setup_listener:
  assumes "setting_up fds st" and "h = SocksListener \<or> h = MgmtListener"
  shows "\<exists>r fds' st'. add_listener os addr port fam h fds st = Some (r, fds', st') \<and> setting_up fds' st'"
proof -
  obtain ls where "server_inv ls [] st" "dom ls = set fds" "distinct fds" "s_jobs (fst st) = []"
    using assms(1) by (auto simp: setting_up_def)
  from add_listener_ok [OF this(1-3) assms(2), of os addr port fam] this(4) show ?thesis
    by (auto simp: setting_up_def)
qed

lemma setup_server: "setting_up fds st \<Longrightarrow> server_ok \<lparr>sr_state = st, sr_listeners = fds, sr_shutting_down = False\<rparr>"
  by (auto simp: setting_up_def server_ok_def)

lemma open_listeners_ok:
  fixes st :: "'a state"
  assumes "setting_up [] st"
  shows "returns (open_listeners os args st) (\<lambda>r. case r of Inl e \<Rightarrow> e = 1 | Inr sr \<Rightarrow> server_ok sr)"
proof -
  have listener: "returns (add_listener os addr port fam h fds st) (\<lambda>(r, fds', st'). setting_up fds' st')"
    if "setting_up fds st" "h = SocksListener \<or> h = MgmtListener" for addr port fam h fds and st :: "'a state"
    using setup_listener [OF that, of os addr port fam] by (auto simp: returns_def)
  let ?socks = "if cstr (ar_socks_addr args) = []
    then do {
      (r, fds, st) \<leftarrow> add_listener os None (ar_socks_port args) AF_INET SocksListener [] st;
      (r, fds, st) \<leftarrow> add_listener os (Some (ascii ''::'')) (ar_socks_port args) AF_INET6 SocksListener fds st;
      Some (0, fds, st)
    }
    else add_listener os (Some (ar_socks_addr args)) (ar_socks_port args)
      (if looks_ipv6 (ar_socks_addr args) then AF_INET6 else AF_INET) SocksListener [] st"
  have socks: "returns ?socks (\<lambda>(r, fds, st). setting_up fds st)"
  proof (cases "cstr (ar_socks_addr args) = []")
    case True
    then show ?thesis
      by (auto intro!: returns_bind [OF listener [OF assms]] returns_bind [OF listener])
  qed (simp add: listener [OF assms])
  show ?thesis
    unfolding open_listeners_def
  proof (rule returns_bind [OF socks], clarify)
    fix r :: int and fds and st :: "'a state"
    assume *: "setting_up fds st"
    let ?mgmt = "add_listener os (Some (ar_mgmt_addr args)) (ar_mgmt_port args)
       (if looks_ipv6 (ar_mgmt_addr args) then AF_INET6 else AF_INET) MgmtListener fds st"
    have mgmt: "returns ?mgmt (\<lambda>(r, fds, st). setting_up fds st)" by (rule listener [OF *]) simp
    show "returns (if r \<noteq> 0 \<or> fds = [] then Some (Inl 1) else do {
        (r, fds, st) \<leftarrow> ?mgmt;
        Some (if r \<noteq> 0 then Inl 1 else Inr \<lparr>sr_state = st, sr_listeners = fds, sr_shutting_down = False\<rparr>)
      }) (\<lambda>r. case r of Inl e \<Rightarrow> e = 1 | Inr sr \<Rightarrow> server_ok sr)"
      by (cases "r \<noteq> 0 \<or> fds = []", simp, simp split del: if_split)
        (auto intro!: returns_bind [OF mgmt] simp: setup_server split del: if_split, simp_all add: setup_server)
  qed
qed

lemma selector_new_cases:
  "selector_new malloc_ok alloc unused_item 1024 = (Some None :: (handler, pointer) selector option option) \<or>
   selector_new malloc_ok alloc unused_item 1024 = Some (Some empty_table)"
proof (cases "malloc_ok \<and> alloc")
  case True
  then show ?thesis by (simp add: selector_new_ok)
next
  case False
  then show ?thesis
    by (auto simp: selector_new_def ensure_capacity_def next_capacity_def bit_count_1024
      ITEMS_MAX_SIZE_def blank_selector_def Let_def)
qed

lemma main_setup_ok:
  fixes w :: 'a
  shows "returns (main_setup os args w) (\<lambda>r. case r of Inl e \<Rightarrow> e = 1 | Inr sr \<Rightarrow> server_ok sr)"
proof -
  have "setting_up [] (empty_table, initial_proxy (initial_services args) (w' :: 'a))" for w'
    using blank_inv [of args w'] by (auto simp: setting_up_def blank_selector_def)
  note start = open_listeners_ok [OF this, of os args]
  obtain r w1 where w1: "selector_init os (raise_fd_limit os w) = (r, w1)" by (rule prod.exhaust)
  obtain malloc_ok w2 where w2: "os_calloc_ok os w1 = (malloc_ok, w2)" by (rule prod.exhaust)
  obtain alloc w3 where w3: "os_calloc_ok os w2 = (alloc, w3)" by (rule prod.exhaust)
  show ?thesis
    using selector_new_cases [of malloc_ok alloc] start by (auto simp: main_setup_def Let_def w1 w2 w3)
qed

section \<open>The running process\<close>

text \<open>A process is started with a command line; it turns the loop of \<open>main\<close> for as long as that goes on, and
  between (or while \<open>pselect\<close> waits in) two turns a resolver thread ends.\<close>

inductive reachable :: "'w os \<Rightarrow> byte list \<Rightarrow> byte list \<Rightarrow> 'w server \<Rightarrow> bool" for os mem mem' where
  start: "main_setup os args w = Some (Inr sr) \<Longrightarrow> reachable os mem mem' sr"
| turn: "reachable os mem mem' sr \<Longrightarrow> main_round os mem mem' answer sigcount sr = Some (True, sr') \<Longrightarrow>
    reachable os mem mem' sr'"
| resolved: "reachable os mem mem' sr \<Longrightarrow> resolver_running p (sr_state sr) \<Longrightarrow>
    dns_finish malloc_ok p status result (sr_state sr) = Some st \<Longrightarrow>
    reachable os mem mem' (sr\<lparr>sr_state := st\<rparr>)"

lemma reachable_ok:
  assumes os: "os_ok os" "length mem = SOCKADDR_TO_HUMAN_MIN" and "reachable os mem mem' sr"
  shows "server_ok sr"
  using assms(3)
proof (induction rule: reachable.induct)
  case (start args w sr)
  with main_setup_ok [of os args w] show ?case by simp
next
  case (turn sr answer sigcount sr')
  with main_round_ok [OF turn.IH os, of mem' answer sigcount] show ?case by simp
next
  case (resolved sr p malloc_ok status result st)
  obtain ls where "server_inv ls (s_jobs (fst (sr_state sr))) (sr_state sr)" "dom ls = set (sr_listeners sr)"
    "distinct (sr_listeners sr)" "sr_shutting_down sr \<longrightarrow> sr_listeners sr = []"
    using resolved.IH by (auto simp: server_ok_def)
  with dns_finish_ok [OF this(1) resolved.hyps(2), of malloc_ok status result] resolved.hyps(3) show ?case
    by (auto simp: server_ok_def)
qed

text \<open>The registrations and the connections in use of a server\<close>

abbreviation regs_of :: "'w server \<Rightarrow> regs" where
  "regs_of sr \<equiv> sel_map (fst (sr_state sr))"

abbreviation conns :: "'w server \<Rightarrow> nat \<Rightarrow> socks5 option" where
  "conns sr \<equiv> live (snd (sr_state sr))"

abbreviation managers :: "'w server \<Rightarrow> nat \<Rightarrow> mgmt_conn option" where
  "managers sr \<equiv> px_mgmt (snd (sr_state sr))"

lemma reachable_conn:
  assumes "os_ok os" "length mem = SOCKADDR_TO_HUMAN_MIN" "reachable os mem mem' sr" and "conns sr p = Some s"
  shows "\<exists>ci oi. conn_ok s \<and> conn_regs (regs_of sr) p s ci oi \<and> ready (cur s) ci oi s"
  using live_conn [OF reachable_ok [OF assms(1-3)] assms(4)] by blast

lemma reachable_mgmt:
  assumes "os_ok os" "length mem = SOCKADDR_TO_HUMAN_MIN" "reachable os mem mem' sr" and "managers sr p = Some m"
  shows "mgmt_ok m \<and> mgmt_regs (regs_of sr) p m"
  by (rule live_mgmt [OF reachable_ok [OF assms(1-3)] assms(4)])

lemma reachable_heap:
  assumes "os_ok os" "length mem = SOCKADDR_TO_HUMAN_MIN" "reachable os mem mem' sr"
  shows "heap_ok (snd (sr_state sr))"
  using reachable_ok [OF assms] by (auto simp: server_ok_def server_inv_def)

text \<open>The descriptors of a connection\<close>

lemma conn_regs_fds:
  assumes "conn_regs R p s ci oi"
  shows "{fd. \<exists>i h. R fd = Some (i, h, Some (SocksConn p))} =
    (if oi = None then {client_fd s} else {client_fd s, origin_fd s})"
  using assms unfolding conn_regs_def by (cases oi) (auto split: if_splits)

end
