(* ===== verification/Shutdown.thy ===== *)
theory Shutdown
  imports Startup
begin

text \<open>
  The end of the process: \<open>main_cleanup\<close>, with \<open>selector_destroy\<close> closing every descriptor that is still
  registered. Between two closes a connection has lost one of its two descriptors, so the invariant of the
  running server does not hold any more; a weaker one does, that counts the references that are left, and at
  the end nothing is held but the connections whose name is still being resolved.
\<close>

section \<open>The invariant of the teardown\<close>

definition held :: "regs \<Rightarrow> nat \<Rightarrow> int set" where
  "held R p = {fd. \<exists>i h. R fd = Some (i, h, Some (SocksConn p))}"

definition attached :: "'w proxy \<Rightarrow> int \<Rightarrow> (handler, pointer) registration \<Rightarrow> bool" where
  "attached x fd r \<longleftrightarrow> (case r of
     (i, h, Some (SocksConn p)) \<Rightarrow> h = SocksHandler \<and> p \<notin> set (px_pool x) \<and> px_conns x p \<noteq> None
   | (i, h, Some (MgmtConn p)) \<Rightarrow> h = MgmtHandler \<and> (\<exists>m. px_mgmt x p = Some m \<and> mc_fd m = fd)
   | (i, h, None) \<Rightarrow> h = SocksListener \<or> h = MgmtListener)"

text \<open>Every connection that is neither in the pool nor lost to a resolver has a reference for each descriptor.\<close>

definition closing :: "regs \<Rightarrow> 'w proxy \<Rightarrow> bool" where
  "closing R x \<longleftrightarrow> finite (dom R)
     \<and> (\<forall>fd r. R fd = Some r \<longrightarrow> attached x fd r)
     \<and> (\<forall>p s. px_conns x p = Some s \<and> p \<notin> set (px_pool x) \<longrightarrow>
          (if held R p = {} then resolving s else references s = card (held R p)))
     \<and> (\<forall>p m. px_mgmt x p = Some m \<longrightarrow> (\<exists>i. R (mc_fd m) = Some (i, MgmtHandler, Some (MgmtConn p))))
     \<and> (\<forall>p \<in> set (px_pool x). px_conns x p \<noteq> None)
     \<and> unat (m_current (sv_metrics (px_services x))) = card {p. held R p \<noteq> {}}"

lemma closingI:
  assumes "finite (dom R)" and "\<And>fd r. R fd = Some r \<Longrightarrow> attached x fd r"
    and "\<And>p s. px_conns x p = Some s \<Longrightarrow> p \<notin> set (px_pool x) \<Longrightarrow>
      if held R p = {} then resolving s else references s = card (held R p)"
    and "\<And>p m. px_mgmt x p = Some m \<Longrightarrow> \<exists>i. R (mc_fd m) = Some (i, MgmtHandler, Some (MgmtConn p))"
    and "\<And>p. p \<in> set (px_pool x) \<Longrightarrow> px_conns x p \<noteq> None"
    and "unat (m_current (sv_metrics (px_services x))) = card {p. held R p \<noteq> {}}"
  shows "closing R x"
  using assms unfolding closing_def by blast

lemma closingD:
  assumes "closing R x"
  shows "finite (dom R)" and "R fd = Some r \<Longrightarrow> attached x fd r"
    and "px_conns x p = Some s \<Longrightarrow> p \<notin> set (px_pool x) \<Longrightarrow>
      if held R p = {} then resolving s else references s = card (held R p)"
    and "px_mgmt x p = Some m \<Longrightarrow> \<exists>i. R (mc_fd m) = Some (i, MgmtHandler, Some (MgmtConn p))"
    and "p \<in> set (px_pool x) \<Longrightarrow> px_conns x p \<noteq> None"
    and "unat (m_current (sv_metrics (px_services x))) = card {p. held R p \<noteq> {}}"
  using assms unfolding closing_def by blast+

lemma attached_frame:
  assumes "attached x fd r" and "\<And>p. snd (snd r) = Some (SocksConn p) \<Longrightarrow> p \<notin> set (px_pool x) \<Longrightarrow> px_conns x p \<noteq> None \<Longrightarrow>
      p \<notin> set (px_pool x') \<and> px_conns x' p \<noteq> None"
    and "\<And>p m. snd (snd r) = Some (MgmtConn p) \<Longrightarrow> px_mgmt x p = Some m \<Longrightarrow> mc_fd m = fd \<Longrightarrow> px_mgmt x' p = Some m"
  shows "attached x' fd r"
  using assms by (cases r) (auto simp: attached_def split: option.splits pointer.splits)

lemma held_finite: "finite (dom R) \<Longrightarrow> finite (held R p)"
  by (rule finite_subset [of _ "dom R"]) (auto simp: held_def)

lemma holders_finite: "finite (dom R) \<Longrightarrow> finite {p. held R p \<noteq> {}}"
proof -
  assume "finite (dom R)"
  then have "finite (the ` ((\<lambda>fd. (case R fd of Some (i, h, Some (SocksConn p)) \<Rightarrow> Some p | _ \<Rightarrow> None)) ` dom R))"
    by simp
  moreover have "{p. held R p \<noteq> {}} \<subseteq> the ` ((\<lambda>fd. (case R fd of Some (i, h, Some (SocksConn p)) \<Rightarrow> Some p | _ \<Rightarrow> None)) ` dom R)"
    by (force simp: held_def image_iff dom_def)
  ultimately show ?thesis by (rule rev_finite_subset)
qed

lemma held_without:
  assumes "R fd = Some (i, h, d)"
  shows "held (R(fd := None)) q = (if d = Some (SocksConn q) then held R q - {fd} else held R q)"
  using assms by (auto simp: held_def)

lemma dom_without: "finite (dom R) \<Longrightarrow> finite (dom (R(fd := None)))"
  by (rule finite_subset [of _ "dom R"]) (auto split: if_splits)

section \<open>One close\<close>

text \<open>What a \<open>handle_close\<close> of the program does: it does not touch the selector.\<close>

definition closes :: "'w os \<Rightarrow> handler \<Rightarrow> pointer key \<Rightarrow> 'w proxy \<Rightarrow> 'w proxy \<Rightarrow> bool" where
  "closes os h key x x' \<longleftrightarrow> (\<exists>f. close_of os h = Some f \<and> (\<forall>sel. f key (sel, x) = Some (sel, x')))"

lemma close_listener:
  assumes c: "closing R x" and r: "R fd = Some (i, h, None)"
  shows "\<exists>x'. closes os h (fd, None) x x' \<and> closing (R(fd := None)) x'"
proof -
  let ?x = "x\<lparr>px_world := os_close os fd (px_world x)\<rparr>"
  note held = held_without [where R = R and fd = fd, OF r]
  have "h = SocksListener \<or> h = MgmtListener" using closingD(2) [OF c r] by (simp add: attached_def)
  then have "closes os h (fd, None) x ?x" by (auto simp: closes_def listener_close_def sys_unit_def)
  moreover have "closing (R(fd := None)) ?x"
  proof (rule closingI)
    show "attached ?x fd' r" if "(R(fd := None)) fd' = Some r" for fd' r
      using closingD(2) [OF c, of fd' r] that by (auto intro: attached_frame split: if_splits)
    show "\<exists>i. (R(fd := None)) (mc_fd m) = Some (i, MgmtHandler, Some (MgmtConn p))" if "px_mgmt ?x p = Some m" for p m
      using closingD(4) [OF c, of p m] that r by auto
  qed (use closingD(3,5,6) [OF c] dom_without [OF closingD(1) [OF c]] in \<open>simp_all add: held\<close>)
  ultimately show ?thesis by blast
qed

lemma close_manager:
  assumes c: "closing R x" and r: "R fd = Some (i, h, Some (MgmtConn p))"
  shows "\<exists>x'. closes os h (fd, Some (MgmtConn p)) x x' \<and> closing (R(fd := None)) x'"
proof -
  let ?x = "x\<lparr>px_world := os_close os fd (px_world x), px_mgmt := (px_mgmt x)(p := None)\<rparr>"
  note held = held_without [where R = R and fd = fd, OF r]
  obtain m where h: "h = MgmtHandler" and m: "px_mgmt x p = Some m" "mc_fd m = fd"
    using closingD(2) [OF c r] by (auto simp: attached_def)
  have "closes os h (fd, Some (MgmtConn p)) x ?x"
    using m by (simp add: h closes_def mgmt_close_def attach_mgmt_def get_mgmt_def sys_unit_def)
  moreover have "closing (R(fd := None)) ?x"
  proof (rule closingI)
    show "attached ?x fd' r" if "(R(fd := None)) fd' = Some r" for fd' r
    proof -
      from that have fd': "fd' \<noteq> fd" "R fd' = Some r" by (simp_all split: if_splits)
      from closingD(2) [OF c fd'(2)] show ?thesis
        by (rule attached_frame) (use fd'(1) m in auto)
    qed
    show "\<exists>i. (R(fd := None)) (mc_fd m') = Some (i, MgmtHandler, Some (MgmtConn q))" if "px_mgmt ?x q = Some m'" for q m'
      using closingD(4) [OF c, of q m'] that r by (auto split: if_splits)
  qed (use closingD(3,5,6) [OF c] dom_without [OF closingD(1) [OF c]] in \<open>simp_all add: held\<close>)
  ultimately show ?thesis by blast
qed

text \<open>A connection with several references loses one; with its last one it is recycled, freed, or lost.\<close>

lemma close_connection:
  fixes x :: "'w proxy"
  assumes c: "closing R x" and r: "R fd = Some (i, h, Some (SocksConn p))"
  shows "\<exists>x'. closes os h (fd, Some (SocksConn p)) x x' \<and> closing (R(fd := None)) x'"
proof -
  let ?R = "R(fd := None)" and ?k = "(fd, Some (SocksConn p))"
  note held = held_without [where R = R and fd = fd, OF r]
  obtain s where h: "h = SocksHandler" and s: "px_conns x p = Some s" "p \<notin> set (px_pool x)"
    using closingD(2) [OF c r] by (auto simp: attached_def)
  have in_held: "fd \<in> held R p" using r by (auto simp: held_def)
  note dom = closingD(1) [OF c]
  note fin = held_finite [OF dom, of p] dom dom_without [OF dom, of fd] holders_finite [OF dom]
  have "held R p \<noteq> {}" using in_held by blast
  with closingD(3) [OF c s] have refs: "references s = card (held R p)" by simp
  then have pos: "0 < references s" using in_held fin(1) by (auto simp: card_gt_0_iff)
  have other: "attached x' fd' r'" if "?R fd' = Some r'"
    and "px_mgmt x' = px_mgmt x" and "\<And>q. q \<noteq> p \<Longrightarrow> px_conns x' q = px_conns x q"
    and "set (px_pool x') - {p} = set (px_pool x) - {p}" and "held ?R p \<noteq> {} \<Longrightarrow> p \<notin> set (px_pool x') \<and> px_conns x' p \<noteq> None"
    for x' :: "'w proxy" and fd' r'
  proof (rule attached_frame)
    note frame = that
    from that(1) have fd': "fd' \<noteq> fd" "R fd' = Some r'" by (simp_all split: if_splits)
    show "attached x fd' r'" by (rule closingD(2) [OF c fd'(2)])
    show "q \<notin> set (px_pool x') \<and> px_conns x' q \<noteq> None"
      if q: "snd (snd r') = Some (SocksConn q)" "q \<notin> set (px_pool x)" "px_conns x q \<noteq> None" for q
    proof (cases "q = p")
      case True
      then have "fd' \<in> held ?R p" using fd' q(1) by (cases r') (auto simp: held_def)
      with frame(5) True show ?thesis by blast
    next
      case False
      with q frame(3,4) show ?thesis by auto
    qed
  qed (use that in simp)
  have mgmt: "\<exists>i. ?R (mc_fd m) = Some (i, MgmtHandler, Some (MgmtConn q))" if "px_mgmt x q = Some m" for q m
    using closingD(4) [OF c that] r by auto
  show ?thesis
  proof (cases "references s = 1")
    case False
    let ?x = "x\<lparr>px_world := os_close os fd (px_world x), px_conns := (px_conns x)(p \<mapsto> s\<lparr>references := references s - 1\<rparr>)\<rparr>"
    have "closes os h ?k x ?x"
      using s False pos by (simp add: h closes_def socksv5_close_def attach_def get_conn_def sys_unit_def put_conn_def Let_def)
    moreover have "card (held ?R p) = references s - 1" using refs fin(1) in_held by (simp add: held)
    then have left: "held ?R p \<noteq> {}" "references s - 1 = card (held ?R p)" using False pos by auto
    moreover have "{q. held ?R q \<noteq> {}} = {q. held R q \<noteq> {}}" using left(1) in_held by (auto simp: held split: if_splits)
    moreover have "closing ?R ?x"
    proof (rule closingI)
      show "attached ?x fd' r'" if "?R fd' = Some r'" for fd' r' by (rule other [OF that]) (use s in auto)
      show "if held ?R q = {} then resolving s' else references s' = card (held ?R q)"
        if "px_conns ?x q = Some s'" "q \<notin> set (px_pool ?x)" for q s'
        using closingD(3) [OF c, of q s'] that left by (auto simp: held split: if_splits)
      show "\<exists>i. ?R (mc_fd m) = Some (i, MgmtHandler, Some (MgmtConn q))" if "px_mgmt ?x q = Some m" for q m
        using mgmt that by simp
      show "unat (m_current (sv_metrics (px_services ?x))) = card {q. held ?R q \<noteq> {}}"
        using closingD(6) [OF c] calculation(4) by simp
    qed (use closingD(5) [OF c] fin(3) in auto)
    ultimately show ?thesis by blast
  next
    case True
    have "card (held R p) = 1" using refs True by simp
    then have gone: "held ?R p = {}" using in_held fin(1) by (auto simp: held card_1_singleton_iff)
    have set: "{q. held ?R q \<noteq> {}} = {q. held R q \<noteq> {}} - {p}" using gone by (auto simp: held split: if_splits)
    have "0 < card {q. held R q \<noteq> {}}" using in_held fin(4) by (auto simp: card_gt_0_iff)
    then have cur: "unat (m_current (metrics_connection_closed (sv_metrics (px_services x)))) = card {q. held ?R q \<noteq> {}}"
      using closingD(6) [OF c] unat_closed card_Diff_singleton [of p "{q. held R q \<noteq> {}}"] \<open>held R p \<noteq> {}\<close>
      by (simp add: set)
    define s' where "s' = s\<lparr>references := 0\<rparr>"
    define x1 where "x1 = x\<lparr>px_world := os_close os fd (px_world x), px_conns := (px_conns x)(p \<mapsto> s'),
      px_services := (px_services x)\<lparr>sv_metrics := metrics_connection_closed (sv_metrics (px_services x))\<rparr>\<rparr>"
    define x2 where "x2 = (if resolving s then x1
      else if px_pool_size x < MAX_POOL
      then x1\<lparr>px_conns := (px_conns x)(p \<mapsto> s'\<lparr>dns := dns_request_clear (dns s')\<rparr>), px_pool := p # px_pool x, px_pool_size := px_pool_size x + 1\<rparr>
      else x1\<lparr>px_conns := (px_conns x)(p := None)\<rparr>)"
    have "closes os h ?k x x2"
      using s True
      by (simp add: h closes_def socksv5_close_def attach_def get_conn_def sys_unit_def put_conn_def Let_def
          socks5_destroy_def upd_metrics_def upd_services_def x1_def x2_def s'_def)
    moreover have "closing ?R x2"
    proof (rule closingI)
      show "attached x2 fd' r'" if "?R fd' = Some r'" for fd' r'
        by (rule other [OF that]) (use gone in \<open>auto simp: x2_def x1_def\<close>)
      show "if held ?R q = {} then resolving s'' else references s'' = card (held ?R q)"
        if "px_conns x2 q = Some s''" "q \<notin> set (px_pool x2)" for q s''
      proof (cases "q = p")
        case True
        with that gone show ?thesis by (auto simp: x2_def x1_def s'_def split: if_splits)
      next
        case False
        with that have "px_conns x q = Some s''" "q \<notin> set (px_pool x)" by (auto simp: x2_def x1_def split: if_splits)
        from closingD(3) [OF c this] False show ?thesis by (simp add: held)
      qed
      show "\<exists>i. ?R (mc_fd m) = Some (i, MgmtHandler, Some (MgmtConn q))" if "px_mgmt x2 q = Some m" for q m
      proof -
        have "px_mgmt x2 = px_mgmt x" by (simp add: x2_def x1_def)
        with that mgmt show ?thesis by simp
      qed
      show "px_conns x2 q \<noteq> None" if "q \<in> set (px_pool x2)" for q
        using that closingD(5) [OF c, of q] s(2) by (auto simp: x2_def x1_def split: if_splits)
      show "unat (m_current (sv_metrics (px_services x2))) = card {q. held ?R q \<noteq> {}}"
        using cur by (simp add: x2_def x1_def)
    qed (rule fin(3))
    ultimately show ?thesis by blast
  qed
qed

lemma close_any:
  assumes "closing R x" and "R fd = Some (i, h, d)"
  shows "\<exists>x'. closes os h (fd, d) x x' \<and> closing (R(fd := None)) x'"
proof (cases d)
  case None
  with close_listener assms show ?thesis by blast
next
  case (Some q)
  with close_manager close_connection assms show ?thesis by (cases q) blast+
qed

section \<open>All of them\<close>

lemma unregister_closing:
  assumes inv: "sel_inv (fst st)" and c: "closing (sel_map (fst st)) (snd st)" and used: "sel_map (fst st) fd \<noteq> None"
  shows "\<exists>r st'. selector_unregister_fd (close_of os) fd st = Some (r, st') \<and> sel_inv (fst st')
    \<and> sel_map (fst st') = (sel_map (fst st))(fd := None) \<and> closing (sel_map (fst st')) (snd st')"
proof -
  obtain i h d where r: "sel_map (fst st) fd = Some (i, h, d)" using used by auto
  from close_any [OF c r] obtain x' where x': "closes os h (fd, d) (snd st) x'" "closing ((sel_map (fst st))(fd := None)) x'"
    by blast
  have close: "case close_of os h' of None \<Rightarrow> x' = snd st | Some f \<Rightarrow> f (fd, d') (fst st, snd st) = Some (fst st, x')"
    if "sel_map (fst st) fd = Some (i', h', d')" for i' h' d'
    using that r x'(1) by (cases st) (auto simp: closes_def)
  have "\<exists>s'. selector_unregister_fd (close_of os) fd (fst st, snd st) =
      Some (if sel_map (fst st) fd = None then SELECTOR_IARGS else SELECTOR_SUCCESS, s',
        if sel_map (fst st) fd = None then snd st else x')
    \<and> sel_inv s' \<and> s_jobs s' = s_jobs (fst st) \<and> s_slave_r s' = s_slave_r (fst st) \<and> s_slave_w s' = s_slave_w (fst st)
    \<and> sel_map s' = (sel_map (fst st))(fd := None)"
    by (rule unregister_law [OF inv]) (rule close)
  then obtain s' where
    "selector_unregister_fd (close_of os) fd (fst st, snd st) = Some (SELECTOR_SUCCESS, s', x')" "sel_inv s'"
    "sel_map s' = (sel_map (fst st))(fd := None)"
    using used by auto
  with x'(2) show ?thesis by (intro exI [of _ SELECTOR_SUCCESS] exI [of _ "(s', x')"]) simp
qed

lemma unregister_all_closing:
  "sel_inv (fst st) \<Longrightarrow> closing (sel_map (fst st)) (snd st) \<Longrightarrow> \<forall>i \<in> set is. i \<le> ITEMS_MAX_SIZE \<Longrightarrow>
   \<exists>st'. unregister_all (close_of os) is st = Some st' \<and> sel_inv (fst st') \<and> closing (sel_map (fst st')) (snd st')
     \<and> sel_map (fst st') = (\<lambda>fd. if fd \<in> int ` set is then None else sel_map (fst st) fd)"
proof (induction "is" arbitrary: st)
  case Nil
  then show ?case by simp
next
  case (Cons i "is")
  have len: "i < length (s_fds (fst st))" using Cons.prems(1,3) by (simp add: sel_inv_def)
  show ?case
  proof (cases "item_used (s_fds (fst st) ! i)")
    case True
    with slot_sel_map [OF Cons.prems(1) len] have "sel_map (fst st) (int i) \<noteq> None" by auto
    from unregister_closing [OF Cons.prems(1,2) this] obtain r st1 where
      st1: "selector_unregister_fd (close_of os) (int i) st = Some (r, st1)" "sel_inv (fst st1)"
        "sel_map (fst st1) = (sel_map (fst st))(int i := None)" "closing (sel_map (fst st1)) (snd st1)"
      by blast
    from Cons.IH [OF st1(2,4)] Cons.prems(3) obtain st' where
      st': "unregister_all (close_of os) is st1 = Some st'" "sel_inv (fst st')" "closing (sel_map (fst st')) (snd st')"
      "sel_map (fst st') = (\<lambda>fd. if fd \<in> int ` set is then None else sel_map (fst st1) fd)"
      by auto
    have "sel_map (fst st') = (\<lambda>fd. if fd \<in> int ` set (i # is) then None else sel_map (fst st) fd)"
      unfolding st'(4) st1(3) by (simp add: fun_eq_iff)
    with st'(1-3) st1(1) True len show ?thesis by (intro exI [of _ st']) simp
  next
    case False
    then have "sel_map (fst st) (int i) = None" by (simp add: sel_map_def)
    with Cons.IH [OF Cons.prems(1,2)] Cons.prems(3) False len show ?thesis by (auto simp: fun_eq_iff)
  qed
qed

text \<open>The running server satisfies the weaker invariant.\<close>

lemma held_conn:
  assumes "conn_regs R p s ci oi"
  shows "held R p \<noteq> {} \<and> card (held R p) = references s"
  using conn_regs_fds [OF assms] assms by (auto simp: held_def conn_regs_def split: if_splits)

lemma server_closing:
  assumes "server_inv ls js st"
  shows "closing (sel_map (fst st)) (snd st)"
proof -
  let ?R = "sel_map (fst st)" and ?x = "snd st"
  have sel: "sel_inv (fst st)" and heap: "heap_ok ?x" and c: "core ?R (live ?x) (px_mgmt ?x) ls js"
    using assms by (simp_all add: server_inv_def)
  have conn: "\<exists>ci oi. conn_regs ?R p s ci oi" if "live ?x p = Some s" for p s using coreD(1) [OF c that] by blast
  have owned: "live ?x p \<noteq> None" if "p \<in> {p. held ?R p \<noteq> {}}" for p
    using that coreD(3) [OF c] by (force simp: held_def owner_ok_def)
  have holders: "{p. held ?R p \<noteq> {}} = dom (live ?x)"
    using owned conn held_conn by fastforce
  show ?thesis
  proof (rule closingI)
    have "dom ?R \<subseteq> {0..int ITEMS_MAX_SIZE}" using sel_map_slot(1,2) [OF sel] by fastforce
    then show "finite (dom ?R)" by (rule finite_subset) simp
    show "attached ?x fd r" if r: "?R fd = Some r" for fd r
    proof (cases r)
      case (fields i h d)
      note o' = coreD(3) [OF c r]
      show ?thesis
      proof (cases d)
        case None
        with o' fields show ?thesis by (simp add: attached_def owner_ok_def)
      next
        case (Some q)
        show ?thesis
        proof (cases q)
          case (SocksConn p)
          with o' fields Some obtain s where s: "live ?x p = Some s" by (auto simp: owner_ok_def)
          with conn obtain ci oi where "conn_regs ?R p s ci oi" by blast
          with r s fields Some SocksConn show ?thesis
            by (auto simp: attached_def conn_regs_def live_def split: if_splits)
        next
          case (MgmtConn p)
          with o' fields Some obtain m where m: "px_mgmt ?x p = Some m" by (auto simp: owner_ok_def)
          from coreD(2) [OF c this] have "mgmt_regs ?R p m" by simp
          with r m fields Some MgmtConn show ?thesis by (auto simp: attached_def mgmt_regs_def)
        qed
      qed
    qed
    show "if held ?R p = {} then resolving s else references s = card (held ?R p)"
      if "px_conns ?x p = Some s" "p \<notin> set (px_pool ?x)" for p s
    proof -
      have "live ?x p = Some s" using that by (simp add: live_def)
      with conn obtain ci oi where "conn_regs ?R p s ci oi" by blast
      from held_conn [OF this] show ?thesis by simp
    qed
    show "\<exists>i. ?R (mc_fd m) = Some (i, MgmtHandler, Some (MgmtConn p))" if "px_mgmt ?x p = Some m" for p m
      using coreD(2) [OF c that] by (simp add: mgmt_regs_def)
    show "px_conns ?x p \<noteq> None" if "p \<in> set (px_pool ?x)" for p using heap that by (auto simp: heap_ok_def)
    show "unat (m_current (sv_metrics (px_services ?x))) = card {p. held ?R p \<noteq> {}}"
      using heap by (simp add: heap_ok_def holders)
  qed
qed

text \<open>After the cleanup nothing is held but what a resolver thread may still write to.\<close>

definition all_released :: "'w server \<Rightarrow> bool" where
  "all_released sr \<longleftrightarrow> s_fds (fst (sr_state sr)) = [] \<and> s_jobs (fst (sr_state sr)) = []
     \<and> px_mgmt (snd (sr_state sr)) = Map.empty \<and> px_pool (snd (sr_state sr)) = []
     \<and> (\<forall>p s. px_conns (snd (sr_state sr)) p = Some s \<longrightarrow> resolving s)
     \<and> m_current (sv_metrics (px_services (snd (sr_state sr)))) = 0"

lemma main_cleanup_ok:
  assumes "server_ok sr"
  shows "\<exists>sr'. main_cleanup os sr = Some sr' \<and> all_released sr'"
proof -
  obtain ls where inv: "server_inv ls (s_jobs (fst (sr_state sr))) (sr_state sr)" and dom: "dom ls = set (sr_listeners sr)"
    and dist: "distinct (sr_listeners sr)"
    using assms by (auto simp: server_ok_def)
  from unregister_listeners [OF inv dist] dom obtain st1 ls' js where
    st1: "unregister_fds os (sr_listeners sr) (sr_state sr) = Some st1" "server_inv ls' js st1"
    by blast
  then have sel: "sel_inv (fst st1)" by (simp add: server_inv_def)
  let ?is = "[0..<length (s_fds (fst st1))]"
  have len: "length (s_fds (fst st1)) = Suc ITEMS_MAX_SIZE" using sel by (simp add: sel_inv_def)
  then have "\<forall>i \<in> set ?is. i \<le> ITEMS_MAX_SIZE" by simp
  from unregister_all_closing [OF sel server_closing [OF st1(2)] this] obtain st2 where
    st2: "unregister_all (close_of os) ?is st1 = Some st2" "closing (sel_map (fst st2)) (snd st2)"
      "sel_map (fst st2) = (\<lambda>fd. if fd \<in> int ` set ?is then None else sel_map (fst st1) fd)"
    by blast
  have none: "sel_map (fst st2) = Map.empty"
  proof
    fix fd
    show "sel_map (fst st2) fd = None"
    proof (rule ccontr)
      assume "sel_map (fst st2) fd \<noteq> None"
      then obtain i h d where "sel_map (fst st1) fd = Some (i, h, d)" "fd \<notin> int ` set ?is"
        using st2(3) by (auto split: if_splits)
      note fd = this(2) sel_map_slot(1,2) [OF sel this(1)]
      have "int (nat fd) \<in> int ` set ?is" using fd(3) len by (intro imageI) simp
      with fd show False by simp
    qed
  qed
  then have c: "closing Map.empty (snd st2)" using st2(2) by simp
  have held: "held Map.empty p = {}" for p by (simp add: held_def)
  let ?x = "(snd st2)\<lparr>px_pool := [], px_pool_size := 0,
    px_conns := (\<lambda>p. if p \<in> set (px_pool (snd st2)) then None else px_conns (snd st2) p)\<rparr>"
  let ?sr = "sr\<lparr>sr_state := ((fst st2)\<lparr>s_fds := [], s_jobs := []\<rparr>, ?x)\<rparr>"
  have "selector_destroy (close_of os) st1 = Some ((fst st2)\<lparr>s_fds := [], s_jobs := []\<rparr>, snd st2)"
    using st2(1) by (simp add: selector_destroy_def split_beta)
  then have "main_cleanup os sr = Some ?sr"
    using st1(1) closingD(5) [OF c] by (auto simp: main_cleanup_def socksv5_pool_destroy_def cong: if_cong)
  moreover have "px_mgmt (snd st2) = Map.empty"
  proof
    fix p show "px_mgmt (snd st2) p = None" using closingD(4) [OF c, of p] by (cases "px_mgmt (snd st2) p") auto
  qed
  then have "all_released ?sr"
    using closingD(3) [OF c] closingD(6) [OF c] held by (auto simp: all_released_def unat_eq_0)
  ultimately show ?thesis by blast
qed

end
