(* ===== verification/Handshake.thy ===== *)
theory Handshake
  imports Startup
begin

text \<open>
  What the messages of the handshake do, through the whole handler: \<open>socksv5_read\<close> on a connection that
  waits for the greeting, for user and password, or for the request, from the bytes that arrive to the
  answer in the write buffer, the next state and what the connection waits for then.
\<close>

section \<open>An event that does not relay\<close>

text \<open>A connection without registrations has been released.\<close>

lemma released:
  assumes "server_inv ls js st" and "\<And>fd i h. sel_map (fst st) fd \<noteq> Some (i, h, Some (SocksConn p))"
  shows "live (snd st) p = None"
proof (rule ccontr)
  assume "live (snd st) p \<noteq> None"
  then obtain s where s: "live (snd st) p = Some s" by blast
  have "core (sel_map (fst st)) (live (snd st)) (px_mgmt (snd st)) ls js" using assms(1) by (simp add: server_inv_def)
  from coreD(1) [OF this s] obtain ci oi where "conn_regs (sel_map (fst st)) p s ci oi" by blast
  from conn_regs_entry(1) [OF this] assms(2) show False by blast
qed

text \<open>The connection \<open>p\<close> is in use, its machine is in \<open>n\<close>, its client is registered with the interest \<open>i\<close>,
  and its record satisfies \<open>P\<close>.\<close>

definition waits_in :: "nat \<Rightarrow> nat \<Rightarrow> fd_interest \<Rightarrow> (socks5 \<Rightarrow> bool) \<Rightarrow> 'w state \<Rightarrow> bool" where
  "waits_in p n i P st \<longleftrightarrow> (\<exists>s. live (snd st) p = Some s \<and> cur s = n
     \<and> sel_map (fst st) (client_fd s) = Some (i, SocksHandler, Some (SocksConn p)) \<and> P s)"

lemma waits_inI: "focus k ls js p s i oi st \<Longrightarrow> cur s = n \<Longrightarrow> P s \<Longrightarrow> waits_in p n i P st"
  by (auto simp: waits_in_def focus_def conn_regs_entry(1))

lemma waits_in_mono: "waits_in p n i P st \<Longrightarrow> n = n' \<Longrightarrow> i = i' \<Longrightarrow> (\<And>s. P s \<Longrightarrow> Q s) \<Longrightarrow> waits_in p n' i' Q st"
  unfolding waits_in_def by blast

text \<open>The effect of entering \<open>n\<close>, for a connection without an origin\<close>

definition arrived :: "nat \<Rightarrow> socks5 \<Rightarrow> socks5 \<Rightarrow> bool" where
  "arrived n s s' \<longleftrightarrow>
     (if n = REQUEST_WRITE then \<exists>b. s' = s\<lparr>write_buffer := b\<rparr> \<and> buf_contents b = reply_bytes (reply s) None else s' = s)"

definition arrival_interest :: "nat \<Rightarrow> fd_interest \<Rightarrow> fd_interest" where
  "arrival_interest n i = (if n = REQUEST_RESOLV then OP_NOOP else if n = REQUEST_WRITE then OP_WRITE else i)"

lemma reply_arrival:
  assumes f: "focus k ls js p s i None st"
  shows "\<exists>st' b. request_write_arrival os n (fd, Some (SocksConn p)) st = Some st'
    \<and> focus k ls js p (s\<lparr>write_buffer := b\<rparr>) OP_WRITE None st' \<and> buf_contents b = reply_bytes (reply s) None"
proof -
  have origin: "origin_fd s = -1" using f by (simp add: focus_def conn_regs_def)
  have "length (reply_bytes (reply s) None) \<le> 256" by (simp add: reply_bytes_def)
  from write_reply_ok [OF focus_conn_ok [OF f] this] obtain b where
    b: "buffer_write_list (buffer_reset (write_buffer s)) (reply_bytes (reply s) None) = Some b"
    "buf_inv b" "b_limit b = buffer_size s" "buf_contents b = reply_bytes (reply s) None" by auto
  let ?st = "put_conn p (s\<lparr>write_buffer := b\<rparr>) st"
  have f1: "focus k ls js p (s\<lparr>write_buffer := b\<rparr>) i None ?st" by (rule focus_write_buffer [OF f b(2,3)])
  have "build_reply os p (reply s) st = Some ?st"
    using b(1) origin by (simp add: build_reply_def focus_get [OF f])
  moreover obtain st' where "set_interest (client_fd s) OP_WRITE ?st = Some (SELECTOR_SUCCESS, st')"
    "focus k ls js p (s\<lparr>write_buffer := b\<rparr>) OP_WRITE None st'"
    using focus_interest_client [OF f1, of OP_WRITE] by (auto elim!: returns_pairE)
  ultimately show ?thesis
    using b(4) origin by (intro exI [of _ st'] exI [of _ b]) (simp add: request_write_arrival_def focus_get [OF f])
qed

lemma jump_ends:
  assumes f: "focus k ls js p s i None st" and m: "sm_current (stm s) = Some c" and c: "c \<le> COPY"
    and n: "n \<le> ERROR_STATE" "n \<noteq> COPY" "n = c \<Longrightarrow> n \<noteq> REQUEST_WRITE \<and> n \<noteq> REQUEST_RESOLV"
  shows "\<exists>st' s'. jump (socks5_states os mem) get_stm put_stm n (fd, Some (SocksConn p)) st = Some st'
    \<and> focus k ls js p (s'\<lparr>stm := (stm s)\<lparr>sm_current := Some n\<rparr>\<rparr>) (arrival_interest n i) None st' \<and> arrived n s s'"
proof -
  let ?m = "(stm s)\<lparr>sm_current := Some n\<rparr>"
  let ?s = "s\<lparr>stm := ?m\<rparr>" and ?st = "put_stm (fd, Some (SocksConn p)) ?m st"
  have init: "sm_initial (stm s) = HELLO_READ" "sm_max_state (stm s) = ERROR_STATE"
    using focus_conn_ok [OF f] by (simp_all add: conn_ok_def)
  have in_table: "c < length (socks5_states os mem)" "n < length (socks5_states os mem)" "c \<le> ERROR_STATE"
    using c n(1) by (simp_all add: states_table(1) state_defs)
  have f1: "focus k ls js p ?s i None ?st" by (rule put_stm_focus [OF f]) (simp_all add: init)
  have run: "jump (socks5_states os mem) get_stm put_stm n (fd, Some (SocksConn p)) st =
      (if n = c then Some st else run_hook (on_arrival (socks5_states os mem ! n)) n (fd, Some (SocksConn p)) ?st)"
    using n(1) m init in_table
    by (simp add: jump_def get_stm_focus [OF f] run_hook_def Let_def states_table(2) [OF n(1)]
        states_table(3) [OF in_table(3)] cong: option.case_cong)
  consider (stay) "n = c" | (resolv) "n \<noteq> c" "n = REQUEST_RESOLV" | (reply) "n \<noteq> c" "n = REQUEST_WRITE"
    | (other) "n \<noteq> c" "n \<noteq> REQUEST_RESOLV" "n \<noteq> REQUEST_WRITE" by blast
  then show ?thesis
  proof cases
    case stay
    then have "?s = s" using m by simp
    with f n(3) [OF stay] stay run show ?thesis
      by (intro exI [of _ st] exI [of _ s]) (simp add: arrival_interest_def arrived_def)
  next
    case resolv
    obtain st' where "set_interest (client_fd s) OP_NOOP ?st = Some (SELECTOR_SUCCESS, st')" and f2: "focus k ls js p ?s OP_NOOP None st'"
      using focus_interest_client [OF f1, of OP_NOOP] by (auto elim!: returns_pairE)
    then have "resolv_arrival n (fd, Some (SocksConn p)) ?st = Some st'" by (simp add: resolv_arrival_def focus_get [OF f1])
    moreover have "on_arrival (socks5_states os mem ! n) = Some resolv_arrival"
      unfolding states_table(4) [OF n(1)] using resolv(2) by simp
    ultimately show ?thesis
      using run resolv f2 by (intro exI [of _ st'] exI [of _ s]) (simp add: arrival_interest_def arrived_def run_hook_def state_defs)
  next
    case reply
    from reply_arrival [OF f1, of os n fd] obtain st' b where
      st': "request_write_arrival os n (fd, Some (SocksConn p)) ?st = Some st'" and
      f2: "focus k ls js p (?s\<lparr>write_buffer := b\<rparr>) OP_WRITE None st'" and b: "buf_contents b = reply_bytes (reply s) None" by auto
    have "?s\<lparr>write_buffer := b\<rparr> = s\<lparr>write_buffer := b, stm := ?m\<rparr>" by simp
    note f2 = f2 [unfolded this]
    have "on_arrival (socks5_states os mem ! n) = Some (request_write_arrival os)"
      unfolding states_table(4) [OF n(1)] using reply(2) by (simp add: state_defs)
    with run reply st' have "jump (socks5_states os mem) get_stm put_stm n (fd, Some (SocksConn p)) st = Some st'"
      by (simp add: run_hook_def)
    moreover have "arrival_interest n i = OP_WRITE" "arrived n s (s\<lparr>write_buffer := b\<rparr>)"
      using reply(2) b by (auto simp: arrival_interest_def arrived_def state_defs)
    ultimately show ?thesis
      using f2 by (intro exI [of _ st'] exI [of _ "s\<lparr>write_buffer := b\<rparr>"]) simp
  next
    case other
    with run f1 n(1,2) show ?thesis
      by (intro exI [of _ ?st] exI [of _ s]) (simp add: arrival_interest_def arrived_def states_table(4) run_hook_def)
  qed
qed

text \<open>The outcome of an event that leads to the state \<open>n\<close>: the connection is released, or it waits in \<open>n\<close>.\<close>

definition ends_in :: "nat \<Rightarrow> nat \<Rightarrow> fd_interest \<Rightarrow> (socks5 \<Rightarrow> bool) \<Rightarrow> 'w state \<Rightarrow> bool" where
  "ends_in p n i P st \<longleftrightarrow>
     (if n = DONE \<or> n = ERROR_STATE then live (snd st) p = None else waits_in p n (arrival_interest n i) P st)"

lemma event_ends:
  fixes st :: "'w state"
  assumes f: "focus k ls js p s ci None st" and c: "cur s \<le> COPY"
    and g: "column (socks5_states os mem ! cur s) = Some g"
    and step: "\<And>m (st1 :: 'w state). focus k ls js p (s\<lparr>stm := m\<rparr>) ci None st1 \<Longrightarrow> world st1 = world st \<Longrightarrow>
      px_services (snd st1) = px_services (snd st) \<Longrightarrow>
      \<exists>st2 s2. g (fd, Some (SocksConn p)) st1 = Some (n, st2) \<and> focus k ls js p s2 i None st2
        \<and> stm s2 = m \<and> (n \<in> {DONE, ERROR_STATE} \<longrightarrow> \<not> resolving s2) \<and> P s2"
    and n: "n \<le> ERROR_STATE" "n \<noteq> COPY" "n = cur s \<Longrightarrow> n \<noteq> REQUEST_WRITE \<and> n \<noteq> REQUEST_RESOLV"
    and stable: "\<And>s2 s3 m. P s2 \<Longrightarrow> arrived n s2 s3 \<Longrightarrow> Q (s3\<lparr>stm := m\<rparr>)"
  shows "\<exists>st'. Option.bind (stm_event column (socks5_states os mem) get_stm put_stm (fd, Some (SocksConn p)) st)
      (finish os (fd, Some (SocksConn p))) = Some st' \<and> ends_in p n i Q st'"
proof -
  obtain m st1 where first: "handle_first (socks5_states os mem) get_stm put_stm (fd, Some (SocksConn p)) st = Some st1"
    and f1: "focus k ls js p (s\<lparr>stm := m\<rparr>) ci None st1" and m: "sm_current m = Some (cur s)"
    and w: "world st1 = world st" "px_services (snd st1) = px_services (snd st)"
    using machine_started [OF f, of os mem fd] by auto
  from step [OF f1 w] obtain st2 s2 where g1: "g (fd, Some (SocksConn p)) st1 = Some (n, st2)"
    and f2: "focus k ls js p s2 i None st2" and s2: "stm s2 = m" "n \<in> {DONE, ERROR_STATE} \<longrightarrow> \<not> resolving s2" "P s2" by blast
  from jump_ends [OF f2 _ c n, of os mem fd] m s2(1) obtain st3 s3 where
    j: "jump (socks5_states os mem) get_stm put_stm n (fd, Some (SocksConn p)) st2 = Some st3"
    and f3: "focus k ls js p (s3\<lparr>stm := m\<lparr>sm_current := Some n\<rparr>\<rparr>) (arrival_interest n i) None st3" (is "focus _ _ _ _ ?s _ _ _")
    and s3: "arrived n s2 s3" by auto
  have "cur s < length (socks5_states os mem)" using c by (simp add: states_table(1) state_defs)
  then have event: "stm_event column (socks5_states os mem) get_stm put_stm (fd, Some (SocksConn p)) st = Some (n, st3)"
    using first g g1 j m by (simp add: stm_event_def get_stm_focus [OF f1])
  show ?thesis
  proof (cases "n = DONE \<or> n = ERROR_STATE")
    case True
    have "\<not> resolving ?s" using s2(2) s3 True by (auto simp: arrived_def state_defs)
    from focus_closed [OF f3 this, of os fd] obtain st4 where
      st4: "socksv5_done os (fd, Some (SocksConn p)) st3 = Some st4" "server_inv ls js st4"
        "sel_map (fst st4) = without (SocksConn p) (sel_map (fst st3))" by (auto simp: returns_def)
    have "live (snd st4) p = None" by (rule released [OF st4(2)]) (simp add: st4(3) without_Some)
    with event st4(1) True show ?thesis by (auto simp: finish_def ends_in_def)
  next
    case False
    have "waits_in p n (arrival_interest n i) Q st3"
      by (rule waits_inI [OF f3]) (simp_all add: cur_def stable [OF s2(3) s3])
    with event False show ?thesis by (auto simp: finish_def ends_in_def)
  qed
qed

lemma read_ends:
  fixes st :: "'w state"
  assumes f: "focus k ls js p s ci None st"
    and g: "on_read_ready (socks5_states os mem ! cur s) = Some g"
    and step: "\<And>m (st1 :: 'w state). focus k ls js p (s\<lparr>stm := m\<rparr>) ci None st1 \<Longrightarrow> world st1 = world st \<Longrightarrow>
      px_services (snd st1) = px_services (snd st) \<Longrightarrow>
      \<exists>st2 s2. g (fd, Some (SocksConn p)) st1 = Some (n, st2) \<and> focus k ls js p s2 i None st2
        \<and> stm s2 = m \<and> (n \<in> {DONE, ERROR_STATE} \<longrightarrow> \<not> resolving s2) \<and> P s2"
    and n: "cur s \<le> COPY" "n \<le> ERROR_STATE" "n \<noteq> COPY" "n = cur s \<Longrightarrow> n \<noteq> REQUEST_WRITE \<and> n \<noteq> REQUEST_RESOLV"
    and stable: "\<And>s2 s3 m. P s2 \<Longrightarrow> arrived n s2 s3 \<Longrightarrow> Q (s3\<lparr>stm := m\<rparr>)"
  shows "\<exists>st'. socksv5_read os mem (fd, Some (SocksConn p)) st = Some st' \<and> ends_in p n i Q st'"
proof -
  have "\<exists>st'. Option.bind (stm_event on_read_ready (socks5_states os mem) get_stm put_stm (fd, Some (SocksConn p)) st)
      (finish os (fd, Some (SocksConn p))) = Some st' \<and> ends_in p n i Q st'"
    by (rule event_ends [where column = on_read_ready and P = P, OF f n(1) g])
      (rule step, assumption+, rule n(2), rule n(3), rule n(4), assumption, rule stable, assumption+)
  then show ?thesis by (simp add: socksv5_read_def stm_handler_read_def)
qed

section \<open>Receiving\<close>

lemma receive_bytes:
  fixes st :: "'w state"
  assumes f: "focus k ls js p s ci oi st" and os: "os_ok os"
    and r: "os_recv os (client_fd s) (buf_room (read_buffer s)) (world st) = (Inr bs, w)" and bs: "bs \<noteq> []"
  shows "\<exists>b st'. receive os c p st = Some (Inr (s\<lparr>read_buffer := b\<rparr>), st') \<and> focus k ls js p s ci oi st'
    \<and> px_services (snd st') = px_services (snd st) \<and> buf_inv b \<and> b_limit b = buffer_size s
    \<and> buf_contents b = buf_contents (read_buffer s) @ bs \<and> world st' = w \<and> fst st' = fst st"
proof -
  let ?b = "read_buffer s"
  note b = conn_ok_buffers [OF focus_conn_ok [OF f]]
  have sys: "sys (os_recv os (client_fd s) (buf_room ?b)) st = (Inr bs, sys_unit (\<lambda>_. w) st)"
    using r by (simp add: sys_def sys_unit_def world_def)
  have "length bs \<le> buf_room ?b" using os_okD(1) [OF os r] .
  from buf_poke_adv [OF b(1) this bs] b(3) obtain b' where
    "buffer_write_adv (buffer_poke ?b (b_write ?b) bs) (int (length bs)) = Some b'" "buf_inv b'"
    "b_limit b' = buffer_size s" "buf_contents b' = buf_contents ?b @ bs" by auto
  with sys bs focus_sys [OF f sys] show ?thesis
    by (intro exI [of _ b'] exI [of _ "sys_unit (\<lambda>_. w) st"])
      (simp add: receive_def focus_get [OF f] buf_write_ptr [OF b(1)] sys_unit_def world_def)
qed

section \<open>Greeting\<close>

text \<open>The method the server answers with: \<open>na\<close> and \<open>up\<close> say which of \<open>NO_AUTH\<close> and \<open>USERPASS\<close> the client offers.\<close>

definition agreed_method :: "bool \<Rightarrow> bool \<Rightarrow> bool \<Rightarrow> byte" where
  "agreed_method required na up =
     (if na \<and> \<not> required then SOCKS5_METHOD_NO_AUTH else if up then SOCKS5_METHOD_USERPASS else SOCKS5_METHOD_NONE)"

lemma choose_agreed: "choose_method cfg s = agreed_method (cfg_auth_required cfg) (has_noauth (hello s)) (has_userpass (hello s))"
  by (simp add: choose_method_def agreed_method_def)

lemma hello_run:
  fixes st :: "'w state"
  assumes f: "focus k ls js p s OP_READ None st" and os: "os_ok os"
    and r: "os_recv os (client_fd s) (buf_room (read_buffer s)) (world st) = (Inr bs, w)" and bs: "bs \<noteq> []"
    and seen: "hello s = foldl hello_parser_feed hello_parser_init seen" "\<not> hello_final (hello s)"
    and idle: "\<not> resolving s"
  defines "res \<equiv> eat hello_parser_feed hello_final hello_parser_init (seen @ buf_contents (read_buffer s) @ bs)"
  shows "\<exists>st' s'. hello_read os (fd, Some (SocksConn p)) st =
      Some (if \<not> hello_final (fst res) then HELLO_READ else if hp_state (fst res) = HELLO_ERROR then ERROR_STATE else HELLO_WRITE, st')
    \<and> focus k ls js p s' (if hp_state (fst res) = HELLO_DONE then OP_WRITE else OP_READ) None st'
    \<and> stm s' = stm s \<and> \<not> resolving s' \<and> hello s' = fst res \<and> buf_contents (read_buffer s') = snd res
    \<and> (hp_state (fst res) = HELLO_DONE \<longrightarrow> nego_method s' = choose_method (sv_cfg (px_services (snd st))) s'
         \<and> buf_contents (write_buffer s') = [5, nego_method s'])"
proof -
  from receive_bytes [OF f os r bs, of HELLO_READ] obtain b sel x where
    rec: "receive os HELLO_READ p st = Some (Inr (s\<lparr>read_buffer := b\<rparr>), sel, x)"
      and f1: "focus k ls js p s OP_READ None (sel, x)" and sv: "px_services x = px_services (snd st)"
      and b: "buf_inv b" "b_limit b = buffer_size s" "buf_contents b = buf_contents (read_buffer s) @ bs" by auto
  from hello.entry_resume [OF b(1), of hello_parser_init seen False] seen obtain b' where
    c: "hello_parser_consume (hello s) b False = Some (fst res, b', hello_final (fst res), hello_final (fst res) \<and> hp_state (fst res) = HELLO_ERROR)"
      "buf_inv b'" "buf_contents b' = snd res" "b_limit b' = buffer_size s"
    by (auto simp: res_def b(2,3))
  let ?s2 = "s\<lparr>hello := fst res, read_buffer := b'\<rparr>"
  let ?s3 = "?s2\<lparr>nego_method := choose_method (sv_cfg (px_services (snd st))) ?s2\<rparr>"
  have f2: "focus k ls js p ?s2 OP_READ None (put_conn p ?s2 (sel, x))"
    using focus_put [OF f1] focus_conn_ok [OF f] c(2,4) by (simp add: same_fds_def conn_ok_def)
  have ok3: "conn_ok ?s3" using focus_conn_ok [OF f2] by (simp add: conn_ok_def)
  obtain wb where wb: "buffer_write_list (buffer_reset (write_buffer s)) [5, nego_method ?s3] = Some wb"
    "buf_inv wb" "b_limit wb = buffer_size s" "buf_contents wb = [5, nego_method ?s3]"
    using write_reply_ok [OF ok3, of "[5, nego_method ?s3]"] by auto
  let ?s4 = "?s3\<lparr>write_buffer := wb\<rparr>"
  have f4: "focus k ls js p ?s4 OP_READ None (put_conn p ?s4 (sel, x))"
    using focus_put [OF f1, of ?s4] ok3 wb(2,3) by (simp add: same_fds_def conn_ok_def)
  obtain st5 where st5: "client_interest p OP_WRITE HELLO_WRITE (put_conn p ?s4 (sel, x)) = Some (HELLO_WRITE, st5)"
    and f5: "focus k ls js p ?s4 OP_WRITE None st5"
    using client_interest_ok [OF f4, of OP_WRITE HELLO_WRITE] by (auto elim!: returns_pairE)
  have run: "hello_read os (fd, Some (SocksConn p)) st =
      (if \<not> hello_final (fst res) then Some (HELLO_READ, put_conn p ?s2 (sel, x))
       else if hp_state (fst res) = HELLO_ERROR then Some (ERROR_STATE, put_conn p ?s2 (sel, x)) else Some (HELLO_WRITE, st5))"
    using c(1) wb(1) st5 by (simp add: hello_read_def rec Let_def config_def sv del: buffer_write_list.simps)
  have ch: "choose_method cfg ?s4 = choose_method cfg ?s2" for cfg by (simp add: choose_agreed)
  show ?thesis
  proof (cases "hp_state (fst res) = HELLO_DONE")
    case True
    with run f5 c(3) wb(4) idle ch show ?thesis
      by (intro exI [of _ st5] exI [of _ ?s4]) (simp add: hello_final_def)
  next
    case False
    with run f2 c(3) idle show ?thesis
      by (intro exI [of _ "put_conn p ?s2 (sel, x)"] exI [of _ ?s2]) (auto simp: hello_final_def)
  qed
qed

text \<open>The three outcomes of a read in \<open>HELLO_READ\<close>\<close>

definition greeted ::
    "proxy_config \<Rightarrow> byte list \<Rightarrow> nat \<Rightarrow> 'w state \<Rightarrow> bool" where
  "greeted cfg input p st \<longleftrightarrow>
     (case hello_message input of
        Incomplete \<Rightarrow> waits_in p HELLO_READ OP_READ (\<lambda>s. hello s = foldl hello_parser_feed hello_parser_init input) st
      | Malformed \<Rightarrow> live (snd st) p = None
      | Accepted (na, up) rest \<Rightarrow> waits_in p HELLO_WRITE OP_WRITE
          (\<lambda>s. nego_method s = agreed_method (cfg_auth_required cfg) na up
             \<and> buf_contents (write_buffer s) = [5, nego_method s] \<and> buf_contents (read_buffer s) = rest) st)"

lemma hello_outcome:
  fixes input :: "byte list"
  defines "r \<equiv> eat hello_parser_feed hello_final hello_parser_init input"
  shows "case hello_message input of
      Incomplete \<Rightarrow> \<not> hello_final (fst r) | Malformed \<Rightarrow> hp_state (fst r) = HELLO_ERROR
    | Accepted m rest \<Rightarrow> hp_state (fst r) = HELLO_DONE \<and> m = (has_noauth (fst r), has_userpass (fst r)) \<and> rest = snd r"
  unfolding hello_eat_message [symmetric] r_def
  by (auto simp: hello_verdict_def hello_final_def split: hello_state.split)

lemma greeting_read:
  fixes st :: "'w state"
  assumes f: "focus k ls js p s OP_READ None st" and c: "cur s = HELLO_READ" and os: "os_ok os" and idle: "\<not> resolving s"
    and r: "os_recv os (client_fd s) (buf_room (read_buffer s)) (world st) = (Inr bs, w)" and bs: "bs \<noteq> []"
    and seen: "hello s = foldl hello_parser_feed hello_parser_init seen" "\<not> hello_final (hello s)"
  shows "\<exists>st'. socksv5_read os mem (fd, Some (SocksConn p)) st = Some st'
    \<and> greeted (sv_cfg (px_services (snd st))) (seen @ buf_contents (read_buffer s) @ bs) p st'"
proof -
  let ?input = "seen @ buf_contents (read_buffer s) @ bs" and ?cfg = "sv_cfg (px_services (snd st))"
  let ?r = "eat hello_parser_feed hello_final hello_parser_init ?input"
  let ?n = "if \<not> hello_final (fst ?r) then HELLO_READ else if hp_state (fst ?r) = HELLO_ERROR then ERROR_STATE else HELLO_WRITE"
  let ?i = "if hp_state (fst ?r) = HELLO_DONE then OP_WRITE else OP_READ"
  let ?P = "\<lambda>s'. hello s' = fst ?r \<and> buf_contents (read_buffer s') = snd ?r
    \<and> (hp_state (fst ?r) = HELLO_DONE \<longrightarrow> nego_method s' = choose_method ?cfg s' \<and> buf_contents (write_buffer s') = [5, nego_method s'])"
  have g: "on_read_ready (socks5_states os mem ! cur s) = Some (hello_read os)" by (simp add: c columns)
  have "\<exists>st'. socksv5_read os mem (fd, Some (SocksConn p)) st = Some st' \<and> ends_in p ?n ?i ?P st'"
  proof (rule read_ends [where P = ?P, OF f g])
    fix m and st1 :: "'w state"
    assume f1: "focus k ls js p (s\<lparr>stm := m\<rparr>) OP_READ None st1" and w1: "world st1 = world st"
      and sv1: "px_services (snd st1) = px_services (snd st)"
    have "os_recv os (client_fd (s\<lparr>stm := m\<rparr>)) (buf_room (read_buffer (s\<lparr>stm := m\<rparr>))) (world st1) = (Inr bs, w)"
      using r by (simp add: w1)
    from hello_run [OF f1 os this bs, of seen fd] seen idle
    show "\<exists>st2 s2. hello_read os (fd, Some (SocksConn p)) st1 = Some (?n, st2) \<and> focus k ls js p s2 ?i None st2
        \<and> stm s2 = m \<and> (?n \<in> {DONE, ERROR_STATE} \<longrightarrow> \<not> resolving s2) \<and> ?P s2"
      by (simp add: sv1 split del: if_split cong: if_cong) blast
  qed (auto simp: c arrived_def choose_agreed state_defs split: if_splits)
  then obtain st' where run: "socksv5_read os mem (fd, Some (SocksConn p)) st = Some st'" and e: "ends_in p ?n ?i ?P st'" by blast
  have "greeted ?cfg ?input p st'"
    using hello_outcome [of ?input] hello.eat_foldl [of hello_parser_init ?input]
      e [unfolded ends_in_def]
    by (cases "hello_message ?input")
      (auto simp: greeted_def hello_final_def choose_agreed arrival_interest_def state_defs elim!: waits_in_mono)
  with run show ?thesis by blast
qed

section \<open>User and password\<close>

lemma cstr_strncpy:
  assumes "length dst = 256" and "length (cstr src) \<le> 255"
  shows "cstr ((strncpy dst src 255)[255 := 0]) = cstr src"
proof -
  let ?s = "cstr src"
  have "length (drop 255 dst) = Suc 0" using assms(1) by simp
  then obtain x where "drop 255 dst = [x]" by (auto simp: length_Suc_conv simp del: length_drop)
  then have "strncpy dst src 255 = ?s @ replicate (255 - length ?s) 0 @ [x]"
    using assms(2) by (simp add: strncpy_def memcpy_at_0 Let_def)
  then have "(strncpy dst src 255)[255 := 0] = ?s @ replicate (255 - length ?s) 0 @ [0]"
    using assms(2) by (simp add: list_update_append)
  then show ?thesis by (cases "255 - length ?s") (simp_all add: cstr_append)
qed

lemma auth_outcome:
  fixes input :: "byte list"
  assumes "auth_arrays p"
  defines "r \<equiv> eat auth_parser_feed auth_final (auth_parser_init p) input"
  shows "case auth_message input of
      Incomplete \<Rightarrow> \<not> auth_final (fst r) | Malformed \<Rightarrow> ap_state (fst r) = AUTH_ERROR
    | Accepted m rest \<Rightarrow> ap_state (fst r) = AUTH_DONE \<and> rest = snd r
        \<and> cstr (ap_username (fst r)) = cstr (fst m) \<and> cstr (ap_password (fst r)) = cstr (snd m)
        \<and> length (fst m) \<le> 255"
proof -
  have arrays: "auth_arrays (fst r)"
    unfolding r_def by (rule eat_invariant [where P = auth_arrays, OF _ auth_arrays_feed])
      (use assms(1) in \<open>auto simp: auth_arrays_def auth_parser_init_def\<close>)
  have byte: "unat n \<le> 255" for n :: byte using unat_byte_lt [of n] by linarith
  have field: "cstr arr = cstr x \<and> length x \<le> 255" if "field_of arr n = Some x" "length arr = 256" for arr n x
    using that byte [of n] cstr_take_nul [of "unat n" arr] by (auto simp: field_of_def split: if_splits)
  note v = auth_eat_message [OF assms(1), of input, folded r_def]
  show ?thesis
  proof (cases "auth_message input")
    case (Accepted m rest)
    with v have "ap_state (fst r) = AUTH_DONE" "field_of (ap_username (fst r)) (ap_ulen (fst r)) = Some (fst m)"
      "field_of (ap_password (fst r)) (ap_plen (fst r)) = Some (snd m)" "rest = snd r"
      by (auto simp: auth_verdict_def split: auth_state.splits prod.splits)
    with Accepted arrays show ?thesis by (auto simp: auth_arrays_def dest: field)
  qed (use v in \<open>auto simp: auth_verdict_def auth_final_def split: auth_state.splits\<close>)
qed

lemma auth_run:
  fixes st :: "'w state"
  assumes f: "focus k ls js p s OP_READ None st" and os: "os_ok os"
    and r: "os_recv os (client_fd s) (buf_room (read_buffer s)) (world st) = (Inr bs, w)" and bs: "bs \<noteq> []"
    and seen: "auth s = foldl auth_parser_feed (auth_parser_init p0) seen" "\<not> auth_final (auth s)"
    and idle: "\<not> resolving s"
  defines "res \<equiv> eat auth_parser_feed auth_final (auth_parser_init p0) (seen @ buf_contents (read_buffer s) @ bs)"
  shows "\<exists>st' s'. auth_read os (fd, Some (SocksConn p)) st =
      Some (if \<not> auth_final (fst res) then AUTH_READ else if ap_state (fst res) = AUTH_ERROR then ERROR_STATE else AUTH_WRITE, st')
    \<and> focus k ls js p s' (if ap_state (fst res) = AUTH_DONE then OP_WRITE else OP_READ) None st'
    \<and> stm s' = stm s \<and> \<not> resolving s' \<and> auth s' = fst res \<and> buf_contents (read_buffer s') = snd res
    \<and> (ap_state (fst res) = AUTH_DONE \<longrightarrow>
         auth_ok s' = users_check (sv_users (px_services (snd st))) (Some (ap_username (fst res))) (Some (ap_password (fst res)))
         \<and> username s' = (strncpy (username s) (ap_username (fst res)) 255)[255 := 0]
         \<and> buf_contents (write_buffer s') = [1, if auth_ok s' then 0 else 1])"
proof -
  from receive_bytes [OF f os r bs, of AUTH_READ] obtain b sel x where
    rec: "receive os AUTH_READ p st = Some (Inr (s\<lparr>read_buffer := b\<rparr>), sel, x)"
      and f1: "focus k ls js p s OP_READ None (sel, x)" and sv: "px_services x = px_services (snd st)"
      and b: "buf_inv b" "b_limit b = buffer_size s" "buf_contents b = buf_contents (read_buffer s) @ bs" by auto
  from auth.entry_resume [OF b(1), of "auth_parser_init p0" seen False] seen obtain b' where
    c: "auth_parser_consume (auth s) b False = Some (fst res, b', auth_final (fst res), auth_final (fst res) \<and> ap_state (fst res) = AUTH_ERROR)"
      "buf_inv b'" "buf_contents b' = snd res" "b_limit b' = buffer_size s"
    by (auto simp: res_def b(2,3))
  have "length (ap_username (auth s)) = 256 \<and> length (ap_password (auth s)) = 256"
    using focus_conn_ok [OF f] by (simp add: conn_ok_def)
  from auth.entry_total [OF b(1) this conn_ok_auth_feed, of False] c(1)
  have arrays: "length (ap_username (fst res)) = 256" "length (ap_password (fst res)) = 256" by auto
  let ?s2 = "s\<lparr>auth := fst res, read_buffer := b'\<rparr>"
  let ?s3 = "?s2\<lparr>auth_ok := users_check (sv_users (px_services (snd st))) (Some (ap_username (fst res))) (Some (ap_password (fst res))),
    username := (strncpy (username s) (ap_username (fst res)) 255)[255 := 0]\<rparr>"
  have f2: "focus k ls js p ?s2 OP_READ None (put_conn p ?s2 (sel, x))"
    using focus_put [OF f1] focus_conn_ok [OF f] c(2,4) arrays by (simp add: same_fds_def conn_ok_def)
  have ok3: "conn_ok ?s3" using focus_conn_ok [OF f2] by (simp add: conn_ok_def length_strncpy)
  obtain wb where wb: "buffer_write_list (buffer_reset (write_buffer s)) [1, if auth_ok ?s3 then 0 else 1] = Some wb"
    "buf_inv wb" "b_limit wb = buffer_size s" "buf_contents wb = [1, if auth_ok ?s3 then 0 else 1]"
    using write_reply_ok [OF ok3, of "[1, if auth_ok ?s3 then 0 else 1]"] by auto
  let ?s4 = "?s3\<lparr>write_buffer := wb\<rparr>"
  have f4: "focus k ls js p ?s4 OP_READ None (put_conn p ?s4 (sel, x))"
    using focus_put [OF f1, of ?s4] ok3 wb(2,3) by (simp add: same_fds_def conn_ok_def)
  obtain st5 where st5: "client_interest p OP_WRITE AUTH_WRITE (put_conn p ?s4 (sel, x)) = Some (AUTH_WRITE, st5)"
    and f5: "focus k ls js p ?s4 OP_WRITE None st5"
    using client_interest_ok [OF f4, of OP_WRITE AUTH_WRITE] by (auto elim!: returns_pairE)
  have run: "auth_read os (fd, Some (SocksConn p)) st =
      (if \<not> auth_final (fst res) then Some (AUTH_READ, put_conn p ?s2 (sel, x))
       else if ap_state (fst res) = AUTH_ERROR then Some (ERROR_STATE, put_conn p ?s2 (sel, x)) else Some (AUTH_WRITE, st5))"
    using c(1) wb(1) st5 by (simp add: auth_read_def rec Let_def sv del: buffer_write_list.simps)
  show ?thesis
  proof (cases "ap_state (fst res) = AUTH_DONE")
    case True
    with run f5 c(3) wb(4) idle show ?thesis
      by (intro exI [of _ st5] exI [of _ ?s4]) (simp add: auth_final_def)
  next
    case False
    with run f2 c(3) idle show ?thesis
      by (intro exI [of _ "put_conn p ?s2 (sel, x)"] exI [of _ ?s2]) (auto simp: auth_final_def)
  qed
qed

definition authenticated ::
    "user_db \<Rightarrow> auth_parser \<Rightarrow> byte list \<Rightarrow> nat \<Rightarrow> 'w state \<Rightarrow> bool" where
  "authenticated db p0 input p st \<longleftrightarrow>
     (case auth_message input of
        Incomplete \<Rightarrow> waits_in p AUTH_READ OP_READ (\<lambda>s. auth s = foldl auth_parser_feed p0 input) st
      | Malformed \<Rightarrow> live (snd st) p = None
      | Accepted (u, w) rest \<Rightarrow> waits_in p AUTH_WRITE OP_WRITE
          (\<lambda>s. auth_ok s = (users_map db (cstr u) = Some (cstr w)) \<and> cstr (username s) = cstr u
             \<and> buf_contents (write_buffer s) = [1, if auth_ok s then 0 else 1] \<and> buf_contents (read_buffer s) = rest) st)"

lemma authentication_read:
  fixes st :: "'w state"
  assumes f: "focus k ls js p s OP_READ None st" and c: "cur s = AUTH_READ" and os: "os_ok os" and idle: "\<not> resolving s"
    and r: "os_recv os (client_fd s) (buf_room (read_buffer s)) (world st) = (Inr bs, w)" and bs: "bs \<noteq> []"
    and seen: "auth s = foldl auth_parser_feed (auth_parser_init p0) seen" "\<not> auth_final (auth s)" and p0: "auth_arrays p0"
  shows "\<exists>st'. socksv5_read os mem (fd, Some (SocksConn p)) st = Some st'
    \<and> authenticated (sv_users (px_services (snd st))) (auth_parser_init p0) (seen @ buf_contents (read_buffer s) @ bs) p st'"
proof -
  let ?input = "seen @ buf_contents (read_buffer s) @ bs" and ?db = "sv_users (px_services (snd st))"
  let ?r = "eat auth_parser_feed auth_final (auth_parser_init p0) ?input"
  let ?n = "if \<not> auth_final (fst ?r) then AUTH_READ else if ap_state (fst ?r) = AUTH_ERROR then ERROR_STATE else AUTH_WRITE"
  let ?i = "if ap_state (fst ?r) = AUTH_DONE then OP_WRITE else OP_READ"
  let ?P = "\<lambda>s'. auth s' = fst ?r \<and> buf_contents (read_buffer s') = snd ?r
    \<and> (ap_state (fst ?r) = AUTH_DONE \<longrightarrow>
         auth_ok s' = users_check ?db (Some (ap_username (fst ?r))) (Some (ap_password (fst ?r)))
         \<and> username s' = (strncpy (username s) (ap_username (fst ?r)) 255)[255 := 0]
         \<and> buf_contents (write_buffer s') = [1, if auth_ok s' then 0 else 1])"
  have g: "on_read_ready (socks5_states os mem ! cur s) = Some (auth_read os)" by (simp add: c columns)
  have "\<exists>st'. socksv5_read os mem (fd, Some (SocksConn p)) st = Some st' \<and> ends_in p ?n ?i ?P st'"
  proof (rule read_ends [where P = ?P, OF f g])
    fix m and st1 :: "'w state"
    assume f1: "focus k ls js p (s\<lparr>stm := m\<rparr>) OP_READ None st1" and w1: "world st1 = world st"
      and sv1: "px_services (snd st1) = px_services (snd st)"
    have "os_recv os (client_fd (s\<lparr>stm := m\<rparr>)) (buf_room (read_buffer (s\<lparr>stm := m\<rparr>))) (world st1) = (Inr bs, w)"
      using r by (simp add: w1)
    from auth_run [OF f1 os this bs, of p0 seen fd] seen idle
    show "\<exists>st2 s2. auth_read os (fd, Some (SocksConn p)) st1 = Some (?n, st2) \<and> focus k ls js p s2 ?i None st2
        \<and> stm s2 = m \<and> (?n \<in> {DONE, ERROR_STATE} \<longrightarrow> \<not> resolving s2) \<and> ?P s2"
      by (simp add: sv1 split del: if_split cong: if_cong) blast
  qed (auto simp: c arrived_def choose_agreed state_defs split: if_splits)
  then obtain st' where run: "socksv5_read os mem (fd, Some (SocksConn p)) st = Some st'" and e: "ends_in p ?n ?i ?P st'" by blast
  have users: "users_inv ?db" using focus_services [OF f] by (simp add: services_inv_def)
  have len: "length (username s) = 256" using focus_conn_ok [OF f] by (simp add: conn_ok_def)
  have short: "length (cstr u) \<le> 255" if "length u \<le> 255" for u using length_cstr_le [of u] that by simp
  have "authenticated ?db (auth_parser_init p0) ?input p st'"
    using auth_outcome [OF p0, of ?input] auth.eat_foldl [of "auth_parser_init p0" ?input] e [unfolded ends_in_def]
    by (cases "auth_message ?input")
      (auto simp: authenticated_def auth_final_def users_check_spec [OF users] cstr_strncpy [OF len] short
        arrival_interest_def state_defs elim!: waits_in_mono)
  with run show ?thesis by blast
qed

section \<open>Request\<close>

lemma request_outcome:
  fixes input :: "byte list"
  assumes "length (rp_addr p) = 256"
  defines "r \<equiv> eat request_parser_feed request_final (request_parser_init p) input"
  shows "case request_message input of
      Incomplete \<Rightarrow> \<not> request_final (fst r) | Malformed \<Rightarrow> rp_state (fst r) = REQ_ERROR
    | Accepted (cmd, atyp, addr, port) rest \<Rightarrow> rp_state (fst r) = REQ_DONE \<and> rest = snd r
        \<and> rp_cmd (fst r) = cmd \<and> rp_atyp (fst r) = atyp \<and> rp_port (fst r) = port
        \<and> request_addr (fst r) = Some addr"
  using request_eat_message [OF assms(1), of input, folded r_def]
  by (cases "request_message input")
    (auto simp: request_verdict_def request_final_def split: request_state.splits)

lemma domain_addr:
  assumes "rp_atyp q = SOCKS5_ATYP_DOMAIN" and "request_addr q = Some addr" and "length (rp_addr q) = 256"
  shows "cstr (rp_addr q) = cstr addr" and "length (cstr addr) \<le> 255"
proof -
  let ?n = "unat (rp_addr_len q)"
  have n: "?n < 256" using unat_byte_lt .
  have addr: "addr = take ?n (rp_addr q)" and "rp_addr q ! ?n = 0"
    using assms by (auto simp: request_addr_def field_of_def split: if_splits)
  with assms(3) n show "cstr (rp_addr q) = cstr addr" by (simp add: cstr_take_nul [symmetric])
  have "length (cstr addr) \<le> length addr" "length addr \<le> ?n" using length_cstr_le [of addr] addr by simp_all
  with n show "length (cstr addr) \<le> 255" by linarith
qed

lemma set_interest_dom:
  assumes f: "focus k ls js p s ci oi st" and set: "set_interest fd i st = Some (r, st')"
  shows "dom (sel_map (fst st')) = dom (sel_map (fst st))"
proof -
  have "sel_inv (fst st)" using f by (simp add: focus_def)
  from set_interest_law [OF this, of fd i] set have "sel_map (fst st') = (case sel_map (fst st) fd of
      None \<Rightarrow> sel_map (fst st) | Some (_, h, d) \<Rightarrow> (sel_map (fst st))(fd \<mapsto> (i, h, d)))"
    by (auto simp: set_interest_def)
  then show ?thesis by (auto simp: dom_def split: option.split prod.split)
qed

text \<open>The lines of \<open>request_read\<close> before \<open>process_request\<close>\<close>

lemma request_run:
  fixes st :: "'w state"
  assumes f: "focus k ls js p s OP_READ None st" and os: "os_ok os"
    and r: "os_recv os (client_fd s) (buf_room (read_buffer s)) (world st) = (Inr bs, w)" and bs: "bs \<noteq> []"
    and seen: "request s = foldl request_parser_feed (request_parser_init p0) seen" "\<not> request_final (request s)"
  defines "res \<equiv> eat request_parser_feed request_final (request_parser_init p0) (seen @ buf_contents (read_buffer s) @ bs)"
  shows "\<exists>st' s'. request_read os (fd, Some (SocksConn p)) st =
      (if \<not> request_final (fst res) then Some (REQUEST_READ, st')
       else if rp_state (fst res) = REQ_ERROR then Some (REQUEST_WRITE, put_conn p (s'\<lparr>reply := SOCKS5_REP_GENERAL_FAILURE\<rparr>) st')
       else process_request os p (fd, Some (SocksConn p)) st')
    \<and> focus k ls js p s' (if request_final (fst res) then OP_NOOP else OP_READ) None st' \<and> world st' = w
    \<and> stm s' = stm s \<and> resolving s' = resolving s \<and> request s' = fst res \<and> buf_contents (read_buffer s') = snd res
    \<and> reply s' = reply s \<and> dom (sel_map (fst st')) = dom (sel_map (fst st))"
proof -
  from receive_bytes [OF f os r bs, of REQUEST_READ] obtain b sel x where
    rec: "receive os REQUEST_READ p st = Some (Inr (s\<lparr>read_buffer := b\<rparr>), sel, x)"
      and f1: "focus k ls js p s OP_READ None (sel, x)" and w: "world (sel, x) = w" "sel = fst st"
      and b: "buf_inv b" "b_limit b = buffer_size s" "buf_contents b = buf_contents (read_buffer s) @ bs" by auto
  from request.entry_resume [OF b(1), of "request_parser_init p0" seen False] seen obtain b' where
    c: "request_parser_consume (request s) b False =
        Some (fst res, b', request_final (fst res), request_final (fst res) \<and> rp_state (fst res) = REQ_ERROR)"
      "buf_inv b'" "buf_contents b' = snd res" "b_limit b' = buffer_size s"
    by (auto simp: res_def b(2,3))
  have "length (rp_addr (request s)) = 256" using focus_conn_ok [OF f] by (simp add: conn_ok_def)
  from request.entry_total [OF b(1) this length_request_feed, of False] c(1)
  have len: "length (rp_addr (fst res)) = 256" by auto
  let ?s2 = "s\<lparr>request := fst res, read_buffer := b'\<rparr>"
  have f2: "focus k ls js p ?s2 OP_READ None (put_conn p ?s2 (sel, x))"
    using focus_put [OF f1] focus_conn_ok [OF f] c(2,4) len by (simp add: same_fds_def conn_ok_def)
  obtain st3 where st3: "set_interest (client_fd s) OP_NOOP (put_conn p ?s2 (sel, x)) = Some (SELECTOR_SUCCESS, st3)"
    and f3: "focus k ls js p ?s2 OP_NOOP None st3"
    using focus_interest_client [OF f2, of OP_NOOP] by (auto elim!: returns_pairE)
  have w3: "world st3 = w" using world_set_interest [OF st3] w by simp
  have "dom (sel_map (fst st3)) = dom (sel_map (fst (put_conn p ?s2 (sel, x))))" by (rule set_interest_dom [OF f2 st3])
  then have d3: "dom (sel_map (fst st3)) = dom (sel_map (fst st))" by (simp add: put_conn_def w(2))
  have run: "request_read os (fd, Some (SocksConn p)) st =
      (if \<not> request_final (fst res) then Some (REQUEST_READ, put_conn p ?s2 (sel, x))
       else if rp_state (fst res) = REQ_ERROR then Some (REQUEST_WRITE, put_conn p (?s2\<lparr>reply := SOCKS5_REP_GENERAL_FAILURE\<rparr>) st3)
       else process_request os p (fd, Some (SocksConn p)) st3)"
    using c(1) st3 by (simp add: request_read_def rec Let_def)
  show ?thesis
  proof (cases "request_final (fst res)")
    case True
    with run f3 w3 c(3) d3 show ?thesis by (intro exI [of _ st3] exI [of _ ?s2]) simp
  next
    case False
    with run f2 w c(3) show ?thesis
      by (intro exI [of _ "put_conn p ?s2 (sel, x)"] exI [of _ ?s2]) (simp add: put_conn_def world_def)
  qed
qed

text \<open>What a resolver thread is started with\<close>

definition asks_for :: "byte list \<Rightarrow> u16 \<Rightarrow> nat \<Rightarrow> socks5 \<Rightarrow> bool" where
  "asks_for host port p s \<longleftrightarrow> resolving s \<and> cstr (dq_host (dns s)) = host \<and> cstr (dq_service (dns s)) = show_nat (unat port)
     \<and> dq_notify_fd (dns s) = client_fd s \<and> dq_conn (dns s) = p
     \<and> cstr (dest_host s) = host \<and> dest_port s = port"

lemma domain_run:
  fixes st :: "'w state"
  assumes f: "focus k ls js p s OP_NOOP None st" and idle: "\<not> resolving s"
    and rq: "rp_cmd (request s) = SOCKS5_CMD_CONNECT" "rp_atyp (request s) = SOCKS5_ATYP_DOMAIN"
      "request_addr (request s) = Some addr" and t: "os_thread_start os (world st) = (a, b, w)"
  shows "\<exists>st' s'. process_request os p key st = Some (if a \<and> b then REQUEST_RESOLV else REQUEST_WRITE, st')
    \<and> focus k ls js p s' OP_NOOP None st' \<and> stm s' = stm s
    \<and> (if a \<and> b then asks_for (cstr addr) (rp_port (request s)) p s' else reply s' = SOCKS5_REP_GENERAL_FAILURE)"
proof -
  let ?rq = "request s" and ?port = "rp_port (request s)"
  note ok = focus_conn_ok [OF f]
  have len: "length (rp_addr ?rq) = 256" "length (dest_host s) = 256" using ok by (simp_all add: conn_ok_def)
  note addr = domain_addr [OF rq(2,3) len(1)]
  have host: "cstr ((strncpy (dest_host s) (rp_addr ?rq) 255)[255 := 0]) = cstr addr"
    using cstr_strncpy [OF len(2), of "rp_addr ?rq"] addr by simp
  define s1 where "s1 = s\<lparr>dest_port := ?port, dest_host := (strncpy (dest_host s) (rp_addr ?rq) 255)[255 := 0],
    dns := dns_blank\<lparr>dq_notify_fd := client_fd s, dq_conn := p,
      dq_host := snprintf_s (dq_host dns_blank) 256 ((strncpy (dest_host s) (rp_addr ?rq) 255)[255 := 0]),
      dq_service := memcpy_at (dq_service dns_blank) 0 (show_nat (unat ?port) @ [0])\<rparr>\<rparr>"
  have s1: "conn_ok s1" "same_fds s s1" using ok by (simp_all add: s1_def same_fds_def conn_ok_def length_strncpy)
  have f1: "focus k ls js p s1 OP_NOOP None (put_conn p s1 st)" using focus_put [OF f s1(2,1)] .
  have sys: "sys (\<lambda>w. let (a, b, w) = os_thread_start os w in ((a, b), w)) (put_conn p s1 st) =
      ((a, b), sys_unit (\<lambda>_. w) (put_conn p s1 st))"
    using t by (simp add: sys_def sys_unit_def put_conn_def world_def)
  let ?st = "sys_unit (\<lambda>_. w) (put_conn p s1 st)"
  have f2: "focus k ls js p s1 OP_NOOP None ?st" by (rule focus_sys [OF f1 sys])
  let ?s2 = "if a \<and> b then s1\<lparr>resolving := True\<rparr> else s1\<lparr>reply := SOCKS5_REP_GENERAL_FAILURE\<rparr>"
  have "process_request os p key st =
      Some (if a \<and> b then REQUEST_RESOLV else REQUEST_WRITE, put_conn p ?s2 ?st)"
    using rq sys by (simp add: process_request_def focus_get [OF f] SOCKS5_ATYP_IPV4_def SOCKS5_ATYP_IPV6_def
        SOCKS5_ATYP_DOMAIN_def Let_def s1_def dns_resolve_async_def)
  moreover have "focus k ls js p ?s2 OP_NOOP None (put_conn p ?s2 ?st)"
    using focus_put [OF f2, of ?s2] s1 by (simp add: same_fds_def conn_ok_def)
  moreover have "if a \<and> b then asks_for (cstr addr) ?port p ?s2 else reply ?s2 = SOCKS5_REP_GENERAL_FAILURE"
    using addr(2) by (simp add: asks_for_def s1_def host cstr_snprintf_s cstr_memcpy_nul cstr_no_nul show_nat_no_nul)
  moreover have "stm ?s2 = stm s" by (simp add: s1_def)
  ultimately show ?thesis by (intro exI [of _ "put_conn p ?s2 ?st"] exI [of _ ?s2]) simp
qed

text \<open>The bytes of an answer without an address\<close>

definition refusal :: "byte \<Rightarrow> byte list" where
  "refusal rep = [5, rep, 0, 1, 0, 0, 0, 0, 0, 0]"

lemma reply_bytes_refusal: "reply_bytes rep None = refusal rep"
  by (simp add: reply_bytes_def refusal_def SOCKS5_ATYP_IPV4_def numeral_eq_Suc)

text \<open>What a read in \<open>REQUEST_READ\<close> leads to, when the request does not carry a literal address; \<open>started\<close> says
  whether a resolver thread can be started.\<close>

definition requested_outcome :: "bool \<Rightarrow> request_parser \<Rightarrow> byte list \<Rightarrow> nat \<Rightarrow> 'w state \<Rightarrow> bool" where
  "requested_outcome started p0 input p st \<longleftrightarrow>
     (let refused = (\<lambda>rep. waits_in p REQUEST_WRITE OP_WRITE (\<lambda>s. reply s = rep \<and> buf_contents (write_buffer s) = refusal rep) st) in
      case request_message input of
        Incomplete \<Rightarrow> waits_in p REQUEST_READ OP_READ (\<lambda>s. request s = foldl request_parser_feed p0 input) st
      | Malformed \<Rightarrow> refused SOCKS5_REP_GENERAL_FAILURE
      | Accepted (cmd, atyp, addr, port) rest \<Rightarrow>
          if cmd \<noteq> SOCKS5_CMD_CONNECT then refused SOCKS5_REP_COMMAND_NOT_SUPPORTED
          else if started then waits_in p REQUEST_RESOLV OP_NOOP (asks_for (cstr addr) port p) st
          else refused SOCKS5_REP_GENERAL_FAILURE)"

lemma request_arrives:
  fixes st :: "'w state"
  assumes f: "focus k ls js p s OP_READ None st" and c: "cur s = REQUEST_READ" and os: "os_ok os" and idle: "\<not> resolving s"
    and r: "os_recv os (client_fd s) (buf_room (read_buffer s)) (world st) = (Inr bs, w)" and bs: "bs \<noteq> []"
    and seen: "request s = foldl request_parser_feed (request_parser_init p0) seen" "\<not> request_final (request s)"
    and p0: "length (rp_addr p0) = 256"
    and t: "os_thread_start os w = (a, b, w')"
    and kind: "\<And>cmd atyp addr port rest. request_message (seen @ buf_contents (read_buffer s) @ bs) =
      Accepted (cmd, atyp, addr, port) rest \<Longrightarrow> cmd \<noteq> SOCKS5_CMD_CONNECT \<or> atyp = SOCKS5_ATYP_DOMAIN"
  shows "\<exists>st'. socksv5_read os mem (fd, Some (SocksConn p)) st = Some st'
    \<and> requested_outcome (a \<and> b) (request_parser_init p0) (seen @ buf_contents (read_buffer s) @ bs) p st'"
proof -
  let ?input = "seen @ buf_contents (read_buffer s) @ bs"
  let ?r = "eat request_parser_feed request_final (request_parser_init p0) ?input"
  let ?q = "fst ?r"
  have run: "\<exists>st' s'. request_read os (fd, Some (SocksConn p)) st1 =
      (if \<not> request_final ?q then Some (REQUEST_READ, st')
       else if rp_state ?q = REQ_ERROR then Some (REQUEST_WRITE, put_conn p (s'\<lparr>reply := SOCKS5_REP_GENERAL_FAILURE\<rparr>) st')
       else process_request os p (fd, Some (SocksConn p)) st')
    \<and> focus k ls js p s' (if request_final ?q then OP_NOOP else OP_READ) None st' \<and> world st' = w
    \<and> stm s' = m \<and> resolving s' = resolving s \<and> request s' = ?q \<and> buf_contents (read_buffer s') = snd ?r
    \<and> reply s' = reply s \<and> dom (sel_map (fst st')) = dom (sel_map (fst st1))"
    if f1: "focus k ls js p (s\<lparr>stm := m\<rparr>) OP_READ None st1" and w1: "world st1 = world st" for m and st1 :: "'w state"
  proof -
    have "os_recv os (client_fd (s\<lparr>stm := m\<rparr>)) (buf_room (read_buffer (s\<lparr>stm := m\<rparr>))) (world st1) = (Inr bs, w)"
      using r by (simp add: w1)
    from request_run [OF f1 os this bs, of p0 seen fd] seen show ?thesis by (simp split del: if_split cong: if_cong)
  qed
  have g: "on_read_ready (socks5_states os mem ! cur s) = Some (request_read os)" by (simp add: c columns)
  have refused: "\<exists>st'. socksv5_read os mem (fd, Some (SocksConn p)) st = Some st'
      \<and> waits_in p REQUEST_WRITE OP_WRITE (\<lambda>s. reply s = rep \<and> buf_contents (write_buffer s) = refusal rep) st'"
    if reason: "\<And>m (st1 :: 'w state). focus k ls js p (s\<lparr>stm := m\<rparr>) OP_READ None st1 \<Longrightarrow> world st1 = world st \<Longrightarrow>
      \<exists>st2 s2. request_read os (fd, Some (SocksConn p)) st1 = Some (REQUEST_WRITE, st2) \<and> focus k ls js p s2 OP_NOOP None st2
        \<and> stm s2 = m \<and> reply s2 = rep" for rep
  proof -
    have "\<exists>st'. socksv5_read os mem (fd, Some (SocksConn p)) st = Some st'
        \<and> ends_in p REQUEST_WRITE OP_NOOP (\<lambda>s. reply s = rep \<and> buf_contents (write_buffer s) = refusal rep) st'"
    proof (rule read_ends [where P = "\<lambda>s2. reply s2 = rep", OF f g])
      show "\<exists>st2 s2. request_read os (fd, Some (SocksConn p)) st1 = Some (REQUEST_WRITE, st2) \<and> focus k ls js p s2 OP_NOOP None st2
          \<and> stm s2 = m \<and> (REQUEST_WRITE \<in> {DONE, ERROR_STATE} \<longrightarrow> \<not> resolving s2) \<and> reply s2 = rep"
        if "focus k ls js p (s\<lparr>stm := m\<rparr>) OP_READ None st1" "world st1 = world st" for m and st1 :: "'w state"
        using reason [OF that] by (auto simp: state_defs)
    qed (auto simp: c arrived_def reply_bytes_refusal state_defs)
    then show ?thesis by (simp add: ends_in_def arrival_interest_def state_defs)
  qed
  note out = request_outcome [OF p0, of ?input]
  show ?thesis
  proof (cases "request_message ?input")
    case Incomplete
    with out have more: "\<not> request_final ?q" by simp
    have "\<exists>st'. socksv5_read os mem (fd, Some (SocksConn p)) st = Some st'
        \<and> ends_in p REQUEST_READ OP_READ (\<lambda>s. request s = foldl request_parser_feed (request_parser_init p0) ?input) st'"
    proof (rule read_ends [where P = "\<lambda>s. request s = ?q", OF f g])
      show "\<exists>st2 s2. request_read os (fd, Some (SocksConn p)) st1 = Some (REQUEST_READ, st2) \<and> focus k ls js p s2 OP_READ None st2
          \<and> stm s2 = m \<and> (REQUEST_READ \<in> {DONE, ERROR_STATE} \<longrightarrow> \<not> resolving s2) \<and> request s2 = ?q"
        if "focus k ls js p (s\<lparr>stm := m\<rparr>) OP_READ None st1" "world st1 = world st" for m and st1 :: "'w state"
        using run [OF that] more by (auto simp: state_defs)
    qed (simp_all add: c arrived_def state_defs request.eat_foldl)
    with Incomplete show ?thesis by (simp add: requested_outcome_def ends_in_def arrival_interest_def state_defs)
  next
    case Malformed
    with out have q: "rp_state ?q = REQ_ERROR" "request_final ?q" by (simp_all add: request_final_def)
    have "\<exists>st2 s2. request_read os (fd, Some (SocksConn p)) st1 = Some (REQUEST_WRITE, st2) \<and> focus k ls js p s2 OP_NOOP None st2
        \<and> stm s2 = m \<and> reply s2 = SOCKS5_REP_GENERAL_FAILURE"
      if "focus k ls js p (s\<lparr>stm := m\<rparr>) OP_READ None st1" "world st1 = world st" for m and st1 :: "'w state"
    proof -
      from run [OF that] q obtain st' s' where
        st': "request_read os (fd, Some (SocksConn p)) st1 = Some (REQUEST_WRITE, put_conn p (s'\<lparr>reply := SOCKS5_REP_GENERAL_FAILURE\<rparr>) st')"
        and f': "focus k ls js p s' OP_NOOP None st'" and m: "stm s' = m" by auto
      let ?s = "s'\<lparr>reply := SOCKS5_REP_GENERAL_FAILURE\<rparr>"
      have "focus k ls js p ?s OP_NOOP None (put_conn p ?s st')"
        using focus_put [OF f', of ?s] focus_conn_ok [OF f'] by (simp add: same_fds_def conn_ok_def)
      with st' m show ?thesis by (intro exI [of _ "put_conn p ?s st'"] exI [of _ ?s]) simp
    qed
    from refused [OF this] Malformed show ?thesis by (simp add: requested_outcome_def)
  next
    case (Accepted m rest)
    obtain cmd atyp addr port where m: "m = (cmd, atyp, addr, port)" by (cases m)
    with out Accepted have q: "rp_state ?q = REQ_DONE" "request_final ?q" "rp_cmd ?q = cmd" "rp_atyp ?q = atyp"
      "rp_port ?q = port" "request_addr ?q = Some addr" by (simp_all add: request_final_def)
    have process: "\<exists>st' s'. request_read os (fd, Some (SocksConn p)) st1 = process_request os p (fd, Some (SocksConn p)) st'
        \<and> focus k ls js p s' OP_NOOP None st' \<and> world st' = w \<and> stm s' = n \<and> \<not> resolving s' \<and> request s' = ?q"
      if "focus k ls js p (s\<lparr>stm := n\<rparr>) OP_READ None st1" "world st1 = world st" for n and st1 :: "'w state"
      using run [OF that] q idle by auto
    show ?thesis
    proof (cases "cmd = SOCKS5_CMD_CONNECT")
      case False
      have "\<exists>st2 s2. request_read os (fd, Some (SocksConn p)) st1 = Some (REQUEST_WRITE, st2) \<and> focus k ls js p s2 OP_NOOP None st2
          \<and> stm s2 = n \<and> reply s2 = SOCKS5_REP_COMMAND_NOT_SUPPORTED"
        if "focus k ls js p (s\<lparr>stm := n\<rparr>) OP_READ None st1" "world st1 = world st" for n and st1 :: "'w state"
      proof -
        from process [OF that] obtain st' s' where
          st': "request_read os (fd, Some (SocksConn p)) st1 = process_request os p (fd, Some (SocksConn p)) st'"
          and f': "focus k ls js p s' OP_NOOP None st'" and s': "stm s' = n" "request s' = ?q" by blast
        let ?s = "s'\<lparr>reply := SOCKS5_REP_COMMAND_NOT_SUPPORTED\<rparr>"
        have "focus k ls js p ?s OP_NOOP None (put_conn p ?s st')"
          using focus_put [OF f', of ?s] focus_conn_ok [OF f'] by (simp add: same_fds_def conn_ok_def)
        moreover have "process_request os p (fd, Some (SocksConn p)) st' = Some (REQUEST_WRITE, put_conn p ?s st')"
          using False q(3) s'(2) by (simp add: process_request_def focus_get [OF f'])
        ultimately show ?thesis using st' s'(1) by (intro exI [of _ "put_conn p ?s st'"] exI [of _ ?s]) simp
      qed
      from refused [OF this] Accepted m False show ?thesis by (simp add: requested_outcome_def)
    next
      case True
      with kind Accepted m have atyp: "atyp = SOCKS5_ATYP_DOMAIN" by blast
      have domain: "\<exists>st2 s2. request_read os (fd, Some (SocksConn p)) st1 = Some (if a \<and> b then REQUEST_RESOLV else REQUEST_WRITE, st2)
          \<and> focus k ls js p s2 OP_NOOP None st2 \<and> stm s2 = n
          \<and> (if a \<and> b then asks_for (cstr addr) port p s2 else reply s2 = SOCKS5_REP_GENERAL_FAILURE)"
        if "focus k ls js p (s\<lparr>stm := n\<rparr>) OP_READ None st1" "world st1 = world st" for n and st1 :: "'w state"
      proof -
        from process [OF that] obtain st' s' where
          st': "request_read os (fd, Some (SocksConn p)) st1 = process_request os p (fd, Some (SocksConn p)) st'"
          and f': "focus k ls js p s' OP_NOOP None st'" and s': "world st' = w" "stm s' = n" "\<not> resolving s'" "request s' = ?q" by blast
        show ?thesis
          using domain_run [OF f' s'(3), of addr os a b w' "(fd, Some (SocksConn p))"] s' q atyp True t
          by (simp add: st' split del: if_split cong: if_cong)
      qed
      show ?thesis
      proof (cases "a \<and> b")
        case True
        have "\<exists>st'. socksv5_read os mem (fd, Some (SocksConn p)) st = Some st'
            \<and> ends_in p REQUEST_RESOLV OP_NOOP (asks_for (cstr addr) port p) st'"
        proof (rule read_ends [where P = "asks_for (cstr addr) port p", OF f g])
          show "\<exists>st2 s2. request_read os (fd, Some (SocksConn p)) st1 = Some (REQUEST_RESOLV, st2) \<and> focus k ls js p s2 OP_NOOP None st2
              \<and> stm s2 = n \<and> (REQUEST_RESOLV \<in> {DONE, ERROR_STATE} \<longrightarrow> \<not> resolving s2) \<and> asks_for (cstr addr) port p s2"
            if "focus k ls js p (s\<lparr>stm := n\<rparr>) OP_READ None st1" "world st1 = world st" for n and st1 :: "'w state"
            using domain [OF that] True by (simp add: state_defs)
        qed (simp_all add: c arrived_def asks_for_def state_defs)
        with Accepted m \<open>cmd = SOCKS5_CMD_CONNECT\<close> True show ?thesis
          by (simp add: requested_outcome_def ends_in_def arrival_interest_def state_defs)
      next
        case False
        have "\<exists>st2 s2. request_read os (fd, Some (SocksConn p)) st1 = Some (REQUEST_WRITE, st2) \<and> focus k ls js p s2 OP_NOOP None st2
            \<and> stm s2 = n \<and> reply s2 = SOCKS5_REP_GENERAL_FAILURE"
          if "focus k ls js p (s\<lparr>stm := n\<rparr>) OP_READ None st1" "world st1 = world st" for n and st1 :: "'w state"
          using domain [OF that] False by auto
        from refused [OF this] Accepted m \<open>cmd = SOCKS5_CMD_CONNECT\<close> False show ?thesis
          by (auto simp: requested_outcome_def)
      qed
    qed
  qed
qed

end
