(* ===== verification/Connecting.thy ===== *)
theory Connecting
  imports Handshake
begin

text \<open>
  How the server reaches the host of a request: the candidate addresses are tried one after the other,
  first when they are known (a literal address, or the end of the resolution) and again whenever a
  connection in progress fails. \<open>attempts\<close> says what is tried, without selector, connection record or
  state machine; the lemmas carry it through \<open>start_connection\<close>, the handlers that call it and the
  machine, up to what the client is answered.
\<close>

section \<open>Attempts\<close>

text \<open>One address: it fails, with a reason for the client if a call gave one; or there is a socket that is
  connected, or whose connection is in progress.\<close>

datatype attempt = Failed "byte option" | Established int | Pending int

definition registrable :: "regs \<Rightarrow> int \<Rightarrow> bool" where
  "registrable R fd \<longleftrightarrow> \<not> invalid_fd fd \<and> R fd = None"

definition try_address :: "'w os \<Rightarrow> (int \<Rightarrow> bool) \<Rightarrow> sockaddr \<Rightarrow> 'w \<Rightarrow> attempt \<times> 'w" where
  "try_address os free a w =
     (case os_socket os (sa_family a) w of
        (Inl e, w) \<Rightarrow> (Failed (Some (errno_to_reply e)), w)
      | (Inr fd, w) \<Rightarrow>
          let (nio, w) = selector_fd_set_nio os fd w in
          if nio < 0 then (Failed None, os_close os fd w)
          else let (c, w) = os_connect os fd a w;
                   (kept, reason) = (case c of
                     None \<Rightarrow> (Some Established, None)
                   | Some e \<Rightarrow> if e = EINPROGRESS \<or> e = EINTR then (Some Pending, None)
                       else (None, Some (errno_to_reply e)))
            in case kept of
                 Some f \<Rightarrow> if free fd then (f fd, w) else (Failed None, os_close os fd w)
               | None \<Rightarrow> (Failed reason, os_close os fd w))"

text \<open>The addresses in order, up to the first that does not fail: the reasons of the failures, and the
  socket, if any\<close>

primrec attempts :: "'w os \<Rightarrow> (int \<Rightarrow> bool) \<Rightarrow> sockaddr list \<Rightarrow> 'w \<Rightarrow> byte option list \<times> attempt option \<times> 'w" where
  "attempts os free [] w = ([], None, w)"
| "attempts os free (a # as) w =
     (case try_address os free a w of
        (Failed r, w) \<Rightarrow> (let (rs, out, w) = attempts os free as w in (r # rs, out, w))
      | (out, w) \<Rightarrow> ([], Some out, w))"

text \<open>The reason given in the end: that of the last failure that has one\<close>

primrec last_reason :: "byte \<Rightarrow> byte option list \<Rightarrow> byte" where
  "last_reason rep [] = rep"
| "last_reason rep (r # rs) = last_reason (case r of None \<Rightarrow> rep | Some b \<Rightarrow> b) rs"

definition given_up :: "byte \<Rightarrow> byte option list \<Rightarrow> byte" where
  "given_up rep rs = (if last_reason rep rs = SOCKS5_REP_SUCCESS then SOCKS5_REP_HOST_UNREACHABLE else last_reason rep rs)"

text \<open>What they leave in the record of the connection\<close>

definition settle :: "socks5 \<Rightarrow> byte option list \<Rightarrow> attempt option \<Rightarrow> socks5" where
  "settle s rs out =
     (let s = s\<lparr>addr_idx := addr_idx s + length rs, reply := last_reason (reply s) rs\<rparr> in
      case out of
        Some (Established fd) \<Rightarrow> s\<lparr>origin_fd := fd, references := references s + 1, reply := SOCKS5_REP_SUCCESS\<rparr>
      | Some (Pending fd) \<Rightarrow> s\<lparr>origin_fd := fd, references := references s + 1\<rparr>
      | _ \<Rightarrow> s\<lparr>reply := given_up (reply s) []\<rparr>)"

definition next_state :: "attempt option \<Rightarrow> nat" where
  "next_state out = (case out of Some (Pending fd) \<Rightarrow> REQUEST_CONNECTING | _ \<Rightarrow> REQUEST_WRITE)"

definition origin_interest :: "attempt option \<Rightarrow> fd_interest option" where
  "origin_interest out =
     (case out of Some (Pending fd) \<Rightarrow> Some OP_WRITE | Some (Established fd) \<Rightarrow> Some OP_NOOP | _ \<Rightarrow> None)"

section \<open>The loop of start_connection\<close>

lemma settle_next:
  "settle (s\<lparr>addr_idx := Suc (addr_idx s), reply := case r of None \<Rightarrow> reply s | Some b \<Rightarrow> b\<rparr>) rs out = settle s (r # rs) out"
  by (simp add: settle_def Let_def split: option.splits attempt.splits)

lemma register_runs:
  fixes st :: "'w state"
  assumes f: "focus k ls js p s ci None st" and "0 \<le> fd"
    and s': "conn_ok s'" "client_fd s' = client_fd s" "origin_fd s' = fd" "references s' = references s + 1"
  shows "\<exists>r sel. register_fd fd SocksHandler i (Some (SocksConn p)) st = Some (r, sel, snd st)
    \<and> (r = SELECTOR_SUCCESS \<longleftrightarrow> registrable (sel_map (fst st)) fd)
    \<and> (if registrable (sel_map (fst st)) fd then focus k ls js p s' ci (Some i) (put_conn p s' (sel, snd st))
       else focus k ls js p s ci None (sel, snd st) \<and> sel_map sel = sel_map (fst st))"
proof -
  have inv: "sel_inv (fst st)" using f by (simp add: focus_def)
  from register_law [OF inv, of True unused_item fd SocksHandler i "Some (SocksConn p)"]
  obtain sel where raw: "selector_register True unused_item fd SocksHandler i (Some (SocksConn p)) (fst st) =
      Some (if invalid_fd fd then SELECTOR_IARGS else if sel_map (fst st) fd \<noteq> None then SELECTOR_FDINUSE
        else SELECTOR_SUCCESS, sel)"
    "sel_map sel = (if \<not> invalid_fd fd \<and> sel_map (fst st) fd = None
        then (sel_map (fst st))(fd \<mapsto> (i, SocksHandler, Some (SocksConn p))) else sel_map (fst st))" by blast
  then have "\<exists>r. selector_register True unused_item fd SocksHandler i (Some (SocksConn p)) (fst st) = Some (r, sel)
      \<and> (r = SELECTOR_SUCCESS \<longleftrightarrow> registrable (sel_map (fst st)) fd)"
    by (cases "sel_map (fst st) fd") (simp_all add: registrable_def)
  moreover from raw(2) have map: "\<not> registrable (sel_map (fst st)) fd \<Longrightarrow> sel_map sel = sel_map (fst st)"
    by (auto simp: registrable_def)
  ultimately obtain r where sel:
    "selector_register True unused_item fd SocksHandler i (Some (SocksConn p)) (fst st) = Some (r, sel)"
    "r = SELECTOR_SUCCESS \<longleftrightarrow> registrable (sel_map (fst st)) fd" by blast
  from sel(1) have run: "register_fd fd SocksHandler i (Some (SocksConn p)) st = Some (r, sel, snd st)"
    by (simp add: register_fd_def)
  from focus_register_origin [OF f assms(2) s', of i] run
  have "if r = SELECTOR_SUCCESS then focus k ls js p s' ci (Some i) (put_conn p s' (sel, snd st))
      else focus k ls js p s ci None (sel, snd st)" by (simp add: returns_def)
  with run sel(2) map show ?thesis by auto
qed

lemma connect_loop_runs:
  fixes st :: "'w state"
  assumes os: "os_ok os"
  shows "focus k ls js p s ci None st \<Longrightarrow> n = 0 \<or> addr_idx s + n \<le> MAX_ADDRS \<Longrightarrow>
    attempts os (registrable (sel_map (fst st))) (take n (drop (addr_idx s) (addrs s))) (world st) = (rs, out, w) \<Longrightarrow>
    \<exists>st'. connect_loop n os p st = Some (next_state out, st') \<and> world st' = w
      \<and> focus k ls js p (settle s rs out) ci (origin_interest out) st'"
proof (induction n arbitrary: s st rs)
  case 0
  then have out: "rs = []" "out = None" "w = world st" by simp_all
  have "focus k ls js p (settle s [] None) ci None (put_conn p (settle s [] None) st)"
    using focus_put [OF 0(1), of "settle s [] None"] focus_conn_ok [OF 0(1)]
    by (simp add: same_fds_def conn_ok_def settle_def)
  then show ?case
    by (intro exI [of _ "put_conn p (settle s [] None) st"])
      (simp add: focus_get [OF 0(1)] out next_state_def origin_interest_def settle_def given_up_def)
next
  case (Suc n)
  note f = Suc.prems(1)
  note ok = focus_conn_ok [OF f]
  let ?R = "sel_map (fst st)"
  let ?a = "addrs s ! addr_idx s"
  let ?as = "take n (drop (addr_idx s + 1) (addrs s))"
  let ?next = "\<lambda>r. s\<lparr>addr_idx := addr_idx s + 1, reply := case r of None \<Rightarrow> reply s | Some b \<Rightarrow> b\<rparr>"
  have len: "addr_idx s < length (addrs s)" using Suc.prems(2) ok by (simp add: conn_ok_def)
  then have "take (Suc n) (drop (addr_idx s) (addrs s)) = ?a # ?as" by (simp add: Cons_nth_drop_Suc [symmetric])
  with Suc.prems(3) have run: "attempts os (registrable ?R) (?a # ?as) (world st) = (rs, out, w)" by simp
  have retry: "\<exists>st2. connect_loop n os p (put_conn p s' st1) = Some (next_state out, st2) \<and> world st2 = w
      \<and> focus k ls js p (settle s rs out) ci (origin_interest out) st2"
    if f1: "focus k ls js p s ci None st1" and same: "sel_map (fst st1) = ?R" and s': "s' = ?next r"
      and failed: "try_address os (registrable ?R) ?a (world st) = (Failed r, world st1)" for r s' and st1 :: "'w state"
  proof -
    obtain rs1 where rest: "attempts os (registrable ?R) ?as (world st1) = (rs1, out, w)" "rs = r # rs1"
      using run failed by (auto split: prod.splits)
    have f2: "focus k ls js p (?next r) ci None (put_conn p (?next r) st1)"
      using focus_put [OF f1, of "?next r"] ok by (simp add: same_fds_def conn_ok_def)
    have "sel_map (fst (put_conn p (?next r) st1)) = ?R" using same by (simp add: put_conn_def)
    with Suc.IH [OF f2, of rs1] Suc.prems(2) rest(1) show ?thesis by (simp add: rest(2) settle_next s')
  qed
  obtain r1 st1 where sys1: "sys (os_socket os (sa_family ?a)) st = (r1, st1)" by (rule prod.exhaust)
  note f1 = focus_sys [OF f sys1]
  have w1: "os_socket os (sa_family ?a) (world st) = (r1, world st1)" "fst st1 = fst st"
    using sys1 by (auto simp: sys_def world_def split: prod.splits)
  show ?case
  proof (cases r1)
    case (Inl e)
    then have "try_address os (registrable ?R) ?a (world st) = (Failed (Some (errno_to_reply e)), world st1)"
      using w1 by (simp add: try_address_def)
    from retry [OF f1 _ refl this] w1(2) show ?thesis using sys1 len Inl by (simp add: focus_get [OF f])
  next
    case (Inr fd)
    obtain nio st2 where sys2: "sys (selector_fd_set_nio os fd) st1 = (nio, st2)" by (rule prod.exhaust)
    note f2 = focus_sys [OF f1 sys2]
    have w2: "selector_fd_set_nio os fd (world st1) = (nio, world st2)" "fst st2 = fst st1"
      using sys2 by (auto simp: sys_def world_def split: prod.splits)
    obtain c st3 where sys3: "sys (os_connect os fd ?a) st2 = (c, st3)" by (rule prod.exhaust)
    note f3 = focus_sys [OF f2 sys3]
    have w3: "os_connect os fd ?a (world st2) = (c, world st3)" "fst st3 = fst st2"
      using sys3 by (auto simp: sys_def world_def split: prod.splits)
    have fd: "0 \<le> fd" by (rule os_okD(3) [OF os]) (use w1(1) Inr in simp)
    have again: "\<exists>st'. connect_loop n os p (put_conn p (?next r) (sys_unit (os_close os fd) st4)) = Some (next_state out, st')
        \<and> world st' = w \<and> focus k ls js p (settle s rs out) ci (origin_interest out) st'"
      if "focus k ls js p s ci None st4" "sel_map (fst st4) = ?R"
        "try_address os (registrable ?R) ?a (world st) = (Failed r, os_close os fd (world st4))" for r and st4 :: "'w state"
      by (rule retry [OF focus_sys_unit [OF that(1)] _ refl]) (use that(2,3) in \<open>simp_all add: sys_unit_def world_def\<close>)
    show ?thesis
    proof (cases "nio < 0")
      case True
      then have "try_address os (registrable ?R) ?a (world st) = (Failed None, os_close os fd (world st2))"
        using w1 w2 Inr by (simp add: try_address_def)
      from again [OF f2 _ this] w1 w2 show ?thesis using sys1 sys2 len Inr True by (simp add: focus_get [OF f])
    next
      case False
      note calls = sys1 sys2 sys3 len Inr False focus_get [OF f] Let_def w1 w2 w3
      show ?thesis
      proof (cases "c = None \<or> c = Some EINPROGRESS \<or> c = Some EINTR")
        case kept: True
        define s' where "s' = settle s [] (Some (if c = None then Established fd else Pending fd))"
        define i where "i = (if c = None then OP_NOOP else OP_WRITE)"
        have s': "conn_ok s'" "client_fd s' = client_fd s" "origin_fd s' = fd" "references s' = references s + 1"
          using ok by (simp_all add: s'_def settle_def conn_ok_def)
        from register_runs [OF f3 fd s', of i] obtain r sel where
          reg: "register_fd fd SocksHandler i (Some (SocksConn p)) st3 = Some (r, sel, snd st3)"
            "r = SELECTOR_SUCCESS \<longleftrightarrow> registrable ?R fd"
            "if registrable ?R fd then focus k ls js p s' ci (Some i) (put_conn p s' (sel, snd st3))
             else focus k ls js p s ci None (sel, snd st3) \<and> sel_map sel = ?R"
          using w1 w2 w3 by auto
        show ?thesis
        proof (cases "registrable ?R fd")
          case True
          have "try_address os (registrable ?R) ?a (world st) =
              (if c = None then Established fd else Pending fd, world st3)"
            using kept True w1 w2 w3 Inr False by (auto simp: try_address_def Let_def)
          then have out: "rs = []" "out = Some (if c = None then Established fd else Pending fd)" "w = world st3"
            using run by (auto split: if_splits)
          have "connect_loop (Suc n) os p st = Some (next_state out, put_conn p s' (sel, snd st3))"
            using kept reg(1,2) True
            by (auto simp: calls i_def s'_def settle_def next_state_def out)
          moreover have "world (put_conn p s' (sel, snd st3)) = w" by (simp add: put_conn_def world_def out)
          moreover have "origin_interest out = Some i" "settle s rs out = s'" by (simp_all add: out origin_interest_def i_def s'_def)
          ultimately show ?thesis using reg(3) True by (intro exI [of _ "put_conn p s' (sel, snd st3)"]) simp
        next
          case False
          have "try_address os (registrable ?R) ?a (world st) = (Failed None, os_close os fd (world (sel, snd st3)))"
            using kept False w1 w2 w3 Inr \<open>\<not> nio < 0\<close> by (auto simp: try_address_def Let_def world_def)
          from again [OF _ _ this] reg(3) False kept reg(1,2) show ?thesis
            by (auto simp: calls i_def)
        qed
      next
        case dropped: False
        then obtain e where e: "c = Some e" "e \<noteq> EINPROGRESS" "e \<noteq> EINTR" by auto
        then have "try_address os (registrable ?R) ?a (world st) = (Failed (Some (errno_to_reply e)), os_close os fd (world st3))"
          using w1 w2 w3 Inr False by (simp add: try_address_def Let_def)
        from again [OF f3 _ this] e show ?thesis by (simp add: calls)
      qed
    qed
  qed
qed

section \<open>From the addresses to the answer\<close>

definition candidates_left :: "socks5 \<Rightarrow> sockaddr list" where
  "candidates_left s = drop (addr_idx s) (take (naddrs s) (addrs s))"

lemma candidates_left_settle: "candidates_left (settle s rs out) = drop (length rs) (candidates_left s)"
  by (simp add: candidates_left_def settle_def Let_def add.commute split: option.split attempt.split)

lemma start_connection_runs:
  fixes st :: "'w state"
  assumes os: "os_ok os" and f: "focus k ls js p s ci None st"
    and run: "attempts os (registrable (sel_map (fst st))) (candidates_left s) (world st) = (rs, out, w)"
  shows "\<exists>st'. start_connection os p st = Some (next_state out, st') \<and> world st' = w
    \<and> focus k ls js p (settle s rs out) ci (origin_interest out) st'"
proof -
  have "naddrs s \<le> MAX_ADDRS" using focus_conn_ok [OF f] by (simp add: conn_ok_def)
  then have "naddrs s - addr_idx s = 0 \<or> addr_idx s + (naddrs s - addr_idx s) \<le> MAX_ADDRS" by linarith
  from connect_loop_runs [OF os f this, of rs out w] run show ?thesis
    by (simp add: start_connection_def focus_get [OF f] candidates_left_def drop_take)
qed

text \<open>The answer, with the address of the origin's socket\<close>

lemma reply_arrival_origin:
  fixes st :: "'w state"
  assumes f: "focus k ls js p s ci oi st" and os: "os_ok os"
    and local: "(if reply s = SOCKS5_REP_SUCCESS \<and> oi \<noteq> None then os_getsockname os (origin_fd s) (world st)
      else (None, world st)) = (l, w)"
  shows "\<exists>st' b. request_write_arrival os n (fd, Some (SocksConn p)) st = Some st' \<and> world st' = w
    \<and> focus k ls js p (s\<lparr>write_buffer := b\<rparr>) OP_WRITE (map_option (\<lambda>_. OP_NOOP) oi) st'
    \<and> buf_contents b = reply_bytes (reply s) l"
proof -
  have origin: "0 \<le> origin_fd s \<longleftrightarrow> oi \<noteq> None"
    using f by (auto simp: focus_def conn_regs_def split: if_splits)
  define st1 where "st1 = sys_unit (\<lambda>_. w) st"
  have w1: "world st1 = w" by (simp add: st1_def)
  have ask: "(if reply s = SOCKS5_REP_SUCCESS \<and> 0 \<le> origin_fd s then sys (os_getsockname os (origin_fd s)) st
      else (None, st)) = (l, st1)"
    using local by (auto simp: origin st1_def sys_def sys_unit_def world_def split: if_splits)
  have f1: "focus k ls js p s ci oi st1" unfolding st1_def by (rule focus_sys_unit [OF f])
  have "l = None \<or> (\<exists>w w'. os_getsockname os (origin_fd s) w = (l, w'))" using local by (auto split: if_splits)
  from length_reply_bytes [OF this os, of "reply s"] write_reply_ok [OF focus_conn_ok [OF f], of "reply_bytes (reply s) l"]
  obtain b where b: "buffer_write_list (buffer_reset (write_buffer s)) (reply_bytes (reply s) l) = Some b"
    "buf_inv b" "b_limit b = buffer_size s" "buf_contents b = reply_bytes (reply s) l" by auto
  let ?s = "s\<lparr>write_buffer := b\<rparr>" and ?st = "put_conn p (s\<lparr>write_buffer := b\<rparr>) st1"
  have built: "build_reply os p (reply s) st = Some ?st"
    using ask b(1) by (simp add: build_reply_def focus_get [OF f])
  have f2: "focus k ls js p ?s ci oi ?st" by (rule focus_write_buffer [OF f1 b(2,3)])
  have "\<exists>st2. (if 0 \<le> origin_fd s then map_option snd (set_interest (origin_fd s) OP_NOOP ?st) else Some ?st) = Some st2
      \<and> focus k ls js p ?s ci (map_option (\<lambda>_. OP_NOOP) oi) st2 \<and> world st2 = w"
  proof (cases oi)
    case None
    with f2 origin w1 show ?thesis by simp
  next
    case (Some j)
    with f2 have f2: "focus k ls js p ?s ci (Some j) ?st" by simp
    obtain st2 where st2: "set_interest (origin_fd s) OP_NOOP ?st = Some (SELECTOR_SUCCESS, st2)"
      and "focus k ls js p ?s ci (Some OP_NOOP) st2"
      using focus_interest_origin [OF f2, of OP_NOOP] by (auto elim!: returns_pairE)
    with Some origin w1 world_set_interest [OF st2] show ?thesis by simp
  qed
  then obtain st2 where st2: "(if 0 \<le> origin_fd s then map_option snd (set_interest (origin_fd s) OP_NOOP ?st)
      else Some ?st) = Some st2" "focus k ls js p ?s ci (map_option (\<lambda>_. OP_NOOP) oi) st2" "world st2 = w" by blast
  obtain st3 where st3: "set_interest (client_fd s) OP_WRITE st2 = Some (SELECTOR_SUCCESS, st3)"
    and f3: "focus k ls js p ?s OP_WRITE (map_option (\<lambda>_. OP_NOOP) oi) st3"
    using focus_interest_client [OF st2(2), of OP_WRITE] by (auto elim!: returns_pairE)
  have "request_write_arrival os n (fd, Some (SocksConn p)) st = Some st3"
    using built st2(1) st3 by (simp add: request_write_arrival_def focus_get [OF f])
  moreover have "world st3 = w" using world_set_interest [OF st3] st2(3) by simp
  ultimately show ?thesis using f3 b(4) by (intro exI [of _ st3] exI [of _ b]) simp
qed

text \<open>What an event leads to that tries the addresses \<open>as\<close>: the answer of success with the address of the connected socket, a
  wait for the socket whose connection is in progress, or a refusal with the reason. \<open>rep\<close> is the reason so far.\<close>

definition origin_reached :: "'w os \<Rightarrow> nat \<Rightarrow> int \<Rightarrow> 'w \<Rightarrow> 'w state \<Rightarrow> bool" where
  "origin_reached os p fd w st \<longleftrightarrow>
     waits_in p REQUEST_WRITE OP_WRITE (\<lambda>s. origin_fd s = fd \<and> reply s = SOCKS5_REP_SUCCESS
       \<and> buf_contents (write_buffer s) = reply_bytes SOCKS5_REP_SUCCESS (fst (os_getsockname os fd w))) st
     \<and> sel_map (fst st) fd = Some (OP_NOOP, SocksHandler, Some (SocksConn p)) \<and> world st = snd (os_getsockname os fd w)"

definition connect_outcome ::
    "'w os \<Rightarrow> regs \<Rightarrow> byte \<Rightarrow> sockaddr list \<Rightarrow> nat \<Rightarrow> 'w \<Rightarrow> 'w state \<Rightarrow> bool" where
  "connect_outcome os R rep as p w st \<longleftrightarrow>
     (case attempts os (registrable R) as w of
        (rs, Some (Established fd), w) \<Rightarrow> origin_reached os p fd w st
      | (rs, Some (Pending fd), w) \<Rightarrow>
          waits_in p REQUEST_CONNECTING OP_NOOP (\<lambda>s. origin_fd s = fd \<and> candidates_left s = drop (length rs) as) st
          \<and> sel_map (fst st) fd = Some (OP_WRITE, SocksHandler, Some (SocksConn p)) \<and> world st = w
      | (rs, _, w) \<Rightarrow>
          waits_in p REQUEST_WRITE OP_WRITE (\<lambda>s. origin_fd s = -1 \<and> reply s = given_up rep rs
            \<and> buf_contents (write_buffer s) = refusal (given_up rep rs)) st
          \<and> world st = w)"

lemma settle_stm [simp]: "stm (settle s rs out) = stm s"
  by (simp add: settle_def Let_def split: option.split attempt.split)

text \<open>A jump from one of the states in which the answer is still open\<close>

lemma jump_run:
  fixes st :: "'w state"
  assumes f: "focus k ls js p s ci oi st" and c: "sm_current (stm s) = Some c" "c \<le> COPY" and n: "n \<le> ERROR_STATE"
  shows "jump (socks5_states os mem) get_stm put_stm n (fd, Some (SocksConn p)) st =
      (if n = c then Some st else run_hook (on_arrival (socks5_states os mem ! n)) n (fd, Some (SocksConn p))
         (put_stm (fd, Some (SocksConn p)) ((stm s)\<lparr>sm_current := Some n\<rparr>) st))"
    and "focus k ls js p (s\<lparr>stm := (stm s)\<lparr>sm_current := Some n\<rparr>\<rparr>) ci oi
      (put_stm (fd, Some (SocksConn p)) ((stm s)\<lparr>sm_current := Some n\<rparr>) st)"
    and "world (put_stm (fd, Some (SocksConn p)) ((stm s)\<lparr>sm_current := Some n\<rparr>) st) = world st"
proof -
  have init: "sm_initial (stm s) = HELLO_READ" "sm_max_state (stm s) = ERROR_STATE"
    using focus_conn_ok [OF f] by (simp_all add: conn_ok_def)
  have in_table: "c < length (socks5_states os mem)" "n < length (socks5_states os mem)" "c \<le> ERROR_STATE"
    using c(2) n by (simp_all add: states_table(1) state_defs)
  then show "jump (socks5_states os mem) get_stm put_stm n (fd, Some (SocksConn p)) st =
      (if n = c then Some st else run_hook (on_arrival (socks5_states os mem ! n)) n (fd, Some (SocksConn p))
         (put_stm (fd, Some (SocksConn p)) ((stm s)\<lparr>sm_current := Some n\<rparr>) st))"
    using n c(1) init
    by (simp add: jump_def get_stm_focus [OF f] run_hook_def Let_def states_table(2) [OF n]
        states_table(3) [OF in_table(3)] cong: option.case_cong)
  show "focus k ls js p (s\<lparr>stm := (stm s)\<lparr>sm_current := Some n\<rparr>\<rparr>) ci oi
      (put_stm (fd, Some (SocksConn p)) ((stm s)\<lparr>sm_current := Some n\<rparr>) st)"
    by (rule put_stm_focus [OF f]) (simp_all add: init)
qed (simp add: put_stm_def focus_get [OF f])

definition open_states :: "nat set" where
  "open_states = {REQUEST_READ, REQUEST_RESOLV, REQUEST_CONNECTING}"

lemma open_states_le: "c \<in> open_states \<Longrightarrow> c \<le> COPY \<and> c \<noteq> REQUEST_WRITE"
  by (auto simp: open_states_def state_defs)

lemma jump_answers:
  fixes st :: "'w state"
  assumes os: "os_ok os" and f: "focus k ls js p s ci oi st" and c: "sm_current (stm s) = Some c" "c \<in> open_states"
    and name: "(if reply s = SOCKS5_REP_SUCCESS \<and> oi \<noteq> None then os_getsockname os (origin_fd s) (world st)
      else (None, world st)) = (l, w)"
  shows "\<exists>st' s'. jump (socks5_states os mem) get_stm put_stm REQUEST_WRITE (fd, Some (SocksConn p)) st = Some st' \<and> world st' = w
    \<and> focus k ls js p s' OP_WRITE (map_option (\<lambda>_. OP_NOOP) oi) st' \<and> cur s' = REQUEST_WRITE
    \<and> origin_fd s' = origin_fd s \<and> reply s' = reply s \<and> buf_contents (write_buffer s') = reply_bytes (reply s) l"
proof -
  let ?m = "(stm s)\<lparr>sm_current := Some REQUEST_WRITE\<rparr>"
  have n: "REQUEST_WRITE \<le> ERROR_STATE" by (simp add: state_defs)
  note j = jump_run [OF f c(1) _ n, where fd = fd]
  have "c \<le> COPY" "REQUEST_WRITE \<noteq> c" using open_states_le [OF c(2)] by simp_all
  note j = j(2,3) [OF this(1)] j(1) [OF this(1), of os mem] this
  have "on_arrival (socks5_states os mem ! REQUEST_WRITE) = Some (request_write_arrival os)"
    using states_table(4) [OF n, of os mem] by (simp add: state_defs)
  with j(3,5) have jump: "jump (socks5_states os mem) get_stm put_stm REQUEST_WRITE (fd, Some (SocksConn p)) st =
      request_write_arrival os REQUEST_WRITE (fd, Some (SocksConn p)) (put_stm (fd, Some (SocksConn p)) ?m st)"
    by (simp add: run_hook_def)
  have name1: "(if reply (s\<lparr>stm := ?m\<rparr>) = SOCKS5_REP_SUCCESS \<and> oi \<noteq> None
      then os_getsockname os (origin_fd (s\<lparr>stm := ?m\<rparr>)) (world (put_stm (fd, Some (SocksConn p)) ?m st))
      else (None, world (put_stm (fd, Some (SocksConn p)) ?m st))) = (l, w)"
    using name by (simp add: j(2) split del: if_split cong: if_cong)
  from reply_arrival_origin [OF j(1) os name1, of REQUEST_WRITE fd] obtain st' b where
    "request_write_arrival os REQUEST_WRITE (fd, Some (SocksConn p)) (put_stm (fd, Some (SocksConn p)) ?m st) = Some st'"
    "world st' = w" "focus k ls js p (s\<lparr>stm := ?m, write_buffer := b\<rparr>) OP_WRITE (map_option (\<lambda>_. OP_NOOP) oi) st'"
    "buf_contents b = reply_bytes (reply s) l" by auto
  with jump show ?thesis by (intro exI [of _ st'] exI [of _ "s\<lparr>stm := ?m, write_buffer := b\<rparr>"]) (simp add: cur_def)
qed

lemma connect_jump:
  fixes st :: "'w state"
  assumes os: "os_ok os" and f: "focus k ls js p (settle s rs out) OP_NOOP (origin_interest out) st"
    and c: "sm_current (stm s) = Some c" "c \<in> open_states"
    and run: "attempts os (registrable R) (candidates_left s) w = (rs, out, world st)"
  shows "\<exists>st'. jump (socks5_states os mem) get_stm put_stm (next_state out) (fd, Some (SocksConn p)) st = Some st'
    \<and> connect_outcome os R (reply s) (candidates_left s) p w st'"
proof (cases "\<exists>fd'. out = Some (Pending fd')")
  case True
  then obtain fd' where out: "out = Some (Pending fd')" "next_state out = REQUEST_CONNECTING" "origin_interest out = Some OP_WRITE"
    by (auto simp: next_state_def origin_interest_def)
  let ?s = "(settle s rs out)\<lparr>stm := (stm s)\<lparr>sm_current := Some REQUEST_CONNECTING\<rparr>\<rparr>"
  have n: "REQUEST_CONNECTING \<le> ERROR_STATE" and c': "sm_current (stm (settle s rs out)) = Some c" "c \<le> COPY"
    using c open_states_le [OF c(2)] by (simp_all add: state_defs)
  note j = jump_run [OF f c' n, where fd = fd]
  have "on_arrival (socks5_states os mem ! REQUEST_CONNECTING) = None"
    using states_table(4) [OF n, of os mem] by (simp add: state_defs)
  note j = j(2,3) j(1) [of os mem, unfolded this run_hook_def]
  have "\<exists>st'. jump (socks5_states os mem) get_stm put_stm REQUEST_CONNECTING (fd, Some (SocksConn p)) st = Some st'
      \<and> focus k ls js p ?s OP_NOOP (Some OP_WRITE) st' \<and> world st' = world st"
  proof (cases "REQUEST_CONNECTING = c")
    case True
    then have "stm s = (stm s)\<lparr>sm_current := Some REQUEST_CONNECTING\<rparr>" using c(1) by simp
    then have "?s = settle s rs out" by simp
    with f j(3) True out(3) show ?thesis by simp
  next
    case False
    with j out(3) show ?thesis by simp
  qed
  then obtain st' where st': "jump (socks5_states os mem) get_stm put_stm REQUEST_CONNECTING (fd, Some (SocksConn p)) st = Some st'"
    "focus k ls js p ?s OP_NOOP (Some OP_WRITE) st'" "world st' = world st" by blast
  have "origin_fd ?s = fd'" "candidates_left ?s = drop (length rs) (candidates_left s)"
    using candidates_left_settle [of s rs out] by (simp_all add: out settle_def Let_def candidates_left_def)
  moreover have "sel_map (fst st') (origin_fd ?s) = Some (OP_WRITE, SocksHandler, Some (SocksConn p))"
    using st'(2) conn_regs_entry(2) by (auto simp: focus_def)
  ultimately have "connect_outcome os R (reply s) (candidates_left s) p w st'"
    using waits_inI [OF st'(2), of REQUEST_CONNECTING] st'(3) by (simp add: connect_outcome_def run out(1) cur_def)
  with st'(1) out(2) show ?thesis by auto
next
  case False
  then have n: "next_state out = REQUEST_WRITE" by (auto simp: next_state_def split: option.split attempt.split)
  let ?s = "settle s rs out"
  obtain l w2 where name: "(if reply ?s = SOCKS5_REP_SUCCESS \<and> origin_interest out \<noteq> None
      then os_getsockname os (origin_fd ?s) (world st) else (None, world st)) = (l, w2)" by (rule prod.exhaust)
  have c': "sm_current (stm ?s) = Some c" using c(1) by simp
  from jump_answers [OF os f c' c(2) name, of mem fd] obtain st' s' where
    st': "jump (socks5_states os mem) get_stm put_stm REQUEST_WRITE (fd, Some (SocksConn p)) st = Some st'" "world st' = w2"
      and f2: "focus k ls js p s' OP_WRITE (map_option (\<lambda>_. OP_NOOP) (origin_interest out)) st'"
      and s': "cur s' = REQUEST_WRITE" "origin_fd s' = origin_fd ?s" "reply s' = reply ?s"
        "buf_contents (write_buffer s') = reply_bytes (reply ?s) l" by blast
  have waits: "waits_in p REQUEST_WRITE OP_WRITE P st'" if "P s'" for P
    by (rule waits_inI [where P = P, OF f2 s'(1) that])
  have regs: "conn_regs (sel_map (fst st')) p s' OP_WRITE (map_option (\<lambda>_. OP_NOOP) (origin_interest out))"
    using f2 by (simp add: focus_def)
  have "connect_outcome os R (reply s) (candidates_left s) p w st'"
  proof (cases "\<exists>fd'. out = Some (Established fd')")
    case True
    then obtain fd' where out: "out = Some (Established fd')" by blast
    have settled: "origin_fd ?s = fd'" "reply ?s = SOCKS5_REP_SUCCESS" by (simp_all add: out settle_def Let_def)
    then have "os_getsockname os fd' (world st) = (l, w2)" using name by (simp add: out origin_interest_def)
    with conn_regs_entry(2) [of _ p s' OP_WRITE OP_NOOP] regs st'(2) s' settled waits show ?thesis
      by (simp add: connect_outcome_def origin_reached_def run out origin_interest_def)
  next
    case no_socket: False
    with False have none: "origin_interest out = None" "reply ?s = given_up (reply s) rs"
      by (auto simp: origin_interest_def settle_def Let_def given_up_def split: option.split attempt.split)
    have "connect_outcome os R (reply s) (candidates_left s) p w st' \<longleftrightarrow>
        waits_in p REQUEST_WRITE OP_WRITE (\<lambda>s'. origin_fd s' = -1 \<and> reply s' = given_up (reply s) rs
          \<and> buf_contents (write_buffer s') = refusal (given_up (reply s) rs)) st' \<and> world st' = world st"
      using False no_socket by (auto simp: connect_outcome_def run split: option.split attempt.split)
    moreover have "origin_fd s' = -1" using regs none(1) by (simp add: conn_regs_def)
    moreover have "l = None" "w2 = world st" using name none(1) by simp_all
    ultimately show ?thesis using none(2) s' st'(2) waits by (simp add: reply_bytes_refusal)
  qed
  with n st'(1) show ?thesis by auto
qed

section \<open>Events that try addresses\<close>

lemma not_finished: "finish os key (next_state out, st) = Some st"
  by (simp add: finish_def next_state_def state_defs split: option.split attempt.split)

lemma connect_event:
  fixes st :: "'w state"
  assumes os: "os_ok os" and f: "focus k ls js p s ci oi st" and c: "cur s \<in> open_states"
    and g: "column (socks5_states os mem ! cur s) = Some g"
    and step: "\<And>m (st1 :: 'w state). focus k ls js p (s\<lparr>stm := m\<rparr>) ci oi st1 \<Longrightarrow> world st1 = world st \<Longrightarrow> fst st1 = fst st \<Longrightarrow>
      \<exists>st2 s2 rs out. g (fd, Some (SocksConn p)) st1 = Some (next_state out, st2)
        \<and> focus k ls js p (settle s2 rs out) OP_NOOP (origin_interest out) st2
        \<and> stm s2 = m \<and> reply s2 = rep \<and> candidates_left s2 = as
        \<and> attempts os (registrable R) as w = (rs, out, world st2)"
  shows "\<exists>st'. Option.bind (stm_event column (socks5_states os mem) get_stm put_stm (fd, Some (SocksConn p)) st)
      (finish os (fd, Some (SocksConn p))) = Some st' \<and> connect_outcome os R rep as p w st'"
proof -
  obtain m st1 where first: "handle_first (socks5_states os mem) get_stm put_stm (fd, Some (SocksConn p)) st = Some st1"
    and f1: "focus k ls js p (s\<lparr>stm := m\<rparr>) ci oi st1" and m: "sm_current m = Some (cur s)"
    and same: "world st1 = world st" "fst st1 = fst st"
    using machine_started [OF f, of os mem fd] by auto
  from step [OF f1 same] obtain st2 s2 rs out where g1: "g (fd, Some (SocksConn p)) st1 = Some (next_state out, st2)"
    and f2: "focus k ls js p (settle s2 rs out) OP_NOOP (origin_interest out) st2"
    and s2: "stm s2 = m" "reply s2 = rep" "candidates_left s2 = as"
    and run: "attempts os (registrable R) as w = (rs, out, world st2)" by blast
  have "sm_current (stm s2) = Some (cur s)" using s2(1) m by simp
  from connect_jump [OF os f2 this c, of R w mem fd] run s2 obtain st3 where
    j: "jump (socks5_states os mem) get_stm put_stm (next_state out) (fd, Some (SocksConn p)) st2 = Some st3"
      "connect_outcome os R rep as p w st3" by auto
  have "cur s < length (socks5_states os mem)" using open_states_le [OF c] by (simp add: states_table(1) state_defs)
  then have "stm_event column (socks5_states os mem) get_stm put_stm (fd, Some (SocksConn p)) st = Some (next_state out, st3)"
    using first g g1 j(1) m by (simp add: stm_event_def get_stm_focus [OF f1])
  with j(2) show ?thesis by (simp add: not_finished)
qed

subsection \<open>The end of the resolution\<close>

definition inet :: "sockaddr \<Rightarrow> bool" where
  "inet a \<longleftrightarrow> sa_family a = AF_INET \<or> sa_family a = AF_INET6"

lemma copied_candidates:
  "n \<le> MAX_ADDRS \<Longrightarrow> MAX_ADDRS \<le> length arr \<Longrightarrow>
    copy_candidates as n arr = (let l = take (MAX_ADDRS - n) (filter inet as)
      in (n + length l, take n arr @ l @ drop (n + length l) arr))"
proof (induction as n arr rule: copy_candidates.induct)
  case (2 a as n arr)
  then show ?case
    by (cases "n < MAX_ADDRS")
      (auto simp: Let_def inet_def take_Suc_conv_app_nth Suc_diff_Suc [symmetric] upd_conv_take_nth_drop, simp_all add: add.commute)
qed (simp add: Let_def)

text \<open>The addresses of the answer that are tried: the first \<open>MAX_ADDRS\<close> of a family the server speaks\<close>

definition resolved_candidates :: "dns_request \<Rightarrow> sockaddr list" where
  "resolved_candidates d =
     (case dq_result d of None \<Rightarrow> [] | Some r \<Rightarrow> if dq_status d = 0 then take MAX_ADDRS (filter inet r) else [])"

lemma resolv_block_runs:
  assumes f: "focus k ls js p s OP_NOOP None st"
  shows "\<exists>s'. conn_ok s' \<and> same_fds s s' \<and> stm s' = stm s \<and> \<not> resolving s' \<and>
    (if resolved_candidates (dns s) = []
     then reply s' = SOCKS5_REP_HOST_UNREACHABLE
       \<and> resolv_block os (fd, Some (SocksConn p)) st = Some (REQUEST_WRITE, put_conn p s' st)
     else reply s' = reply s \<and> candidates_left s' = resolved_candidates (dns s)
       \<and> resolv_block os (fd, Some (SocksConn p)) st = start_connection os p (put_conn p s' st))"
proof -
  note ok = focus_conn_ok [OF f]
  let ?s = "s\<lparr>resolving := False, dns := dns_request_clear (dns s)\<rparr>"
  show ?thesis
  proof (cases "dq_status (dns s) = 0 \<and> dq_result (dns s) \<noteq> None")
    case False
    then have "resolv_block os (fd, Some (SocksConn p)) st =
        Some (REQUEST_WRITE, put_conn p (s\<lparr>resolving := False, reply := SOCKS5_REP_HOST_UNREACHABLE,
          dns := dns_request_clear (dns s)\<rparr>) st)"
      by (auto simp: resolv_block_def focus_get [OF f] Let_def split: option.splits bool.splits)
    moreover have "resolved_candidates (dns s) = []" using False by (auto simp: resolved_candidates_def split: option.split)
    ultimately show ?thesis
      using ok by (intro exI [of _ "s\<lparr>resolving := False, reply := SOCKS5_REP_HOST_UNREACHABLE,
          dns := dns_request_clear (dns s)\<rparr>"]) (simp add: same_fds_def conn_ok_def)
  next
    case True
    then obtain r where r: "dq_status (dns s) = 0" "dq_result (dns s) = Some r" by auto
    define l where "l = take MAX_ADDRS (filter inet r)"
    have len: "length (addrs s) = MAX_ADDRS" using ok by (simp add: conn_ok_def)
    have copied: "copy_candidates r 0 (addrs s) = (length l, l @ drop (length l) (addrs s))"
      using copied_candidates [of 0 "addrs s" r, folded l_def] len by (simp add: Let_def l_def)
    have l: "resolved_candidates (dns s) = l" "length l \<le> MAX_ADDRS"
      using r by (simp_all add: resolved_candidates_def l_def)
    define s1 where "s1 = s\<lparr>resolving := False, naddrs := length l, addr_idx := 0,
      addrs := l @ drop (length l) (addrs s), dns := dns_request_clear (dns s)\<rparr>"
    have run: "resolv_block os (fd, Some (SocksConn p)) st =
        (if l = [] then Some (REQUEST_WRITE, put_conn p (s1\<lparr>reply := SOCKS5_REP_HOST_UNREACHABLE\<rparr>) st)
         else start_connection os p (put_conn p s1 st))"
      using r copied by (simp add: resolv_block_def focus_get [OF f] Let_def s1_def)
    have s1: "conn_ok s1" "same_fds s s1" "stm s1 = stm s" "\<not> resolving s1" "reply s1 = reply s" "candidates_left s1 = l"
      using ok len l(2) by (simp_all add: s1_def same_fds_def conn_ok_def candidates_left_def)
    show ?thesis
    proof (cases "l = []")
      case True
      with run l(1) s1 show ?thesis
        by (intro exI [of _ "s1\<lparr>reply := SOCKS5_REP_HOST_UNREACHABLE\<rparr>"]) (simp add: same_fds_def conn_ok_def)
    next
      case False
      with run l(1) s1 show ?thesis by (intro exI [of _ s1]) simp
    qed
  qed
qed

lemma resolution_finished:
  fixes st :: "'w state"
  assumes os: "os_ok os" and f: "focus k ls js p s OP_NOOP None st" and c: "cur s = REQUEST_RESOLV"
  shows "\<exists>st'. socksv5_block os mem (fd, Some (SocksConn p)) st = Some st'
    \<and> (if resolved_candidates (dns s) = []
       then waits_in p REQUEST_WRITE OP_WRITE (\<lambda>s. reply s = SOCKS5_REP_HOST_UNREACHABLE
         \<and> buf_contents (write_buffer s) = refusal SOCKS5_REP_HOST_UNREACHABLE) st'
       else connect_outcome os (sel_map (fst st)) (reply s) (resolved_candidates (dns s)) p (world st) st')"
proof -
  have g: "on_block_ready (socks5_states os mem ! cur s) = Some (resolv_block os)" by (simp add: c columns)
  note runs = resolv_block_runs [where os = os and fd = fd]
  show ?thesis
  proof (cases "resolved_candidates (dns s) = []")
    case True
    have "\<exists>st'. Option.bind (stm_event on_block_ready (socks5_states os mem) get_stm put_stm (fd, Some (SocksConn p)) st)
        (finish os (fd, Some (SocksConn p))) = Some st'
        \<and> ends_in p REQUEST_WRITE OP_NOOP (\<lambda>s. reply s = SOCKS5_REP_HOST_UNREACHABLE
          \<and> buf_contents (write_buffer s) = refusal SOCKS5_REP_HOST_UNREACHABLE) st'"
    proof (rule event_ends [where column = on_block_ready and P = "\<lambda>s2. reply s2 = SOCKS5_REP_HOST_UNREACHABLE", OF f _ g])
      fix m and st1 :: "'w state"
      assume f1: "focus k ls js p (s\<lparr>stm := m\<rparr>) OP_NOOP None st1"
      from runs [OF f1] True obtain s' where "conn_ok s'" "same_fds (s\<lparr>stm := m\<rparr>) s'" "stm s' = m"
        "reply s' = SOCKS5_REP_HOST_UNREACHABLE"
        "resolv_block os (fd, Some (SocksConn p)) st1 = Some (REQUEST_WRITE, put_conn p s' st1)" by auto
      with focus_put [OF f1, of s'] show "\<exists>st2 s2. resolv_block os (fd, Some (SocksConn p)) st1 = Some (REQUEST_WRITE, st2)
          \<and> focus k ls js p s2 OP_NOOP None st2 \<and> stm s2 = m
          \<and> (REQUEST_WRITE \<in> {DONE, ERROR_STATE} \<longrightarrow> \<not> resolving s2) \<and> reply s2 = SOCKS5_REP_HOST_UNREACHABLE"
        by (intro exI [of _ "put_conn p s' st1"] exI [of _ s']) (simp add: state_defs)
    qed (auto simp: c arrived_def reply_bytes_refusal state_defs)
    with True show ?thesis
      by (simp add: socksv5_block_def stm_handler_block_def ends_in_def arrival_interest_def state_defs)
  next
    case False
    have "\<exists>st'. Option.bind (stm_event on_block_ready (socks5_states os mem) get_stm put_stm (fd, Some (SocksConn p)) st)
        (finish os (fd, Some (SocksConn p))) = Some st'
        \<and> connect_outcome os (sel_map (fst st)) (reply s) (resolved_candidates (dns s)) p (world st) st'"
    proof (rule connect_event [where column = on_block_ready, OF os f _ g])
      show "cur s \<in> open_states" by (simp add: c open_states_def)
      fix m and st1 :: "'w state"
      assume f1: "focus k ls js p (s\<lparr>stm := m\<rparr>) OP_NOOP None st1" and same: "world st1 = world st" "fst st1 = fst st"
      from runs [OF f1] False obtain s' where s': "conn_ok s'" "same_fds (s\<lparr>stm := m\<rparr>) s'" "stm s' = m"
        "reply s' = reply s" "candidates_left s' = resolved_candidates (dns s)"
        "resolv_block os (fd, Some (SocksConn p)) st1 = start_connection os p (put_conn p s' st1)" by auto
      obtain rs out w where run: "attempts os (registrable (sel_map (fst st))) (candidates_left s') (world st) = (rs, out, w)"
        by (metis prod.exhaust)
      then have "attempts os (registrable (sel_map (fst (put_conn p s' st1)))) (candidates_left s') (world (put_conn p s' st1)) = (rs, out, w)"
        using same by (simp add: put_conn_def world_def)
      from start_connection_runs [OF os focus_put [OF f1 s'(2,1)] this] obtain st2 where
        "start_connection os p (put_conn p s' st1) = Some (next_state out, st2)" "world st2 = w"
        "focus k ls js p (settle s' rs out) OP_NOOP (origin_interest out) st2" by blast
      with s' run show "\<exists>st2 s2 rs out. resolv_block os (fd, Some (SocksConn p)) st1 = Some (next_state out, st2)
          \<and> focus k ls js p (settle s2 rs out) OP_NOOP (origin_interest out) st2 \<and> stm s2 = m \<and> reply s2 = reply s
          \<and> candidates_left s2 = resolved_candidates (dns s)
          \<and> attempts os (registrable (sel_map (fst st))) (resolved_candidates (dns s)) (world st) = (rs, out, world st2)"
        by (intro exI [of _ st2] exI [of _ s'] exI [of _ rs] exI [of _ out]) simp
    qed
    with False show ?thesis by (simp add: socksv5_block_def stm_handler_block_def)
  qed
qed

subsection \<open>The end of a connection in progress\<close>

lemma connecting_fails:
  fixes st :: "'w state"
  assumes f: "focus k ls js p s OP_NOOP (Some OP_WRITE) st"
    and err: "os_so_error os (origin_fd s) (world st) = (r, w)"
  defines "e \<equiv> (case r of Inl e \<Rightarrow> e | Inr e \<Rightarrow> e)"
  defines "st1 \<equiv> sys_unit (\<lambda>_. w) st"
  shows "connecting_write os (fd, Some (SocksConn p)) st =
      (if e = ENOERROR then Some (REQUEST_WRITE, put_conn p (s\<lparr>reply := SOCKS5_REP_SUCCESS\<rparr>) st1)
       else do { (_, st) \<leftarrow> unregister_fd os (origin_fd s) (put_conn p (s\<lparr>reply := errno_to_reply e\<rparr>) st1);
         s \<leftarrow> get_conn p st;
         start_connection os p (put_conn p (s\<lparr>origin_fd := -1, addr_idx := addr_idx s + 1\<rparr>) st) })"
    and "focus k ls js p s OP_NOOP (Some OP_WRITE) st1"
proof -
  have "sys (os_so_error os (origin_fd s)) st = (r, st1)"
    using err by (simp add: sys_def sys_unit_def world_def st1_def)
  then show "connecting_write os (fd, Some (SocksConn p)) st =
      (if e = ENOERROR then Some (REQUEST_WRITE, put_conn p (s\<lparr>reply := SOCKS5_REP_SUCCESS\<rparr>) st1)
       else do { (_, st) \<leftarrow> unregister_fd os (origin_fd s) (put_conn p (s\<lparr>reply := errno_to_reply e\<rparr>) st1);
         s \<leftarrow> get_conn p st;
         start_connection os p (put_conn p (s\<lparr>origin_fd := -1, addr_idx := addr_idx s + 1\<rparr>) st) })"
    by (simp add: connecting_write_def focus_get [OF f] e_def Let_def)
qed (use focus_sys_unit [OF f] in \<open>simp add: st1_def\<close>)

lemma connecting_retries:
  fixes st :: "'w state"
  assumes os: "os_ok os" and f: "focus k ls js p s OP_NOOP (Some OP_WRITE) st"
    and err: "os_so_error os (origin_fd s) (world st) = (r, w)" "(case r of Inl e \<Rightarrow> e | Inr e \<Rightarrow> e) = e" "e \<noteq> ENOERROR"
  shows "\<exists>st2 s2 rs out. connecting_write os (fd, Some (SocksConn p)) st = Some (next_state out, st2)
    \<and> focus k ls js p (settle s2 rs out) OP_NOOP (origin_interest out) st2
    \<and> stm s2 = stm s \<and> reply s2 = errno_to_reply e \<and> candidates_left s2 = tl (candidates_left s)
    \<and> attempts os (registrable ((sel_map (fst st))(origin_fd s := None))) (tl (candidates_left s))
        (os_close os (origin_fd s) w) = (rs, out, world st2)"
proof -
  let ?s2 = "s\<lparr>reply := errno_to_reply e\<rparr>" and ?st1 = "sys_unit (\<lambda>_. w) st"
  let ?s3 = "?s2\<lparr>references := 1, origin_fd := -1, addr_idx := addr_idx s + 1\<rparr>"
  note runs = connecting_fails [OF f err(1), unfolded err(2)]
  have f2: "focus k ls js p ?s2 OP_NOOP (Some OP_WRITE) (put_conn p ?s2 ?st1)"
    using focus_put [OF runs(2), of ?s2] focus_conn_ok [OF f] by (simp add: same_fds_def conn_ok_def)
  obtain r4 st4 where un: "unregister_fd os (origin_fd s) (put_conn p ?s2 ?st1) = Some (r4, st4)"
    "get_conn p st4 = Some (?s2\<lparr>references := 1\<rparr>)" and f3: "focus k ls js p ?s3 OP_NOOP None (put_conn p ?s3 st4)"
    and st4: "sel_map (fst st4) = (sel_map (fst st))(origin_fd s := None)" "world st4 = os_close os (origin_fd s) w"
    using focus_unregister_origin [OF f2, of ?s3 os] focus_conn_ok [OF f]
    by (auto simp: conn_ok_def world_def put_conn_def sys_unit_def elim!: returns_pairE)
  have left: "candidates_left ?s3 = tl (candidates_left s)" by (simp add: candidates_left_def tl_drop drop_Suc)
  obtain rs out w' where run: "attempts os (registrable ((sel_map (fst st))(origin_fd s := None))) (tl (candidates_left s))
      (os_close os (origin_fd s) w) = (rs, out, w')" by (metis prod.exhaust)
  with st4 left have "attempts os (registrable (sel_map (fst (put_conn p ?s3 st4)))) (candidates_left ?s3)
      (world (put_conn p ?s3 st4)) = (rs, out, w')" by (simp add: put_conn_def world_def)
  from start_connection_runs [OF os f3 this] obtain st2 where
    "start_connection os p (put_conn p ?s3 st4) = Some (next_state out, st2)" "world st2 = w'"
    "focus k ls js p (settle ?s3 rs out) OP_NOOP (origin_interest out) st2" by blast
  with runs(1) un err(3) left run show ?thesis
    by (intro exI [of _ st2] exI [of _ ?s3] exI [of _ rs] exI [of _ out]) simp
qed

lemma connection_settled:
  fixes st :: "'w state"
  assumes os: "os_ok os" and f: "focus k ls js p s OP_NOOP (Some OP_WRITE) st" and c: "cur s = REQUEST_CONNECTING"
    and err: "os_so_error os (origin_fd s) (world st) = (r, w)" "(case r of Inl e \<Rightarrow> e | Inr e \<Rightarrow> e) = e"
  shows "\<exists>st'. socksv5_write os mem (fd, Some (SocksConn p)) st = Some st'
    \<and> (if e = ENOERROR then origin_reached os p (origin_fd s) w st'
       else connect_outcome os ((sel_map (fst st))(origin_fd s := None)) (errno_to_reply e) (tl (candidates_left s)) p
         (os_close os (origin_fd s) w) st')"
proof -
  have g: "on_write_ready (socks5_states os mem ! cur s) = Some (connecting_write os)" by (simp add: c columns)
  have c': "cur s \<in> open_states" by (simp add: c open_states_def)
  show ?thesis
  proof (cases "e = ENOERROR")
    case True
    obtain m st1 where first: "handle_first (socks5_states os mem) get_stm put_stm (fd, Some (SocksConn p)) st = Some st1"
      and f1: "focus k ls js p (s\<lparr>stm := m\<rparr>) OP_NOOP (Some OP_WRITE) st1" and m: "sm_current m = Some (cur s)"
      and same: "world st1 = world st" "fst st1 = fst st"
      using machine_started [OF f, of os mem fd] by auto
    have "os_so_error os (origin_fd (s\<lparr>stm := m\<rparr>)) (world st1) = (r, w)" using err(1) same by simp
    note runs = connecting_fails [OF f1 this, unfolded err(2)]
    let ?s = "s\<lparr>stm := m, reply := SOCKS5_REP_SUCCESS\<rparr>"
    let ?st = "put_conn p ?s (sys_unit (\<lambda>_. w) st1)"
    have f2: "focus k ls js p ?s OP_NOOP (Some OP_WRITE) ?st"
      using focus_put [OF runs(2), of ?s] focus_conn_ok [OF f1] by (simp add: same_fds_def conn_ok_def)
    have m': "sm_current (stm ?s) = Some (cur s)" using m by simp
    have "(if reply ?s = SOCKS5_REP_SUCCESS \<and> Some OP_WRITE \<noteq> None then os_getsockname os (origin_fd ?s) (world ?st)
        else (None, world ?st)) = (fst (os_getsockname os (origin_fd s) w), snd (os_getsockname os (origin_fd s) w))" by simp
    from jump_answers [OF os f2 m' c' this, of mem fd] obtain st2 s2 where
      j: "jump (socks5_states os mem) get_stm put_stm REQUEST_WRITE (fd, Some (SocksConn p)) ?st = Some st2"
        "world st2 = snd (os_getsockname os (origin_fd s) w)"
        and f3: "focus k ls js p s2 OP_WRITE (Some OP_NOOP) st2"
        and s2: "cur s2 = REQUEST_WRITE" "origin_fd s2 = origin_fd s" "reply s2 = SOCKS5_REP_SUCCESS"
          "buf_contents (write_buffer s2) = reply_bytes SOCKS5_REP_SUCCESS (fst (os_getsockname os (origin_fd s) w))" by auto
    have "sel_map (fst st2) (origin_fd s2) = Some (OP_NOOP, SocksHandler, Some (SocksConn p))"
      using f3 conn_regs_entry(2) by (auto simp: focus_def)
    with waits_inI [OF f3 s2(1)] j(2) s2(2-4) have "origin_reached os p (origin_fd s) w st2" by (simp add: origin_reached_def)
    moreover have "cur s < length (socks5_states os mem)" by (simp add: c states_table(1) state_defs)
    then have "stm_event on_write_ready (socks5_states os mem) get_stm put_stm (fd, Some (SocksConn p)) st = Some (REQUEST_WRITE, st2)"
      using first g runs(1) True j(1) m by (simp add: stm_event_def get_stm_focus [OF f1])
    ultimately show ?thesis using True by (simp add: socksv5_write_def stm_handler_write_def finish_def state_defs)
  next
    case False
    have "\<exists>st'. Option.bind (stm_event on_write_ready (socks5_states os mem) get_stm put_stm (fd, Some (SocksConn p)) st)
        (finish os (fd, Some (SocksConn p))) = Some st'
        \<and> connect_outcome os ((sel_map (fst st))(origin_fd s := None)) (errno_to_reply e) (tl (candidates_left s)) p
         (os_close os (origin_fd s) w) st'"
    proof (rule connect_event [where column = on_write_ready, OF os f c' g])
      fix m and st1 :: "'w state"
      assume f1: "focus k ls js p (s\<lparr>stm := m\<rparr>) OP_NOOP (Some OP_WRITE) st1" and same: "world st1 = world st" "fst st1 = fst st"
      have "os_so_error os (origin_fd (s\<lparr>stm := m\<rparr>)) (world st1) = (r, w)" using err(1) same by simp
      from connecting_retries [OF os f1 this err(2) False, of fd]
      show "\<exists>st2 s2 rs out. connecting_write os (fd, Some (SocksConn p)) st1 = Some (next_state out, st2)
        \<and> focus k ls js p (settle s2 rs out) OP_NOOP (origin_interest out) st2
        \<and> stm s2 = m \<and> reply s2 = errno_to_reply e \<and> candidates_left s2 = tl (candidates_left s)
        \<and> attempts os (registrable ((sel_map (fst st))(origin_fd s := None))) (tl (candidates_left s))
        (os_close os (origin_fd s) w) = (rs, out, world st2)" by (simp add: same candidates_left_def)
    qed
    with False show ?thesis by (simp add: socksv5_write_def stm_handler_write_def)
  qed
qed

subsection \<open>A request with a literal address\<close>

lemma registrable_dom:
  assumes "dom R = dom R'"
  shows "registrable R = registrable R'"
proof
  fix fd
  have "R fd = None \<longleftrightarrow> R' fd = None" using assms domIff [of fd R] domIff [of fd R'] by blast
  then show "registrable R fd = registrable R' fd" by (simp add: registrable_def)
qed

lemma accepted_address:
  assumes "request_message input = Accepted (cmd, atyp, addr, port) rest"
  shows "atyp = SOCKS5_ATYP_IPV4 \<and> length addr = 4 \<or> atyp = SOCKS5_ATYP_IPV6 \<and> length addr = 16 \<or> atyp = SOCKS5_ATYP_DOMAIN"
  using assms
  by (cases input rule: request_message.cases)
    (auto simp: request_tail_def atyp_defs dest!: arg_cong [where f = length] split: if_splits list.splits)

text \<open>The address of the request as a socket address\<close>

definition literal_address :: "byte \<Rightarrow> u16 \<Rightarrow> byte list \<Rightarrow> sockaddr" where
  "literal_address atyp port addr = (if atyp = SOCKS5_ATYP_IPV4 then SockIn port addr else SockIn6 port addr)"

lemma literal_run:
  assumes os: "os_ok os" and f: "focus k ls js p s OP_NOOP None st"
    and rq: "rp_cmd (request s) = SOCKS5_CMD_CONNECT" "request_addr (request s) = Some addr"
    and kind: "rp_atyp (request s) = SOCKS5_ATYP_IPV4 \<and> length addr = 4 \<or> rp_atyp (request s) = SOCKS5_ATYP_IPV6 \<and> length addr = 16"
  defines "a \<equiv> literal_address (rp_atyp (request s)) (rp_port (request s)) addr"
  shows "\<exists>s'. conn_ok s' \<and> same_fds s s' \<and> stm s' = stm s \<and> reply s' = reply s \<and> candidates_left s' = [a]
    \<and> process_request os p key st = start_connection os p (put_conn p s' st)"
proof -
  let ?rq = "request s"
  note ok = focus_conn_ok [OF f]
  have len: "length (rp_addr ?rq) = 256" "length (addrs s) = MAX_ADDRS" "length (dest_host s) = 256"
    using ok by (simp_all add: conn_ok_def)
  have "addr = take (unat (rp_addr_len ?rq)) (rp_addr ?rq)"
    using rq(2) kind by (auto simp: request_addr_def atyp_defs)
  then have addr: "addr = take (length addr) (rp_addr ?rq)" using len(1) by (auto simp: min_def)
  define s1 where "s1 = s\<lparr>dest_port := rp_port ?rq, addrs := (addrs s)[0 := a], naddrs := 1, addr_idx := 0,
    dest_host := memcpy_at (dest_host s) 0 (os_inet_ntop os a @ [0])\<rparr>"
  have "process_request os p key st = start_connection os p (put_conn p s1 st)"
    using rq(1) kind addr
    by (auto simp: process_request_def focus_get [OF f] Let_def s1_def a_def literal_address_def atyp_defs)
  moreover have "conn_ok s1"
    using ok len(3) os_okD(12) [OF os, of a] by (simp add: s1_def conn_ok_def MAX_ADDRS_def)
  moreover have "candidates_left s1 = [a]"
    using len(2) by (cases "addrs s") (simp_all add: candidates_left_def s1_def MAX_ADDRS_def)
  ultimately show ?thesis by (intro exI [of _ s1]) (simp add: s1_def same_fds_def)
qed

lemma literal_arrives:
  fixes st :: "'w state"
  assumes os: "os_ok os" and f: "focus k ls js p s OP_READ None st" and c: "cur s = REQUEST_READ"
    and r: "os_recv os (client_fd s) (buf_room (read_buffer s)) (world st) = (Inr bs, w)" and bs: "bs \<noteq> []"
    and seen: "request s = foldl request_parser_feed (request_parser_init p0) seen" "\<not> request_final (request s)"
    and p0: "length (rp_addr p0) = 256"
    and message: "request_message (seen @ buf_contents (read_buffer s) @ bs) = Accepted (SOCKS5_CMD_CONNECT, atyp, addr, port) rest"
    and atyp: "atyp \<noteq> SOCKS5_ATYP_DOMAIN"
  shows "\<exists>st'. socksv5_read os mem (fd, Some (SocksConn p)) st = Some st'
    \<and> connect_outcome os (sel_map (fst st)) (reply s) [literal_address atyp port addr] p w st'"
proof -
  let ?input = "seen @ buf_contents (read_buffer s) @ bs" and ?a = "literal_address atyp port addr"
  let ?r = "eat request_parser_feed request_final (request_parser_init p0) ?input"
  have g: "on_read_ready (socks5_states os mem ! cur s) = Some (request_read os)" by (simp add: c columns)
  from request_outcome [OF p0, of ?input] message have q: "rp_state (fst ?r) = REQ_DONE" "request_final (fst ?r)"
    "rp_cmd (fst ?r) = SOCKS5_CMD_CONNECT" "rp_atyp (fst ?r) = atyp" "rp_port (fst ?r) = port" "request_addr (fst ?r) = Some addr"
    by (simp_all add: request_final_def)
  have kind: "atyp = SOCKS5_ATYP_IPV4 \<and> length addr = 4 \<or> atyp = SOCKS5_ATYP_IPV6 \<and> length addr = 16"
    using accepted_address [OF message] atyp by blast
  have "\<exists>st'. Option.bind (stm_event on_read_ready (socks5_states os mem) get_stm put_stm (fd, Some (SocksConn p)) st)
      (finish os (fd, Some (SocksConn p))) = Some st' \<and> connect_outcome os (sel_map (fst st)) (reply s) [?a] p w st'"
  proof (rule connect_event [where column = on_read_ready, OF os f _ g])
    show "cur s \<in> open_states" by (simp add: c open_states_def)
    fix m and st1 :: "'w state"
    assume f1: "focus k ls js p (s\<lparr>stm := m\<rparr>) OP_READ None st1" and same: "world st1 = world st" "fst st1 = fst st"
    have "os_recv os (client_fd (s\<lparr>stm := m\<rparr>)) (buf_room (read_buffer (s\<lparr>stm := m\<rparr>))) (world st1) = (Inr bs, w)"
      using r by (simp add: same)
    from request_run [OF f1 os this bs, of p0 seen fd] seen q(1,2) obtain st2 s2 where
      read: "request_read os (fd, Some (SocksConn p)) st1 = process_request os p (fd, Some (SocksConn p)) st2"
        and f2: "focus k ls js p s2 OP_NOOP None st2" and s2: "world st2 = w" "stm s2 = m" "request s2 = fst ?r" "reply s2 = reply s"
          "dom (sel_map (fst st2)) = dom (sel_map (fst st))" by (auto simp: same)
    have rq: "rp_cmd (request s2) = SOCKS5_CMD_CONNECT" "request_addr (request s2) = Some addr"
      "rp_atyp (request s2) = SOCKS5_ATYP_IPV4 \<and> length addr = 4 \<or> rp_atyp (request s2) = SOCKS5_ATYP_IPV6 \<and> length addr = 16"
      using q kind by (simp_all add: s2(3))
    from literal_run [OF os f2 rq, of "(fd, Some (SocksConn p))"] obtain s3 where
      s3: "conn_ok s3" "same_fds s2 s3" "stm s3 = m" "reply s3 = reply s" "candidates_left s3 = [?a]"
        "process_request os p (fd, Some (SocksConn p)) st2 = start_connection os p (put_conn p s3 st2)"
      by (auto simp: s2 q)
    obtain rs out w2 where run: "attempts os (registrable (sel_map (fst st))) [?a] w = (rs, out, w2)" by (metis prod.exhaust)
    then have "attempts os (registrable (sel_map (fst (put_conn p s3 st2)))) (candidates_left s3) (world (put_conn p s3 st2)) = (rs, out, w2)"
      using s2(1) s3(5) registrable_dom [OF s2(5)] by (simp add: put_conn_def world_def)
    from start_connection_runs [OF os focus_put [OF f2 s3(2,1)] this] obtain st4 where
      "start_connection os p (put_conn p s3 st2) = Some (next_state out, st4)" "world st4 = w2"
      "focus k ls js p (settle s3 rs out) OP_NOOP (origin_interest out) st4" by blast
    with read s3 run show "\<exists>st2 s2 rs out. request_read os (fd, Some (SocksConn p)) st1 = Some (next_state out, st2)
        \<and> focus k ls js p (settle s2 rs out) OP_NOOP (origin_interest out) st2 \<and> stm s2 = m \<and> reply s2 = reply s
        \<and> candidates_left s2 = [?a] \<and> attempts os (registrable (sel_map (fst st))) [?a] w = (rs, out, world st2)"
      by (intro exI [of _ st4] exI [of _ s3] exI [of _ rs] exI [of _ out]) simp
  qed
  then show ?thesis by (simp add: socksv5_read_def stm_handler_read_def)
qed

end
