(* ===== verification/Sample_Run.thy ===== *)
theory Sample_Run
  imports Startup
begin

text \<open>
  A run of the whole server in the small world of \<open>Os\<close>, from the command line to the relay: the
  hypotheses of the theorems about reachable states hold along it.
\<close>

section \<open>A turn with one ready descriptor\<close>

lemma handle_items_append:
  "handle_items tbl (xs @ ys) st = Option.bind (handle_items tbl xs st) (handle_items tbl ys)"
  by (induction xs arbitrary: st) (simp_all add: Option.bind_assoc)

text \<open>Every slot in use holds the descriptor of its index.\<close>

definition numbered :: "('h, 'd) item list \<Rightarrow> bool" where
  "numbered fds \<longleftrightarrow> length fds = Suc ITEMS_MAX_SIZE
     \<and> (\<forall>i < Suc ITEMS_MAX_SIZE. item_used (fds ! i) \<longrightarrow> it_fd (fds ! i) = int i)"

lemma sel_inv_numbered: "sel_inv s \<Longrightarrow> numbered (s_fds s)"
  by (auto simp: sel_inv_def numbered_def)

lemma handle_items_skip:
  "numbered (s_fds (fst st)) \<Longrightarrow> \<forall>i \<in> set is. i < Suc ITEMS_MAX_SIZE \<and> i \<notin> s_slave_r (fst st) \<and> i \<notin> s_slave_w (fst st) \<Longrightarrow>
     handle_items tbl is st = Some st"
  by (induction "is") (auto simp: handle_item_def numbered_def Let_def)

lemma one_ready:
  assumes inv: "numbered (s_fds s)" "s_max_fd s < ITEMS_MAX_SIZE" and n: "n \<le> s_max_fd s" and jobs: "s_jobs s = []"
    and r: "r \<subseteq> {n}" "w \<subseteq> {n}"
    and call: "handle_item tbl n (s\<lparr>s_slave_r := r, s_slave_w := w\<rparr>, x) = Some (s', x')"
    and s': "numbered (s_fds s')" "s_slave_r s' = r" "s_slave_w s' = w" "s_jobs s' = []"
  shows "selector_select tbl (PselectReady r w) (s, x) = Some (SELECTOR_SUCCESS, s', x')"
proof -
  let ?s = "s\<lparr>s_slave_r := r, s_slave_w := w\<rparr>"
  note max = inv(2)
  have "[0..<Suc (s_max_fd s)] = [0..<n] @ n # [Suc n..<Suc (s_max_fd s)]"
    using n upt_add_eq_append [of 0 n "Suc (s_max_fd s) - n"] upt_conv_Cons [of n "Suc (s_max_fd s)"] by simp
  moreover have "handle_items tbl [0..<n] (?s, x) = Some (?s, x)"
    using inv(1) r n max by (intro handle_items_skip) auto
  moreover have "handle_items tbl [Suc n..<Suc (s_max_fd s)] (s', x') = Some (s', x')"
    using s'(1-3) r max by (intro handle_items_skip) auto
  ultimately have "handle_iteration tbl (?s, x) = Some (s', x')"
    using call by (simp add: handle_iteration_def handle_items_append del: upt_Suc)
  then show ?thesis using s'(4) by (simp add: selector_select_def handle_block_notifications_def Let_def)
qed

text \<open>A turn in which nothing is ready but a resolution has finished\<close>

lemma one_job:
  assumes inv: "numbered (s_fds s)" "s_max_fd s < ITEMS_MAX_SIZE" and jobs: "s_jobs s = [fd]"
    and call: "handle_job tbl fd (s\<lparr>s_slave_r := {}, s_slave_w := {}\<rparr>, x) = Some (s', x')"
  shows "selector_select tbl (PselectReady {} {}) (s, x) = Some (SELECTOR_SUCCESS, s'\<lparr>s_jobs := []\<rparr>, x')"
proof -
  let ?s = "s\<lparr>s_slave_r := {}, s_slave_w := {}\<rparr>"
  have "handle_iteration tbl (?s, x) = Some (?s, x)"
    unfolding handle_iteration_def using inv by (intro handle_items_skip) auto
  then show ?thesis using call jobs by (simp add: selector_select_def handle_block_notifications_def Let_def)
qed

section \<open>The table\<close>

definition table :: "(handler, pointer) item list" where
  "table = replicate (Suc ITEMS_MAX_SIZE) unused_item"

lemma table_simps [simp]: "length table = 1025" "i < 1025 \<Longrightarrow> table ! i = unused_item"
  by (simp_all add: table_def ITEMS_MAX_SIZE_def del: replicate.simps)

lemma table_new: "selector_new True True mem 1024 = Some (Some (blank_selector\<lparr>s_fds := table\<rparr>))"
  by (simp add: selector_new_ok table_def)

definition entry :: "nat \<Rightarrow> fd_interest \<Rightarrow> handler \<Rightarrow> pointer option \<Rightarrow> (handler, pointer) item" where
  "entry n i h d = \<lparr>it_fd = int n, it_interest = i, it_handler = Some h, it_data = d\<rparr>"

lemma entry_simps [simp]:
  "it_fd (entry n i h d) = int n" "it_interest (entry n i h d) = i" "it_handler (entry n i h d) = Some h"
  "it_data (entry n i h d) = d" "item_used (entry n i h d)" "(entry n i h d)\<lparr>it_interest := j\<rparr> = entry n j h d"
  by (simp_all add: entry_def item_used_def FD_UNUSED_def)

lemma nth_list_update_if: "i < length xs \<Longrightarrow> xs[n := x] ! i = (if i = n then x else xs ! i)"
  by (simp add: nth_list_update)

lemma numbered_simps [simp]: "numbered table" "numbered fds \<Longrightarrow> numbered (fds[n := entry n i h d])"
  by (auto simp: numbered_def table_def nth_list_update_if ITEMS_MAX_SIZE_def simp del: replicate.simps)

lemma entry_fold: "\<lparr>it_fd = numeral k, it_interest = i, it_handler = Some h, it_data = d\<rparr> = entry (numeral k) i h d"
  by (simp add: entry_def)

definition listening :: "(handler, pointer) selector" where
  "listening = \<lparr>s_fds = table[10 := entry 10 OP_READ SocksListener None, 11 := entry 11 OP_READ SocksListener None,
      12 := entry 12 OP_READ MgmtListener None],
    s_max_fd = 12, s_master_r = {10, 11, 12}, s_master_w = {}, s_slave_r = {}, s_slave_w = {}, s_jobs = []\<rparr>"

definition demo_start :: "nat \<Rightarrow> demo_env server" where
  "demo_start k = \<lparr>sr_state = (listening, initial_proxy (initial_services args_default) (demo_world\<lparr>dw_client := k, dw_next := 13\<rparr>)),
     sr_listeners = [10, 11, 12], sr_shutting_down = False\<rparr>"

lemma demo_calls [simp]:
  "os_recv demo_os fd n w =
    (let bs = take n (demo_script (dw_client w) fd (dw_rx w fd)) in (Inr bs, w\<lparr>dw_rx := (dw_rx w)(fd := dw_rx w fd @ bs)\<rparr>))"
  "os_send demo_os fd bs w = (Inr (length bs), w\<lparr>dw_tx := (dw_tx w)(fd := dw_tx w fd @ bs)\<rparr>)"
  "os_socket demo_os f w = (Inr (int (dw_next w)), w\<lparr>dw_next := Suc (dw_next w)\<rparr>)"
  "os_connect demo_os fd a w = (if a = SockIn 80 [10, 0, 0, 1] then Some ECONNREFUSED
    else if a = SockIn 80 [10, 0, 0, 2] then Some EINPROGRESS else None, w)"
  "os_so_error demo_os fd w = (Inr ETIMEDOUT, w)" "os_thread_start demo_os w = (True, True, w)"
  "os_getsockname demo_os fd w = (Some (SockIn 80 [127, 0, 0, 1]), w)"
  "os_accept demo_os fd w = (Some (int (dw_next w), SockIn 4000 [127, 0, 0, 1]), w\<lparr>dw_next := Suc (dw_next w)\<rparr>)"
  "os_close demo_os fd w = w" "os_malloc demo_os n w = (Some (replicate n 0), w)"
  "os_calloc_ok demo_os w = (True, w)" "os_inet_ntop demo_os a = ascii ''127.0.0.1''"
  "selector_fd_set_nio demo_os fd w = (0, w)"
  by (simp_all add: demo_os_def selector_fd_set_nio_def Let_def)

lemma cstr_replicate: "0 < n \<Longrightarrow> cstr (replicate n 0) = []"
  by (cases n) (simp_all add: cstr_def)

lemma demo_setup: "main_setup demo_os args_default (demo_world\<lparr>dw_client := k\<rparr>) = Some (Inr (demo_start k))"
  by (simp add: main_setup_def table_new open_listeners_def add_listener_def create_passive_socket_def sys_def
    initial_proxy_def demo_start_def listening_def Let_def demo_os_def demo_world_def register_fd_def
    selector_register_def raise_fd_limit_def selector_init_def selector_fd_set_nio_def blank_selector_def
    invalid_fd_def items_update_fdset_for_fd_def wants_def op_defs ITEMS_MAX_SIZE_def entry_fold
    args_default_def cstr_replicate insert_commute)

section \<open>Accepting\<close>

lemma services_simps:
  "cfg_io_buffer_size (sv_cfg (initial_services args_default)) = 8192"
  "\<not> cfg_auth_required (sv_cfg (initial_services args_default))"
  by (simp_all add: initial_services_def args_default_def config_init_defaults_def Let_def)

text \<open>The connection as it is accepted, and the process that serves it: \<open>i\<close> is the interest of its descriptor.\<close>

definition demo_conn :: socks5 where
  "demo_conn = zero_conn\<lparr>client_fd := 13, origin_fd := -1, client_addr := SockIn 4000 [127, 0, 0, 1],
     stm := \<lparr>sm_initial = HELLO_READ, sm_max_state = ERROR_STATE, sm_current = None\<rparr>,
     hello := hello_parser_init, auth := auth_parser_init (auth zero_conn),
     request := request_parser_init (request zero_conn), username := (username zero_conn)[0 := 0],
     reply := SOCKS5_REP_SUCCESS, pop3 := pop3_sniffer_init (pop3 zero_conn),
     raw_read := Some (replicate 8192 0), raw_write := Some (replicate 8192 0),
     read_buffer := buffer_init 8192 (replicate 8192 0), write_buffer := buffer_init 8192 (replicate 8192 0),
     buffer_size := 8192, references := 1\<rparr>"

definition session_services :: services where
  "session_services = (let sv = initial_services args_default in sv\<lparr>sv_metrics := metrics_connection_opened (sv_metrics sv)\<rparr>)"

definition demo_proxy :: "socks5 \<Rightarrow> demo_env \<Rightarrow> log_event list \<Rightarrow> demo_env proxy" where
  "demo_proxy s w l = \<lparr>px_world = w, px_conns = [0 \<mapsto> s], px_mgmt = Map.empty, px_next = 1, px_pool = [],
     px_pool_size = 0, px_services = session_services, px_log = l\<rparr>"

text \<open>The world once the client's descriptor has received and sent something\<close>

definition demo_env_at :: "nat \<Rightarrow> nat \<Rightarrow> byte list \<Rightarrow> byte list \<Rightarrow> demo_env" where
  "demo_env_at k n rx tx = \<lparr>dw_client = k, dw_next = n, dw_rx = (\<lambda>_. [])(13 := rx), dw_tx = (\<lambda>_. [])(13 := tx)\<rparr>"

definition demo_sel :: "fd_interest \<Rightarrow> nat set \<Rightarrow> nat set \<Rightarrow> (handler, pointer) selector" where
  "demo_sel i r w = listening\<lparr>s_fds := (s_fds listening)[13 := entry 13 i SocksHandler (Some (SocksConn 0))],
     s_max_fd := 13, s_master_r := (if wants OP_READ i then {10, 11, 12, 13} else {10, 11, 12}),
     s_master_w := (if wants OP_WRITE i then {13} else {}), s_slave_r := r, s_slave_w := w\<rparr>"

lemmas demo_eval = numeral_2_eq_2 [symmetric] handle_item_def Let_def op_defs wants_def sys_def get_conn_def put_conn_def config_def
  upd_metrics_def upd_services_def register_fd_def selector_register_def set_interest_def selector_set_interest_def
  ITEMS_MAX_SIZE_def invalid_fd_def entry_fold items_update_fdset_for_fd_def services_simps

lemma accepted:
  "handle_item (handlers demo_os mem mem') 10 (listening\<lparr>s_slave_r := {10}, s_slave_w := {}\<rparr>,
     initial_proxy (initial_services args_default) (demo_world\<lparr>dw_client := k, dw_next := 13\<rparr>)) =
     Some (demo_sel OP_READ {10} {}, demo_proxy demo_conn (demo_env_at k 14 [] []) [])"
  by (simp add: demo_eval listening_def socksv5_passive_accept_def
     initial_proxy_def socks5_new_def conn_alloc_def zero_conn_def demo_sel_def demo_proxy_def demo_conn_def session_services_def demo_world_def demo_env_at_def fun_upd_idem
     CONFIG_MIN_BUFFER_def stm_init_ok insert_commute)

lemma services_demo:
  "cfg_io_buffer_size (sv_cfg session_services) = 8192"
  "\<not> cfg_auth_required (sv_cfg session_services)"
  by (simp_all add: session_services_def services_simps Let_def)

section \<open>Greeting\<close>

lemmas stm_eval = socksv5_read_def stm_handler_read_def socksv5_write_def stm_handler_write_def stm_event_def handle_first_def
   get_stm_def put_stm_def attach_def socks5_states_def plain_state_def state_defs run_hook_def jump_def finish_def 

lemma greeting_consumed:
  "hello_parser_consume hello_parser_init
     \<lparr>b_data = memcpy_at (replicate 8192 0) 0 [5, 1, 0], b_limit = 8192, b_read = 0, b_write = 3\<rparr> e =
   Some (hello_parser_init\<lparr>hp_state := HELLO_DONE, has_noauth := True\<rparr>,
     \<lparr>b_data = [5, 1, 0] @ replicate 8189 0, b_limit = 8192, b_read = 0, b_write = 0\<rparr>, True, False)"
  by (simp add: hello_parser_consume_def consume_buffer.simps buffer_defs hello_parser_feed_def hello_parser_init_def
     hello_final_def method_defs Let_def memcpy_at_def)

definition demo_machine :: "nat \<Rightarrow> state_machine" where
  "demo_machine c = \<lparr>sm_initial = HELLO_READ, sm_max_state = ERROR_STATE, sm_current = Some c\<rparr>"

definition greeted_conn :: socks5 where
  "greeted_conn = demo_conn\<lparr>stm := demo_machine HELLO_WRITE, hello := hello_parser_init\<lparr>hp_state := HELLO_DONE, has_noauth := True\<rparr>,
     nego_method := SOCKS5_METHOD_NO_AUTH,
     read_buffer := \<lparr>b_data = [5, 1, 0] @ replicate 8189 0, b_limit = 8192, b_read = 0, b_write = 0\<rparr>,
     write_buffer := \<lparr>b_data = (replicate 8192 0)[0 := 5, 1 := 0], b_limit = 8192, b_read = 0, b_write = 2\<rparr>\<rparr>"

lemma greeted:
  "k \<noteq> 1 \<Longrightarrow> handle_item (handlers demo_os mem mem') 13 (demo_sel OP_READ {13} {}, demo_proxy demo_conn (demo_env_at k 14 [] []) []) =
   Some (demo_sel OP_WRITE {13} {}, demo_proxy greeted_conn
     (demo_env_at k 14 [5, 1, 0] []) [])"
  by (simp add: demo_eval stm_eval demo_sel_def listening_def demo_proxy_def demo_conn_def zero_conn_def hello_read_def
   receive_def buffer_defs demo_script_def greeted_conn_def demo_machine_def method_defs
   demo_env_at_def greeting_consumed choose_method_def services_demo client_interest_def insert_Diff_if cong: if_cong)

definition requesting_conn :: socks5 where
  "requesting_conn = greeted_conn\<lparr>stm := demo_machine REQUEST_READ,
     write_buffer := \<lparr>b_data = (replicate 8192 0)[0 := 5, 1 := 0], b_limit = 8192, b_read = 0, b_write = 0\<rparr>\<rparr>"

lemma method_sent: "take (2) ((replicate 8192 0)[0 := 5, Suc 0 := 0]) = [5, 0 :: byte]"
  by (simp add: take_update_swap numeral_eq_Suc)

lemma answered:
  "handle_item (handlers demo_os mem mem') 13 (demo_sel OP_WRITE {} {13}, demo_proxy greeted_conn
     (demo_env_at k 14 [5, 1, 0] []) []) =
   Some (demo_sel OP_READ {} {13}, demo_proxy requesting_conn
     (demo_env_at k 14 [5, 1, 0] [5, 0]) [])"
  by (simp add: demo_eval stm_eval demo_sel_def listening_def demo_proxy_def demo_conn_def zero_conn_def hello_write_def
   transmit_def buffer_defs greeted_conn_def demo_machine_def method_defs requesting_conn_def
   demo_env_at_def client_interest_def method_sent insert_commute cong: if_cong)

text \<open>The same for a client that offers \<open>USERPASS\<close>\<close>

lemma userpass_consumed:
  "hello_parser_consume hello_parser_init
     \<lparr>b_data = memcpy_at (replicate 8192 0) 0 [5, 1, 2], b_limit = 8192, b_read = 0, b_write = 3\<rparr> e =
   Some (hello_parser_init\<lparr>hp_state := HELLO_DONE, has_userpass := True\<rparr>,
     \<lparr>b_data = [5, 1, 2] @ replicate 8189 0, b_limit = 8192, b_read = 0, b_write = 0\<rparr>, True, False)"
  by (simp add: hello_parser_consume_def consume_buffer.simps buffer_defs hello_parser_feed_def hello_parser_init_def
     hello_final_def method_defs Let_def memcpy_at_def)

definition offering_conn :: socks5 where
  "offering_conn = demo_conn\<lparr>stm := demo_machine HELLO_WRITE, hello := hello_parser_init\<lparr>hp_state := HELLO_DONE, has_userpass := True\<rparr>,
     nego_method := SOCKS5_METHOD_USERPASS,
     read_buffer := \<lparr>b_data = [5, 1, 2] @ replicate 8189 0, b_limit = 8192, b_read = 0, b_write = 0\<rparr>,
     write_buffer := \<lparr>b_data = (replicate 8192 0)[0 := 5, 1 := 2], b_limit = 8192, b_read = 0, b_write = 2\<rparr>\<rparr>"

lemma init_offers [simp]: "\<not> has_noauth hello_parser_init"
  by (simp add: hello_parser_init_def)

lemma offered:
  "handle_item (handlers demo_os mem mem') 13 (demo_sel OP_READ {13} {}, demo_proxy demo_conn (demo_env_at 1 14 [] []) []) =
   Some (demo_sel OP_WRITE {13} {}, demo_proxy offering_conn (demo_env_at 1 14 [5, 1, 2] []) [])"
  by (simp add: demo_eval stm_eval demo_sel_def listening_def demo_proxy_def demo_conn_def zero_conn_def hello_read_def
   receive_def buffer_defs demo_script_def offering_conn_def demo_machine_def method_defs
   demo_env_at_def userpass_consumed choose_method_def services_demo client_interest_def insert_Diff_if cong: if_cong)

definition identifying_conn :: socks5 where
  "identifying_conn = offering_conn\<lparr>stm := demo_machine AUTH_READ,
     write_buffer := \<lparr>b_data = (replicate 8192 0)[0 := 5, 1 := 2], b_limit = 8192, b_read = 0, b_write = 0\<rparr>\<rparr>"

lemma userpass_sent: "take (2) ((replicate 8192 0)[0 := 5, Suc 0 := 2]) = [5, 2 :: byte]"
  by (simp add: take_update_swap numeral_eq_Suc)

lemma identifying:
  "handle_item (handlers demo_os mem mem') 13 (demo_sel OP_WRITE {} {13}, demo_proxy offering_conn
     (demo_env_at 1 14 [5, 1, 2] []) []) =
   Some (demo_sel OP_READ {} {13}, demo_proxy identifying_conn
     (demo_env_at 1 14 [5, 1, 2] [5, 2]) [])"
  by (simp add: demo_eval stm_eval demo_sel_def listening_def demo_proxy_def demo_conn_def zero_conn_def hello_write_def
   transmit_def buffer_defs offering_conn_def demo_machine_def method_defs identifying_conn_def
   demo_env_at_def client_interest_def userpass_sent insert_commute cong: if_cong)

section \<open>Request\<close>

definition demo_request :: request_parser where
  "demo_request = \<lparr>rp_state = REQ_DONE, rp_cmd = 1, rp_atyp = 1, rp_addr_len = 4, rp_idx = 4,
    rp_addr = (replicate 256 0)[0 := 127, 1 := 0, 2 := 0, 3 := 1], rp_port = 80, rp_port_idx = 2\<rparr>"

lemma request_consumed:
  "request_parser_consume (request_parser_init
       \<lparr>rp_state = REQ_VERSION, rp_cmd = 0, rp_atyp = 0, rp_addr_len = 0, rp_idx = 0, rp_addr = replicate 256 0,
         rp_port = 0, rp_port_idx = 0\<rparr>)
     \<lparr>b_data = memcpy_at (5 # 1 # 0 # replicate 8189 0) 0 [5, 1, 0, 1, 127, 0, 0, 1, 0, 80], b_limit = 8192, b_read = 0, b_write = 10\<rparr> e =
   Some (demo_request,
     \<lparr>b_data = [5, 1, 0, 1, 127, 0, 0, 1, 0, 80] @ replicate 8182 0, b_limit = 8192, b_read = 0, b_write = 0\<rparr>, True, False)"
  by (simp add: request_parser_consume_def consume_buffer.simps buffer_defs request_parser_feed_def request_parser_init_def
     request_final_def atyp_defs Let_def memcpy_at_def demo_request_def)

definition demo_sel2 :: "fd_interest \<Rightarrow> fd_interest \<Rightarrow> nat set \<Rightarrow> nat set \<Rightarrow> (handler, pointer) selector" where
  "demo_sel2 i j r w = listening\<lparr>s_fds := (s_fds listening)[13 := entry 13 i SocksHandler (Some (SocksConn 0)),
       14 := entry 14 j SocksHandler (Some (SocksConn 0))], s_max_fd := 14,
     s_master_r := {10, 11, 12} \<union> (if wants OP_READ i then {13} else {}) \<union> (if wants OP_READ j then {14} else {}),
     s_master_w := (if wants OP_WRITE i then {13} else {}) \<union> (if wants OP_WRITE j then {14} else {}),
     s_slave_r := r, s_slave_w := w\<rparr>"

definition connected_conn :: socks5 where
  "connected_conn = requesting_conn\<lparr>origin_fd := 14, references := 2, stm := demo_machine REQUEST_WRITE,
     request := demo_request, dest_port := 80, addrs := (replicate MAX_ADDRS (SockOther 0 [0, 0, 0, 0]))[0 := SockIn 80 [127, 0, 0, 1]],
     naddrs := 1, addr_idx := 0, dest_host := memcpy_at (replicate 256 0) 0 (ascii ''127.0.0.1'' @ [0]),
     read_buffer := \<lparr>b_data = [5, 1, 0, 1, 127, 0, 0, 1, 0, 80] @ replicate 8182 0, b_limit = 8192, b_read = 0, b_write = 0\<rparr>,
     write_buffer := \<lparr>b_data = (replicate 8192 0)[0 := 5, 1 := 0, 0 := 5, 1 := 0, 2 := 0, 3 := 1, 4 := 127, 5 := 0, 6 := 0, 7 := 1, 8 := 0, 9 := 80],
        b_limit = 8192, b_read = 0, b_write = 10\<rparr>\<rparr>"

definition demo_rx :: "byte list" where "demo_rx = [5, 1, 0, 5, 1, 0, 1, 127, 0, 0, 1, 0, 80]"

definition demo_tx :: "byte list" where "demo_tx = [5, 0, 5, 0, 0, 1, 127, 0, 0, 1, 0, 80]"

lemma demo_request_simps: "rp_cmd demo_request = 1" "rp_atyp demo_request = 1" "rp_port demo_request = 80"
  "take 4 (rp_addr demo_request) = [127, 0, 0, 1]"
  by (simp_all add: demo_request_def numeral_eq_Suc)

lemma entries_swap: "xs[14 := a, 13 := b] = xs[13 := b, 14 := a :: 'a]"
  by (simp add: list_update_swap)

lemma requested:
  "handle_item (handlers demo_os mem mem') 13 (demo_sel OP_READ {13} {}, demo_proxy requesting_conn
     (demo_env_at 0 14 [5, 1, 0] [5, 0]) []) =
   Some (demo_sel2 OP_WRITE OP_NOOP {13} {}, demo_proxy connected_conn
     (demo_env_at 0 15 demo_rx [5, 0]) [])"
  by (simp add: demo_eval stm_eval demo_sel_def listening_def demo_proxy_def zero_conn_def request_read_def
   receive_def buffer_defs greeted_conn_def demo_machine_def method_defs requesting_conn_def demo_conn_def
   demo_env_at_def client_interest_def insert_commute insert_Diff_if demo_script_def request_consumed
    process_request_def demo_request_simps atyp_defs SOCKS5_CMD_CONNECT_def start_connection_def MAX_ADDRS_def
    request_write_arrival_def build_reply_def reply_bytes_def SOCKS5_REP_SUCCESS_def
      demo_sel2_def demo_rx_def connected_conn_def entries_swap cong: if_cong)

definition relaying_conn :: socks5 where
  "relaying_conn = connected_conn\<lparr>stm := demo_machine COPY, write_buffer := (write_buffer connected_conn)\<lparr>b_write := 0\<rparr>\<rparr>"

lemma origin_name:
  assumes "client_addr s = SockIn 4000 [127, 0, 0, 1]" and "length mem = SOCKADDR_TO_HUMAN_MIN"
  shows "origin_string demo_os mem s = Some (ascii ''127.0.0.1:4000'')"
proof -
  have "human demo_os (client_addr s) = ascii ''127.0.0.1:4000''"
    using assms(1) by (simp add: human_def ascii_def show_nat.simps)
  with sockaddr_to_human_fits [OF demo_os_ok assms(2), of "client_addr s"] show ?thesis
    by (auto simp: origin_string_def)
qed

lemma destination_name:
  "dest_host s = memcpy_at (replicate 256 0) 0 (ascii ''127.0.0.1'' @ [0]) \<Longrightarrow> dest_port s = 80 \<Longrightarrow>
     dest_string s = ascii ''127.0.0.1:80''"
  by (simp add: dest_string_def memcpy_at_0 ascii_def show_nat.simps)

lemma nobody: "username s = (replicate 256 0)[0 := 0] \<Longrightarrow> log_user s = ascii ''-''"
  by (simp add: log_user_def cstr_def numeral_eq_Suc)

lemma reply_sent: "take 10 ((replicate 8192 0)[0 := 5, Suc 0 := 0, 0 := 5, Suc 0 := 0, 2 := 0, 3 := 1, 4 := 127,
    5 := 0, 6 := 0, 7 := 1, 8 := 0, 9 := 80]) = [5, 0, 0, 1, 127, 0, 0, 1, 0, 80 :: byte]"
proof -
  have "replicate 10 (0 :: byte) = [0, 0, 0, 0, 0, 0, 0, 0, 0, 0]" by (simp add: numeral_eq_Suc)
  then have "take 10 (replicate 8192 0) = [0, 0, 0, 0, 0, 0, 0, 0, 0, 0 :: byte]" by (simp add: take_replicate)
  then show ?thesis by (simp add: take_update_swap)
qed

lemma served:
  "length mem = SOCKADDR_TO_HUMAN_MIN \<Longrightarrow>
   handle_item (handlers demo_os mem mem') 13 (demo_sel2 OP_WRITE OP_NOOP {} {13}, demo_proxy connected_conn
     (demo_env_at 0 15 demo_rx [5, 0]) []) =
   Some (demo_sel2 OP_READ OP_READ {} {13}, demo_proxy relaying_conn
     (demo_env_at 0 15 demo_rx demo_tx)
     [LogAccess (ascii ''-'') (ascii ''CONNECT'') (ascii ''127.0.0.1:4000'') (ascii ''127.0.0.1:80'') 0])"
  by (simp add: demo_eval stm_eval demo_sel2_def listening_def demo_proxy_def demo_conn_def zero_conn_def request_write_def
   transmit_def buffer_defs greeted_conn_def demo_machine_def method_defs requesting_conn_def relaying_conn_def connected_conn_def
   demo_env_at_def client_interest_def insert_commute insert_Diff_if copy_arrival_def copy_compute_interests_def origin_name destination_name nobody add_log_def reply_sent
    SOCKS5_REP_SUCCESS_def demo_rx_def demo_tx_def POP3_PORT_def entries_swap cong: if_cong)

section \<open>Resolution\<close>

text \<open>The request of a client of kind 2: port 80 of the host named \<open>A\<close>\<close>

definition name_request :: request_parser where
  "name_request = \<lparr>rp_state = REQ_DONE, rp_cmd = 1, rp_atyp = 3, rp_addr_len = 1, rp_idx = 1,
    rp_addr = (replicate 256 0)[0 := 65, 1 := 0], rp_port = 80, rp_port_idx = 2\<rparr>"

lemma name_consumed:
  "request_parser_consume (request_parser_init
       \<lparr>rp_state = REQ_VERSION, rp_cmd = 0, rp_atyp = 0, rp_addr_len = 0, rp_idx = 0, rp_addr = replicate 256 0,
         rp_port = 0, rp_port_idx = 0\<rparr>)
     \<lparr>b_data = memcpy_at (5 # 1 # 0 # replicate 8189 0) 0 [5, 1, 0, 3, 1, 65, 0, 80], b_limit = 8192, b_read = 0, b_write = 8\<rparr> e =
   Some (name_request,
     \<lparr>b_data = [5, 1, 0, 3, 1, 65, 0, 80] @ replicate 8184 0, b_limit = 8192, b_read = 0, b_write = 0\<rparr>, True, False)"
  by (simp add: request_parser_consume_def consume_buffer.simps buffer_defs request_parser_feed_def request_parser_init_def
     request_final_def atyp_defs Let_def memcpy_at_def name_request_def)

definition name_dns :: dns_request where
  "name_dns = dns_blank\<lparr>dq_notify_fd := 13, dq_conn := 0,
     dq_host := snprintf_s (dq_host dns_blank) 256 ((strncpy (replicate 256 0) (rp_addr name_request) 255)[255 := 0]),
     dq_service := memcpy_at (dq_service dns_blank) 0 (show_nat 80 @ [0])\<rparr>"

definition resolving_conn :: socks5 where
  "resolving_conn = requesting_conn\<lparr>stm := demo_machine REQUEST_RESOLV, request := name_request, dest_port := 80,
     dest_host := (strncpy (replicate 256 0) (rp_addr name_request) 255)[255 := 0], dns := name_dns, resolving := True,
     read_buffer := \<lparr>b_data = [5, 1, 0, 3, 1, 65, 0, 80] @ replicate 8184 0, b_limit = 8192, b_read = 0, b_write = 0\<rparr>\<rparr>"

definition name_rx :: "byte list" where "name_rx = [5, 1, 0, 5, 1, 0, 3, 1, 65, 0, 80]"

lemma name_request_simps: "rp_cmd name_request = 1" "rp_atyp name_request = 3" "rp_port name_request = 80"
  by (simp_all add: name_request_def)

lemma asked:
  "handle_item (handlers demo_os mem mem') 13 (demo_sel OP_READ {13} {}, demo_proxy requesting_conn
     (demo_env_at 2 14 [5, 1, 0] [5, 0]) []) =
   Some (demo_sel OP_NOOP {13} {}, demo_proxy resolving_conn (demo_env_at 2 14 name_rx [5, 0]) [])"
  by (simp add: demo_eval stm_eval demo_sel_def listening_def demo_proxy_def zero_conn_def request_read_def
   receive_def buffer_defs greeted_conn_def demo_machine_def method_defs requesting_conn_def demo_conn_def
   demo_env_at_def client_interest_def insert_commute insert_Diff_if demo_script_def name_consumed
    process_request_def name_request_simps atyp_defs SOCKS5_CMD_CONNECT_def dns_resolve_async_def resolv_arrival_def
      name_dns_def name_rx_def resolving_conn_def cong: if_cong)

text \<open>The resolver has answered with the addresses \<open>as\<close>; in the next turn the first of them is tried.\<close>

definition resolved_conn :: "sockaddr list \<Rightarrow> socks5" where
  "resolved_conn as = resolving_conn\<lparr>dns := name_dns\<lparr>dq_result := Some as, dq_status := 0\<rparr>\<rparr>"

definition demo_addresses :: "sockaddr list" where
  "demo_addresses = [SockIn 80 [10, 0, 0, 2], SockIn 80 [127, 0, 0, 1]]"

definition connecting_conn :: socks5 where
  "connecting_conn = resolving_conn\<lparr>stm := demo_machine REQUEST_CONNECTING, resolving := False,
     addrs := (replicate MAX_ADDRS (SockOther 0 [0, 0, 0, 0]))[0 := SockIn 80 [10, 0, 0, 2], 1 := SockIn 80 [127, 0, 0, 1]],
     naddrs := 2, addr_idx := 0, dns := name_dns\<lparr>dq_status := 0, dq_result := None\<rparr>, origin_fd := 14, references := 2\<rparr>"

lemma tried:
  "handle_job (handlers demo_os mem mem') 13 ((demo_sel OP_NOOP {} {})\<lparr>s_jobs := [13]\<rparr>,
     demo_proxy (resolved_conn demo_addresses) (demo_env_at 2 14 name_rx [5, 0]) []) =
   Some ((demo_sel2 OP_NOOP OP_WRITE {} {})\<lparr>s_jobs := [13]\<rparr>, demo_proxy connecting_conn (demo_env_at 2 15 name_rx [5, 0]) [])"
  by (simp add: demo_eval stm_eval handle_job_def demo_sel_def demo_sel2_def listening_def demo_proxy_def zero_conn_def socksv5_block_def
   stm_handler_block_def resolv_block_def greeted_conn_def demo_machine_def requesting_conn_def demo_conn_def dns_request_clear_def
   demo_env_at_def start_connection_def MAX_ADDRS_def resolved_conn_def resolving_conn_def connecting_conn_def demo_addresses_def
   insert_commute insert_Diff_if name_dns_def entries_swap connect_loop.simps(2) [of 1, unfolded Suc_1] cong: if_cong)

section \<open>The run\<close>

abbreviation demo_server :: "(handler, pointer) selector \<Rightarrow> demo_env proxy \<Rightarrow> demo_env server" where
  "demo_server s x \<equiv> \<lparr>sr_state = (s, x), sr_listeners = [10, 11, 12], sr_shutting_down = False\<rparr>"

lemma demo_round:
  assumes run: "reachable demo_os mem mem' (demo_server s x)"
    and call: "handle_item (handlers demo_os mem mem') n (s1, x) = Some (s', x')"
    and s1: "s1 = s\<lparr>s_slave_r := r, s_slave_w := w\<rparr>"
    and n: "n \<le> s_max_fd s" "s_jobs s = []" "r \<subseteq> {n}" "w \<subseteq> {n}" and mem: "length mem = SOCKADDR_TO_HUMAN_MIN"
    and s': "numbered (s_fds s')" "s_slave_r s' = r" "s_slave_w s' = w" "s_jobs s' = []"
  shows "reachable demo_os mem mem' (demo_server s' x')"
proof -
  have "sel_inv s"
    using reachable_ok [OF demo_os_ok mem run] by (auto simp: server_ok_def server_inv_def simp del: sel_updates)
  then have "numbered (s_fds s)" "s_max_fd s < ITEMS_MAX_SIZE" using sel_inv_numbered [of s] by (simp_all add: sel_inv_def)
  from one_ready [OF this n call [unfolded s1] s']
  have "main_round demo_os mem mem' (PselectReady r w) 0 (demo_server s x) = Some (True, demo_server s' x')"
    by (simp add: main_round_def)
  with run show ?thesis by (rule reachable.turn)
qed

lemma demo_slaves [simp]:
  "(demo_sel i r0 w0)\<lparr>s_slave_r := r, s_slave_w := w\<rparr> = demo_sel i r w"
  "(demo_sel2 i j r0 w0)\<lparr>s_slave_r := r, s_slave_w := w\<rparr> = demo_sel2 i j r w"
  by (simp_all add: demo_sel_def demo_sel2_def listening_def)

lemma demo_sel_fields [simp]:
  "s_jobs (demo_sel i r w) = []" "s_max_fd (demo_sel i r w) = 13" "numbered (s_fds (demo_sel i r w))"
  "s_slave_r (demo_sel i r w) = r" "s_slave_w (demo_sel i r w) = w"
  "s_jobs (demo_sel2 i j r w) = []" "s_max_fd (demo_sel2 i j r w) = 14" "numbered (s_fds (demo_sel2 i j r w))"
  "s_slave_r (demo_sel2 i j r w) = r" "s_slave_w (demo_sel2 i j r w) = w"
  "s_jobs listening = []" "s_max_fd listening = 12"
  by (simp_all add: demo_sel_def demo_sel2_def listening_def)

definition demo_relaying :: "demo_env server" where
  "demo_relaying = demo_server (demo_sel2 OP_READ OP_READ {} {13}) (demo_proxy relaying_conn (demo_env_at 0 15 demo_rx demo_tx)
     [LogAccess (ascii ''-'') (ascii ''CONNECT'') (ascii ''127.0.0.1:4000'') (ascii ''127.0.0.1:80'') 0])"

lemma accepted_reachable:
  assumes mem: "length mem = SOCKADDR_TO_HUMAN_MIN"
  shows "reachable demo_os mem mem' (demo_server (demo_sel OP_READ {10} {}) (demo_proxy demo_conn (demo_env_at k 14 [] []) []))"
proof -
  have "reachable demo_os mem mem' (demo_start k)" by (rule reachable.start [OF demo_setup])
  from demo_round [OF this [unfolded demo_start_def] accepted refl] mem show ?thesis by simp
qed

lemma requesting_reachable:
  assumes mem: "length mem = SOCKADDR_TO_HUMAN_MIN" and k: "k \<noteq> 1"
  shows "reachable demo_os mem mem' (demo_server (demo_sel OP_READ {} {13}) (demo_proxy requesting_conn (demo_env_at k 14 [5, 1, 0] [5, 0]) []))"
proof -
  note r = accepted_reachable [OF mem, of mem' k]
  have r: "reachable demo_os mem mem' (demo_server (demo_sel OP_WRITE {13} {}) (demo_proxy greeted_conn (demo_env_at k 14 [5, 1, 0] []) []))"
    by (rule demo_round [OF r greeted [OF k]]) (simp_all add: mem)
  show ?thesis by (rule demo_round [OF r answered]) (simp_all add: mem)
qed

lemma identifying_reachable:
  assumes mem: "length mem = SOCKADDR_TO_HUMAN_MIN"
  shows "reachable demo_os mem mem' (demo_server (demo_sel OP_READ {} {13}) (demo_proxy identifying_conn (demo_env_at 1 14 [5, 1, 2] [5, 2]) []))"
proof -
  note r = accepted_reachable [OF mem, of mem' 1]
  have r: "reachable demo_os mem mem' (demo_server (demo_sel OP_WRITE {13} {}) (demo_proxy offering_conn (demo_env_at 1 14 [5, 1, 2] []) []))"
    by (rule demo_round [OF r offered]) (simp_all add: mem)
  show ?thesis by (rule demo_round [OF r identifying]) (simp_all add: mem)
qed

lemma demo_reachable:
  assumes mem: "length mem = SOCKADDR_TO_HUMAN_MIN"
  shows "reachable demo_os mem mem' demo_relaying"
proof -
  note r = requesting_reachable [OF mem, of 0 mem', simplified]
  have r: "reachable demo_os mem mem' (demo_server (demo_sel2 OP_WRITE OP_NOOP {13} {}) (demo_proxy connected_conn (demo_env_at 0 15 demo_rx [5, 0]) []))"
    by (rule demo_round [OF r requested]) (simp_all add: mem)
  show ?thesis unfolding demo_relaying_def
    by (rule demo_round [OF r served]) (simp_all add: mem)
qed

text \<open>What the relaying state looks like\<close>

lemma demo_conns: "conns demo_relaying = [0 \<mapsto> relaying_conn]"
  by (simp add: demo_relaying_def live_def demo_proxy_def fun_eq_iff)

lemma relaying_conn_fields:
  "client_fd relaying_conn = 13" "origin_fd relaying_conn = 14" "cur relaying_conn = COPY"
  "nego_method relaying_conn = SOCKS5_METHOD_NO_AUTH" "\<not> resolving relaying_conn"
  "reply relaying_conn = SOCKS5_REP_SUCCESS" "references relaying_conn = 2"
  by (simp_all add: relaying_conn_def connected_conn_def requesting_conn_def greeted_conn_def demo_conn_def zero_conn_def
      cur_def demo_machine_def)

lemma demo_mem: "length (replicate 52 (0 :: byte)) = SOCKADDR_TO_HUMAN_MIN"
  by (simp add: SOCKADDR_TO_HUMAN_MIN_def)

lemmas demo_state = demo_os_ok demo_mem demo_reachable [OF demo_mem, of "[]"]

text \<open>The states in which the greeting, user and password, and the request are due\<close>

definition demo_greeting :: "demo_env server" where
  "demo_greeting = demo_server (demo_sel OP_READ {10} {}) (demo_proxy demo_conn (demo_env_at 0 14 [] []) [])"

definition demo_identifying :: "demo_env server" where
  "demo_identifying = demo_server (demo_sel OP_READ {} {13}) (demo_proxy identifying_conn (demo_env_at 1 14 [5, 1, 2] [5, 2]) [])"

definition demo_requesting :: "demo_env server" where
  "demo_requesting = demo_server (demo_sel OP_READ {} {13}) (demo_proxy requesting_conn (demo_env_at 2 14 [5, 1, 0] [5, 0]) [])"

lemmas greeting_state = demo_os_ok demo_mem accepted_reachable [OF demo_mem, of "[]" 0, folded demo_greeting_def]

lemmas identifying_state = demo_os_ok demo_mem identifying_reachable [OF demo_mem, of "[]", folded demo_identifying_def]

lemmas requesting_state =
  demo_os_ok demo_mem requesting_reachable [OF demo_mem, of 2 "[]", simplified, folded demo_requesting_def]

lemma handshake_conns:
  "conns demo_greeting = [0 \<mapsto> demo_conn]" "conns demo_identifying = [0 \<mapsto> identifying_conn]"
  "conns demo_requesting = [0 \<mapsto> requesting_conn]"
  by (simp_all add: demo_greeting_def demo_identifying_def demo_requesting_def live_def demo_proxy_def fun_eq_iff)

lemma handshake_fields:
  "client_fd demo_conn = 13" "cur demo_conn = HELLO_READ" "hello demo_conn = hello_parser_init"
  "buf_contents (read_buffer demo_conn) = []" "buf_room (read_buffer demo_conn) = 8192"
  "client_fd identifying_conn = 13" "cur identifying_conn = AUTH_READ" "auth identifying_conn = auth_parser_init (auth zero_conn)"
  "buf_contents (read_buffer identifying_conn) = []" "buf_room (read_buffer identifying_conn) = 8192"
  "client_fd requesting_conn = 13" "cur requesting_conn = REQUEST_READ"
  "request requesting_conn = request_parser_init (request zero_conn)"
  "buf_contents (read_buffer requesting_conn) = []" "buf_room (read_buffer requesting_conn) = 8192"
  by (simp_all add: requesting_conn_def greeted_conn_def identifying_conn_def offering_conn_def demo_conn_def zero_conn_def
      cur_def demo_machine_def buf_contents_def buf_room_def buffer_defs)

section \<open>Trying addresses\<close>

lemma resolving_reachable:
  assumes mem: "length mem = SOCKADDR_TO_HUMAN_MIN"
  shows "reachable demo_os mem mem' (demo_server (demo_sel OP_NOOP {13} {}) (demo_proxy resolving_conn (demo_env_at 2 14 name_rx [5, 0]) []))"
  by (rule demo_round [OF requesting_reachable [OF mem] asked]) (simp_all add: mem)

definition demo_resolved :: "sockaddr list \<Rightarrow> demo_env server" where
  "demo_resolved as = demo_server ((demo_sel OP_NOOP {13} {})\<lparr>s_jobs := [13]\<rparr>)
     (demo_proxy (resolved_conn as) (demo_env_at 2 14 name_rx [5, 0]) [])"

lemma resolving_fields:
  "resolving resolving_conn" "dns resolving_conn = name_dns" "dq_notify_fd name_dns = 13"
  by (simp_all add: resolving_conn_def name_dns_def)

lemma resolved_reachable:
  assumes mem: "length mem = SOCKADDR_TO_HUMAN_MIN"
  shows "reachable demo_os mem mem' (demo_resolved as)"
proof -
  let ?sr = "demo_server (demo_sel OP_NOOP {13} {}) (demo_proxy resolving_conn (demo_env_at 2 14 name_rx [5, 0]) [])"
  have "resolver_running 0 (sr_state ?sr)"
    by (simp add: resolver_running_def live_def demo_proxy_def resolving_fields)
  moreover have "dns_finish True 0 0 (Some as) (sr_state ?sr) = Some (sr_state (demo_resolved as))"
    by (simp add: dns_finish_def get_conn_def put_conn_def demo_proxy_def selector_notify_block_def demo_resolved_def
        resolved_conn_def resolving_fields fun_upd_idem)
  ultimately have "reachable demo_os mem mem' (?sr\<lparr>sr_state := sr_state (demo_resolved as)\<rparr>)"
    by (rule reachable.resolved [OF resolving_reachable [OF mem]])
  then show ?thesis by (simp add: demo_resolved_def)
qed

definition demo_connecting :: "demo_env server" where
  "demo_connecting = demo_server (demo_sel2 OP_NOOP OP_WRITE {} {}) (demo_proxy connecting_conn (demo_env_at 2 15 name_rx [5, 0]) [])"

lemma connecting_reachable:
  assumes mem: "length mem = SOCKADDR_TO_HUMAN_MIN"
  shows "reachable demo_os mem mem' demo_connecting"
proof -
  let ?s = "(demo_sel OP_NOOP {13} {})\<lparr>s_jobs := [13]\<rparr>"
  have s: "numbered (s_fds ?s)" "s_max_fd ?s < ITEMS_MAX_SIZE" "s_jobs ?s = [13]"
    "?s\<lparr>s_slave_r := {}, s_slave_w := {}\<rparr> = (demo_sel OP_NOOP {} {})\<lparr>s_jobs := [13]\<rparr>"
    by (simp_all add: demo_sel_def listening_def ITEMS_MAX_SIZE_def)
  have "((demo_sel2 OP_NOOP OP_WRITE {} {})\<lparr>s_jobs := [13]\<rparr>)\<lparr>s_jobs := []\<rparr> = demo_sel2 OP_NOOP OP_WRITE {} {}"
    by (simp add: demo_sel2_def listening_def)
  with one_job [OF s(1-3), unfolded s(4), OF tried, of mem mem']
  have "main_round demo_os mem mem' (PselectReady {} {}) 0 (demo_resolved demo_addresses) = Some (True, demo_connecting)"
    by (simp add: main_round_def demo_resolved_def demo_connecting_def)
  with resolved_reachable [OF mem] show ?thesis by (rule reachable.turn)
qed

lemmas resolved_state = demo_os_ok demo_mem resolved_reachable [OF demo_mem, of "[]"]

lemmas connecting_state = demo_os_ok demo_mem connecting_reachable [OF demo_mem, of "[]"]

lemma trying_conns:
  "conns (demo_resolved as) = [0 \<mapsto> resolved_conn as]" "conns demo_connecting = [0 \<mapsto> connecting_conn]"
  by (simp_all add: demo_resolved_def demo_connecting_def live_def demo_proxy_def fun_eq_iff resolved_conn_def connecting_conn_def
      resolving_conn_def requesting_conn_def greeted_conn_def demo_conn_def)

lemma trying_fields:
  "cur (resolved_conn as) = REQUEST_RESOLV" "dq_result (dns (resolved_conn as)) = Some as" "dq_status (dns (resolved_conn as)) = 0"
  "reply (resolved_conn as) = SOCKS5_REP_SUCCESS"
  "cur connecting_conn = REQUEST_CONNECTING" "origin_fd connecting_conn = 14" "addr_idx connecting_conn = 0" "naddrs connecting_conn = 2"
  "addrs connecting_conn = (replicate MAX_ADDRS (SockOther 0 [0, 0, 0, 0]))[0 := SockIn 80 [10, 0, 0, 2], 1 := SockIn 80 [127, 0, 0, 1]]"
  by (simp_all add: resolved_conn_def connecting_conn_def resolving_conn_def requesting_conn_def greeted_conn_def demo_conn_def
      cur_def demo_machine_def)

lemma trying_addresses: "take 2 (addrs connecting_conn) = demo_addresses"
proof -
  have "take 2 (replicate MAX_ADDRS a) = [a, a]" for a :: sockaddr by (simp add: MAX_ADDRS_def numeral_2_eq_2)
  then show ?thesis by (simp add: trying_fields take_update_swap demo_addresses_def)
qed

lemma trying_worlds:
  "px_world (snd (sr_state (demo_resolved as))) = demo_env_at 2 14 name_rx [5, 0]"
  "px_world (snd (sr_state demo_connecting)) = demo_env_at 2 15 name_rx [5, 0]"
  "dw_next (demo_env_at k n rx tx) = n" "(demo_env_at k n rx tx)\<lparr>dw_next := m\<rparr> = demo_env_at k m rx tx"
  by (simp_all add: demo_resolved_def demo_connecting_def demo_proxy_def demo_env_at_def)

lemma trying_free:
  "regs_of (demo_resolved as) 15 = None" "regs_of demo_connecting 15 = None"
  by (simp_all add: demo_resolved_def demo_connecting_def demo_sel_def demo_sel2_def listening_def sel_map_def
      unused_item_def item_used_def)

section \<open>A management client\<close>

definition demo_sel3 :: "fd_interest \<Rightarrow> nat set \<Rightarrow> nat set \<Rightarrow> (handler, pointer) selector" where
  "demo_sel3 i r w = listening\<lparr>s_fds := (s_fds listening)[13 := entry 13 OP_READ SocksHandler (Some (SocksConn 0)),
       14 := entry 14 OP_READ SocksHandler (Some (SocksConn 0)), 15 := entry 15 i MgmtHandler (Some (MgmtConn 1))],
     s_max_fd := 15, s_master_r := {10, 11, 12, 13, 14} \<union> (if wants OP_READ i then {15} else {}),
     s_master_w := (if wants OP_WRITE i then {15} else {}), s_slave_r := r, s_slave_w := w\<rparr>"

definition managed_env :: "byte list \<Rightarrow> byte list \<Rightarrow> demo_env" where
  "managed_env rx tx = \<lparr>dw_client = 0, dw_next = 16, dw_rx = (\<lambda>_. [])(13 := demo_rx, 15 := rx),
     dw_tx = (\<lambda>_. [])(13 := demo_tx, 15 := tx)\<rparr>"

definition managed_proxy :: "mgmt_conn \<Rightarrow> demo_env \<Rightarrow> demo_env proxy" where
  "managed_proxy m w = (snd (sr_state demo_relaying))\<lparr>px_world := w, px_mgmt := [1 \<mapsto> m], px_next := 2\<rparr>"

lemma managed_accepted:
  "handle_item (handlers demo_os mem mem') 12 (demo_sel2 OP_READ OP_READ {12} {}, snd (sr_state demo_relaying)) =
     Some (demo_sel3 OP_READ {12} {}, managed_proxy (mgmt_new 15) (managed_env [] []))"
  by (simp add: demo_eval demo_sel2_def demo_sel3_def listening_def demo_relaying_def demo_proxy_def managed_proxy_def
    mgmt_passive_accept_def demo_env_at_def managed_env_def fun_upd_idem put_mgmt_def insert_commute)

definition admin_name :: "byte list" where "admin_name = ascii ''admin''"

lemma admin_name_simps [simp]: "length admin_name = 5" "cstr admin_name = admin_name" "field_ok admin_name"
  by (simp_all add: admin_name_def ascii_def of_char_def field_ok_def)

definition mgmt_auth_rx :: "byte list" where
  "mgmt_auth_rx = SMP_VERSION # field_bytes admin_name @ field_bytes admin_name"

definition authenticating :: mgmt_conn where
  "authenticating = (mgmt_new 15)\<lparr>mc_state := MGMT_AUTH_REPLY, mc_auth_ok := True, mc_close_after_write := False,
     mc_rbuf := \<lparr>b_data = mgmt_auth_rx @ replicate 4083 0, b_limit = MGMT_RBUF, b_read = 0, b_write = 0\<rparr>,
     mc_wbuf := \<lparr>b_data = (replicate MGMT_WBUF 0)[0 := 1, 1 := 0], b_limit = MGMT_WBUF, b_read = 0, b_write = 2\<rparr>\<rparr>"

lemma mgmt_auth_read: "demo_script k 15 [] = mgmt_auth_rx"
  by (simp add: demo_script_def mgmt_auth_rx_def field_bytes_def admin_name_def ascii_def SMP_VERSION_def)

lemma mgmt_auth_rx_length [simp]: "length mgmt_auth_rx = 13" "mgmt_auth_rx \<noteq> []"
  by (simp_all add: mgmt_auth_rx_def field_bytes_def)

lemma admin_parsed:
  "parse_auth mgmt_auth_rx user pass = (13, copy_field user admin_name 5, copy_field pass admin_name 5)"
proof -
  have "scan_field (field_bytes admin_name) = Got admin_name []"
    using scan_field_bytes [of admin_name "[]"] by simp
  then show ?thesis
    by (simp add: mgmt_auth_rx_def parse_auth_scan scan_field_bytes, simp add: field_bytes_def)
qed

lemma cstr_updated: "0 < k \<Longrightarrow> cstr ((0 # xs)[k := y]) = []"
  by (cases k) simp_all

lemma admin_accepted:
  assumes "length x = 256"
  shows "strcmp_eq (copy_field x admin_name 5) (cfg_admin_user (sv_cfg session_services))"
    and "strcmp_eq (copy_field x admin_name 5) (cfg_admin_pass (sv_cfg session_services))"
proof -
  have "cstr (cfg_admin_user (sv_cfg session_services)) = admin_name \<and> cstr (cfg_admin_pass (sv_cfg session_services)) = admin_name"
    by (simp add: session_services_def initial_services_def args_default_def Let_def strncpy_def memcpy_at_def config_init_defaults_def
      admin_name_def ascii_def CONFIG_ADMIN_MAX_def replicate_append_same cstr_updated)
  moreover have "cstr (copy_field x admin_name 5) = admin_name"
    using cstr_copy_field [of admin_name x] assms by simp
  ultimately show "strcmp_eq (copy_field x admin_name 5) (cfg_admin_user (sv_cfg session_services))"
    and "strcmp_eq (copy_field x admin_name 5) (cfg_admin_pass (sv_cfg session_services))"
    by (simp_all add: strcmp_eq_def)
qed

lemma managed_authenticated:
  "length mem' = 256 \<Longrightarrow>
   handle_item (handlers demo_os mem mem') 15 (demo_sel3 OP_READ {15} {}, managed_proxy (mgmt_new 15) (managed_env [] [])) =
     Some (demo_sel3 OP_WRITE {15} {}, managed_proxy authenticating (managed_env mgmt_auth_rx []))"
  apply (simp add: demo_eval demo_sel3_def listening_def managed_proxy_def demo_relaying_def demo_proxy_def managed_env_def
    mgmt_read_def attach_mgmt_def get_mgmt_def put_mgmt_def buffer_defs mgmt_new_def MGMT_RBUF_def mgmt_auth_read mgmt_try_process_def
    memcpy_at_def admin_parsed admin_accepted authenticating_def MGMT_WBUF_def insert_Diff_if insert_commute SMP_VERSION_def SMP_AUTH_OK_def 
    cong: if_cong)
  done

definition manager :: mgmt_conn where
  "manager = authenticating\<lparr>mc_state := MGMT_REQUEST, mc_wbuf := (mc_wbuf authenticating)\<lparr>b_write := 0\<rparr>\<rparr>"

lemma auth_reply_sent: "take 2 ((replicate 65536 0)[0 := 1, Suc 0 := 0]) = [1, 0 :: byte]"
proof -
  have "take 2 (replicate 65536 0) = [0, 0 :: byte]"
    by (subst take_replicate) (simp add: numeral_2_eq_2)
  then show ?thesis by (simp add: take_update_swap)
qed

lemma parse_nothing: "parse_request [] r = (0, r)"
  by (simp add: parse_request_def)

lemma managed_answered:
  "handle_item (handlers demo_os mem mem') 15 (demo_sel3 OP_WRITE {} {15}, managed_proxy authenticating (managed_env mgmt_auth_rx [])) =
     Some (demo_sel3 OP_READ {} {15}, managed_proxy manager (managed_env mgmt_auth_rx [1, 0]))"
  by (simp add: demo_eval demo_sel3_def listening_def managed_proxy_def demo_relaying_def demo_proxy_def managed_env_def
    mgmt_write_def attach_mgmt_def get_mgmt_def put_mgmt_def buffer_defs mgmt_new_def mgmt_try_process_def
    authenticating_def insert_Diff_if insert_commute manager_def auth_reply_sent MGMT_WBUF_def parse_nothing
    cong: if_cong)

lemma demo_sel3_fields [simp]:
  "s_jobs (demo_sel3 i r w) = []" "s_max_fd (demo_sel3 i r w) = 15" "numbered (s_fds (demo_sel3 i r w))"
  "s_slave_r (demo_sel3 i r w) = r" "s_slave_w (demo_sel3 i r w) = w"
  "(demo_sel3 i r0 w0)\<lparr>s_slave_r := r, s_slave_w := w\<rparr> = demo_sel3 i r w"
  by (simp_all add: demo_sel3_def listening_def)

definition demo_managing :: "demo_env server" where
  "demo_managing = demo_server (demo_sel3 OP_READ {} {15}) (managed_proxy manager (managed_env mgmt_auth_rx [1, 0]))"

lemma managing_reachable:
  assumes mem: "length mem = SOCKADDR_TO_HUMAN_MIN" "length mem' = 256"
  shows "reachable demo_os mem mem' demo_managing"
proof -
  have r: "reachable demo_os mem mem' (demo_server (demo_sel2 OP_READ OP_READ {} {13}) (snd (sr_state demo_relaying)))"
    using demo_reachable [OF mem(1), of mem'] by (simp add: demo_relaying_def)
  have r: "reachable demo_os mem mem' (demo_server (demo_sel3 OP_READ {12} {}) (managed_proxy (mgmt_new 15) (managed_env [] [])))"
    by (rule demo_round [OF r managed_accepted]) (simp_all add: mem)
  have r: "reachable demo_os mem mem' (demo_server (demo_sel3 OP_WRITE {15} {}) (managed_proxy authenticating (managed_env mgmt_auth_rx [])))"
    by (rule demo_round [OF r managed_authenticated]) (simp_all add: mem)
  show ?thesis unfolding demo_managing_def
    by (rule demo_round [OF r managed_answered]) (simp_all add: mem)
qed

lemma demo_managers: "managers demo_managing = [1 \<mapsto> manager]"
  by (simp add: demo_managing_def managed_proxy_def)

lemma manager_fields:
  "mc_fd manager = 15" "mc_state manager = MGMT_REQUEST" "mc_auth_ok manager" "buf_contents (mc_rbuf manager) = []"
  "buf_room (mc_rbuf manager) = 4096"
  by (simp_all add: manager_def authenticating_def mgmt_new_def buf_contents_def buf_room_def MGMT_RBUF_def)

lemma managing_mem: "length (replicate 256 (0 :: byte)) = 256"
  by simp

lemmas managing_state = demo_os_ok demo_mem managing_reachable [OF demo_mem managing_mem]

end
