(* ===== verification/Spec2Isabelle.thy ===== *)
theory Spec2Isabelle
  imports Client_Main Parser_Engine Logger Shutdown Connecting Sample_Run
begin

text \<open>
  A verification library of a SOCKS5 proxy server with user/password authentication, a POP3 credential
  dissector and a management service with its client (\<open>src/\<close> stands for the directory of the C files).

  \<^bold>\<open>The program.\<close> One thread runs \<open>main\<close> (\<open>src/main.c\<close>): it reads the command line (\<open>src/args.c\<close>), sets up the
  users, the configuration and the counters (\<open>src/users.c\<close>, \<open>src/config.c\<close>, \<open>src/metrics.c\<close>), opens the passive
  sockets and turns the multiplexer (\<open>src/selector.c\<close>) until two signals, or one and no connection left. The
  multiplexer calls the handlers of the listeners, of the SOCKS5 connections (\<open>src/socks5.c\<close>) and of the
  management connections (\<open>src/mgmt.c\<close>). A SOCKS5 connection is a state machine (\<open>src/stm.c\<close>) over two
  buffers (\<open>src/buffer.c\<close>) and three parsers (\<open>src/socks5_parsers.c\<close>); it may resolve a name in a thread of its
  own (\<open>src/dns.c\<close>), whose end is a notification of the multiplexer. \<open>src/client.c\<close> is a second program.

  \<^bold>\<open>The theories\<close>, in the order of their imports, and the code they model:
  \<^item> \<open>Prelude\<close>: bytes, C strings and arrays, numbers as text; \<open>Os\<close>: the system calls, a record of functions over
    a type of worlds that is a parameter everywhere, with the documented behaviour the proofs rely on (\<open>os_ok\<close>,
    \<open>sends_to\<close>, \<open>observes\<close>) and one concrete instance, \<open>demo_os\<close>.
  \<^item> \<open>Buffer\<close> (\<open>buffer.c\<close>), \<open>Incremental\<close> and \<open>Socks5_Parsers\<close> (\<open>socks5_parsers.c\<close>), \<open>Users\<close>, \<open>Config\<close>, \<open>Metrics\<close>,
    \<open>Pop3\<close>, \<open>Netutils\<close>, \<open>Stm\<close>, \<open>Selector\<close>, \<open>Args\<close>, \<open>Parser_Engine\<close> (\<open>parser.c\<close>, \<open>parser_utils.c\<close>): each file by itself.
    A failed assertion, an access outside an array or a call through NULL is \<^const>\<open>None\<close>.
  \<^item> \<open>Mgmt_Protocol\<close> (\<open>smp.h\<close> and the encoding, decoding and execution of commands in \<open>mgmt.c\<close>), \<open>Client\<close> and
    \<open>Client_Main\<close> (\<open>client.c\<close>).
  \<^item> \<open>Proxy_State\<close>: the state of the process, that is the heap of connections as maps from addresses, the pool, the
    services, the log and the world, beside the table of the multiplexer; \<open>Logger\<close> (\<open>logger.c\<close>) says what the
    entries of the log are in bytes. \<open>Socks5\<close>, \<open>Mgmt\<close> and \<open>Main_Loop\<close>: the handlers of \<open>socks5.c\<close> with \<open>dns.c\<close>,
    of \<open>mgmt.c\<close>, and \<open>main.c\<close>, function by function on that state.
  \<^item> \<open>Server_Inv\<close>, \<open>Socks5_Proofs\<close>, \<open>Relay\<close>, \<open>Machine\<close>, \<open>Accept\<close>, \<open>Mgmt_Proofs\<close>, \<open>Server\<close>, \<open>Startup\<close>: the invariant of
    the process (which connection owns which registration, what every connection waits for in every state) and
    that every handler returns and keeps it; the step relation of the whole process and its reachable states.
  \<^item> \<open>Handshake\<close>: the functional behaviour of the messages; \<open>Connecting\<close>: which addresses are tried, in which order
    and with which outcome (\<open>attempts\<close>, \<open>connect_outcome\<close>), and that \<open>start_connection\<close> and the handlers that call
    it refine that; \<open>Shutdown\<close>: the cleanup after the loop; \<open>Sample_Run\<close>: runs
    of the whole server in \<open>demo_os\<close>, which the witnesses use.

  \<^bold>\<open>The interfaces\<close> are locales, interpreted on the definitions of the code: \<open>byte_source\<close> and \<open>byte_sink\<close> (a
  buffer as its readers and writers see it; \<open>src\<close> and \<open>snk\<close> in \<open>Buffer\<close>), \<open>incremental_parser\<close> and
  \<open>buffered_parser\<close> (a parser fed byte by byte; \<open>hello\<close>, \<open>auth\<close>, \<open>request\<close> in \<open>Socks5_Parsers\<close>),
  \<open>credential_store\<close> (\<open>users\<close>), \<open>fd_table\<close> (\<open>fdt\<close> in \<open>Selector\<close>), and \<open>event_client\<close>, the contract
  between the multiplexer and the program whose callbacks it calls (\<open>loop\<close> in \<open>Server\<close>).

  \<^bold>\<open>What is shown.\<close> Of the parts: the parsers do not depend on how the bytes are cut up and accept
  exactly the messages of the protocols; the user table is a finite map of capacity 64; the counters are the
  totals of a history; the dissector reports the credentials of the lines; the commands of the management protocol are
  decoded exactly and have exactly their effect, and the client is a correct peer of it; the jump table is a
  finite map; what is printed stays within its array. Of the whole, in this theory: no turn of the loop
  faults; an origin is only contacted for an authorised client; every connection waits for something; the relay neither
  loses nor reorders bytes; references, counters, replies and registrations are exact; the handshake
  answers as it should; the addresses of a host are tried in order, failed sockets are closed, and the client learns
  the last reason; the shutdown drains and the cleanup leaves nothing behind.

  \<^bold>\<open>Bounds.\<close> The table of the multiplexer has the 1025 slots that \<open>selector_new(1024)\<close> allocates. Loops that
  always end are functions with a measure (for \<open>sock_blocking_write\<close> the bytes left); those that depend on the
  peer (\<open>send_all\<close>, \<open>recv_exact\<close>, \<open>sock_blocking_copy\<close>) are \<open>partial_function\<close>s, and that they return is part of what
  is proved of them. No definition has fuel.

  \<^bold>\<open>Not modelled.\<close> The bodies of system and library calls (sockets, \<open>pselect\<close>, \<open>getaddrinfo\<close>, \<open>getopt\<close>, the clock,
  \<open>malloc\<close>): their results are arguments or functions of \<open>Os\<close>. The delivery of signals: each turn is given
  the value of their counter. Threads: a resolver thread is one step that may happen between two turns, or
  while \<open>pselect\<close> waits; the mutex of the notifications is the atomicity of that step. Messages to the
  user (\<open>usage\<close>, \<open>log_info\<close>, error texts of the client) are left out, and so are the unit tests.
\<close>

section \<open>The running server\<close>



text \<open>C2: Only a client that has been authorised gets an origin: a reachable connection that has an origin
  socket, or for which a name is being resolved, agreed on \<open>NO_AUTH\<close> or passed the check of its
  user and password, and its machine is past \<open>REQUEST_READ\<close>.\<close>

theorem origin_needs_authorisation:
  assumes "os_ok os" and "length mem = SOCKADDR_TO_HUMAN_MIN" and "reachable os mem mem' sr"
    and "conns sr p = Some s" and "0 \<le> origin_fd s \<or> resolving s"
  shows "(nego_method s = SOCKS5_METHOD_NO_AUTH \<or> nego_method s = SOCKS5_METHOD_USERPASS \<and> auth_ok s)
    \<and> REQUEST_READ < cur s"
proof -
  obtain ci oi where s: "conn_regs (regs_of sr) p s ci oi" "ready (cur s) ci oi s"
    using reachable_conn [OF assms(1-4)] by blast
  have "authorised s \<and> REQUEST_READ < cur s"
  proof (cases "resolving s")
    case True
    with s(2) show ?thesis by (simp add: ready_def state_defs)
  next
    case False
    with origin_authorised [OF s] assms(5) show ?thesis by (simp add: state_defs)
  qed
  then show ?thesis by (simp add: authorised_def)
qed

theorem origin_needs_authorisation_witness:
  "(nego_method relaying_conn = SOCKS5_METHOD_NO_AUTH \<or> nego_method relaying_conn = SOCKS5_METHOD_USERPASS \<and> auth_ok relaying_conn)
    \<and> REQUEST_READ < cur relaying_conn"
  by (rule origin_needs_authorisation [OF demo_state, where p = 0]) (simp_all add: demo_conns relaying_conn_fields)



text \<open>C11: The reference count is exact: it is the number of descriptors registered for the connection, which
  are its client's and, if it has one, its origin's. So \<open>socksv5_close\<close> releases a connection exactly
  with its last descriptor. Every registration that carries a connection points to one in use.\<close>

theorem references_exact:
  assumes "os_ok os" and "length mem = SOCKADDR_TO_HUMAN_MIN" and "reachable os mem mem' sr"
    and "conns sr p = Some s"
  shows "references s = card {fd. \<exists>i h. regs_of sr fd = Some (i, h, Some (SocksConn p))}
    \<and> {fd. \<exists>i h. regs_of sr fd = Some (i, h, Some (SocksConn p))} = {client_fd s, origin_fd s} - {-1}"
proof -
  obtain ci oi where s: "conn_regs (regs_of sr) p s ci oi" using reachable_conn [OF assms] by blast
  then have "client_fd s \<noteq> -1" by (simp add: conn_regs_def)
  with s show ?thesis unfolding conn_regs_fds [OF s] by (auto simp: conn_regs_def split: if_splits)
qed

theorem references_exact_witness:
  "references relaying_conn = card {fd. \<exists>i h. regs_of demo_relaying fd = Some (i, h, Some (SocksConn 0))}
    \<and> {fd. \<exists>i h. regs_of demo_relaying fd = Some (i, h, Some (SocksConn 0))} = {client_fd relaying_conn, origin_fd relaying_conn} - {-1}"
  by (rule references_exact [OF demo_state]) (simp add: demo_conns)

text \<open>C12: \<open>current_connections\<close> counts the connections in use; the pool of recycled ones is disjoint from
  them and never holds more than \<open>MAX_POOL\<close>.\<close>

theorem connections_counted:
  assumes "os_ok os" and "length mem = SOCKADDR_TO_HUMAN_MIN" and "reachable os mem mem' sr"
  shows "unat (m_current (sv_metrics (px_services (snd (sr_state sr))))) = card (dom (conns sr))
    \<and> finite (dom (conns sr)) \<and> dom (conns sr) \<inter> set (px_pool (snd (sr_state sr))) = {}
    \<and> length (px_pool (snd (sr_state sr))) \<le> MAX_POOL"
proof -
  note h = reachable_heap [OF assms]
  have "dom (conns sr) \<subseteq> {..<px_next (snd (sr_state sr))}"
    using h by (auto simp: live_def heap_ok_def split: if_splits)
  then have "finite (dom (conns sr))" by (rule finite_subset) simp
  with h show ?thesis by (auto simp: heap_ok_def live_def)
qed

theorem connections_counted_witness:
  "unat (m_current (sv_metrics (px_services (snd (sr_state demo_relaying))))) = card (dom (conns demo_relaying))
    \<and> finite (dom (conns demo_relaying)) \<and> dom (conns demo_relaying) \<inter> set (px_pool (snd (sr_state demo_relaying))) = {}
    \<and> length (px_pool (snd (sr_state demo_relaying))) \<le> MAX_POOL"
  by (rule connections_counted [OF demo_state])



text \<open>C10: Back pressure: a relayed connection is registered for reading from a side exactly while that side has
  not ended its stream and there is room for its bytes, and for writing to a side exactly while bytes
  are buffered for it. So the buffers bound what is taken in, and the loop does not spin.\<close>

theorem relay_back_pressure:
  assumes "os_ok os" and "length mem = SOCKADDR_TO_HUMAN_MIN" and "reachable os mem mem' sr"
    and "conns sr p = Some s" and "cur s = COPY"
  shows "\<exists>ci oi. regs_of sr (client_fd s) = Some (ci, SocksHandler, Some (SocksConn p))
    \<and> regs_of sr (origin_fd s) = Some (oi, SocksHandler, Some (SocksConn p))
    \<and> (wants OP_READ ci \<longleftrightarrow> \<not> client_eof s \<and> buffer_can_write (read_buffer s))
    \<and> (wants OP_WRITE ci \<longleftrightarrow> buf_contents (write_buffer s) \<noteq> [])
    \<and> (wants OP_READ oi \<longleftrightarrow> \<not> origin_eof s \<and> buffer_can_write (write_buffer s))
    \<and> (wants OP_WRITE oi \<longleftrightarrow> buf_contents (read_buffer s) \<noteq> [])"
proof -
  obtain ci oi where s: "conn_ok s" "conn_regs (regs_of sr) p s ci oi" "ready (cur s) ci oi s"
    using reachable_conn [OF assms(1-4)] by blast
  then obtain j where r: "ci = relay_interest (client_eof s) (read_buffer s) (write_buffer s)" "oi = Some j"
    "j = relay_interest (origin_eof s) (write_buffer s) (read_buffer s)"
    using assms(5) by (auto simp: ready_def relaying_def state_defs)
  have wants: "wants OP_READ (relay_interest e a b) \<longleftrightarrow> \<not> e \<and> buffer_can_write a"
    "wants OP_WRITE (relay_interest e a b) \<longleftrightarrow> buffer_can_read b" for e a b
    by (simp_all add: relay_interest_def wants_def op_defs)
  have "regs_of sr (client_fd s) = Some (ci, SocksHandler, Some (SocksConn p))"
    "regs_of sr (origin_fd s) = Some (j, SocksHandler, Some (SocksConn p))"
    using s(2) r(2) by (simp_all add: conn_regs_def)
  then show ?thesis
    using conn_ok_buffers(1,2) [OF s(1)]
    by (intro exI [of _ ci] exI [of _ j]) (simp add: r(1,3) wants buf_can_read)
qed

theorem relay_back_pressure_witness:
  "\<exists>ci oi. regs_of demo_relaying 13 = Some (ci, SocksHandler, Some (SocksConn 0))
    \<and> regs_of demo_relaying 14 = Some (oi, SocksHandler, Some (SocksConn 0)) \<and> wants OP_READ ci \<and> wants OP_READ oi"
  using relay_back_pressure [OF demo_state, where p = 0 and s = relaying_conn]
  by (simp add: demo_conns relaying_conn_fields)
    (auto simp: relaying_conn_def connected_conn_def requesting_conn_def greeted_conn_def demo_conn_def zero_conn_def
      buffer_can_write_def)

text \<open>C18: The memory of every connection in use is in shape: both blocks are allocated with the configured
  size, which is at least \<open>CONFIG_MIN_BUFFER\<close>, the offsets of the buffers built on them are within
  them, and the arrays for names and addresses have their sizes.\<close>

theorem connections_in_shape:
  assumes "os_ok os" and "length mem = SOCKADDR_TO_HUMAN_MIN" and "reachable os mem mem' sr"
    and "conns sr p = Some s" and "b \<in> {read_buffer s, write_buffer s}"
  shows "b_read b \<le> b_write b \<and> b_write b \<le> b_limit b \<and> b_limit b = length (b_data b) \<and> b_limit b = buffer_size s
    \<and> CONFIG_MIN_BUFFER \<le> buffer_size s
    \<and> map_option length (raw_read s) = Some (buffer_size s) \<and> map_option length (raw_write s) = Some (buffer_size s)
    \<and> length (username s) = 256 \<and> length (dest_host s) = 256 \<and> length (addrs s) = MAX_ADDRS \<and> naddrs s \<le> MAX_ADDRS"
proof -
  have "conn_ok s" using reachable_conn [OF assms(1-4)] by blast
  then show ?thesis using assms(5) by (auto simp: conn_ok_def buf_inv_def)
qed

theorem connections_in_shape_witness:
  "b_write (read_buffer relaying_conn) \<le> b_limit (read_buffer relaying_conn)
    \<and> b_limit (read_buffer relaying_conn) = length (b_data (read_buffer relaying_conn))"
  using connections_in_shape [OF demo_state, where p = 0 and s = relaying_conn and b = "read_buffer relaying_conn"]
  by (simp add: demo_conns)

text \<open>C9: The relay neither loses, invents nor reorders bytes: from any reachable relaying state, whatever
  readiness events of the two descriptors follow and whatever they return, what has been received from
  one side in between is exactly what has been sent to the other followed by what is still buffered
  for it (after what was buffered before).\<close>

theorem relay_preserves_bytes:
  assumes "os_ok os" and "length mem = SOCKADDR_TO_HUMAN_MIN" and "reachable os mem mem' sr"
    and "conns sr p = Some s" and "cur s = COPY" and "observes os rx tx"
  shows "\<exists>r st s' up down. relay_run os mem p es (sr_state sr) = Some (r, st) \<and> r \<in> {COPY, DONE} \<and> get_conn p st = Some s'
    \<and> rx (world st) (client_fd s) = rx (world (sr_state sr)) (client_fd s) @ up
    \<and> rx (world st) (origin_fd s) = rx (world (sr_state sr)) (origin_fd s) @ down
    \<and> tx (world st) (origin_fd s) @ buf_contents (read_buffer s')
        = tx (world (sr_state sr)) (origin_fd s) @ buf_contents (read_buffer s) @ up
    \<and> tx (world st) (client_fd s) @ buf_contents (write_buffer s')
        = tx (world (sr_state sr)) (client_fd s) @ buf_contents (write_buffer s) @ down"
proof -
  obtain ls where inv: "server_inv ls (s_jobs (fst (sr_state sr))) (sr_state sr)"
    using reachable_ok [OF assms(1-3)] by (auto simp: server_ok_def)
  have "\<not> resolving s" using reachable_conn [OF assms(1-4)] assms(5) by (auto simp: ready_def state_defs)
  with focusI [OF inv assms(4)] idle_not_notified [OF inv assms(4)] obtain ci oi where
    f: "focus (s_jobs (fst (sr_state sr))) ls (s_jobs (fst (sr_state sr))) p s ci oi (sr_state sr)" "ready COPY ci oi s"
    using assms(5) by auto
  from relay_run_ok [OF assms(1,2,6) f, of es] show ?thesis unfolding moved_def by fast
qed

theorem relay_preserves_bytes_witness:
  "\<exists>r st s' up down. relay_run demo_os (replicate 52 0) 0 [CanRead 14, CanWrite 13, CanRead 13] (sr_state demo_relaying) = Some (r, st)
    \<and> get_conn 0 st = Some s' \<and> dw_rx (world st) 14 = dw_rx (world (sr_state demo_relaying)) 14 @ down
    \<and> dw_tx (world st) 13 @ buf_contents (write_buffer s')
        = dw_tx (world (sr_state demo_relaying)) 13 @ buf_contents (write_buffer relaying_conn) @ down"
  using relay_preserves_bytes [OF demo_state, where p = 0 and s = relaying_conn and rx = dw_rx and tx = dw_tx
    and es = "[CanRead 14, CanWrite 13, CanRead 13]"]
  by (simp add: demo_conns relaying_conn_fields demo_observes) blast

section \<open>The handshake\<close>

text \<open>The connection \<open>p\<close> of a server that waits for a message of the handshake, in focus\<close>

lemma connection_focus:
  assumes "os_ok os" and "length mem = SOCKADDR_TO_HUMAN_MIN" and "reachable os mem mem' sr" and "conns sr p = Some s"
  shows "\<exists>k ls ci oi. focus k ls [] p s ci oi (sr_state sr) \<and> ready (cur s) ci oi s"
proof -
  obtain ls where "server_inv ls (s_jobs (fst (sr_state sr))) (sr_state sr)"
    using reachable_ok [OF assms(1-3)] by (auto simp: server_ok_def)
  then have "server_inv ls [] (sr_state sr)" by (simp add: server_inv_def core_def)
  from focusI [OF this assms(4)] show ?thesis by auto
qed

lemma handshake_focus:
  assumes "os_ok os" and "length mem = SOCKADDR_TO_HUMAN_MIN" and "reachable os mem mem' sr"
    and "conns sr p = Some s" and "cur s \<in> {HELLO_READ, AUTH_READ, REQUEST_READ}"
  shows "\<exists>k ls js. focus k ls js p s OP_READ None (sr_state sr) \<and> \<not> resolving s"
proof -
  obtain k ls ci oi where f: "focus k ls [] p s ci oi (sr_state sr)" "ready (cur s) ci oi s"
    using connection_focus [OF assms(1-4)] by blast
  then have "ci = OP_READ \<and> oi = None \<and> \<not> resolving s" using assms(5) by (auto simp: ready_def state_defs)
  with f(1) show ?thesis by blast
qed





text \<open>C6: The request (RFC 1928): a malformed request is refused with a general failure and a command other than
  \<open>CONNECT\<close> with 7, a complete refusal being in the write buffer; an incomplete one leaves the connection
  waiting for more; for a request that names a host a resolver is started with exactly that name and port, and
  the connection waits for it, or a general failure is answered if none can be started; a literal address is
  tried at once, with the outcome of \<open>connect_outcome\<close>.\<close>

theorem request_answered:
  assumes "os_ok os" and "length mem = SOCKADDR_TO_HUMAN_MIN" and "reachable os mem mem' sr"
    and "conns sr p = Some s" and "cur s = REQUEST_READ"
    and "request s = foldl request_parser_feed (request_parser_init start) seen" and "\<not> request_final (request s)"
    and "length (rp_addr start) = 256"
    and "os_recv os (client_fd s) (buf_room (read_buffer s)) (world (sr_state sr)) = (Inr bs, w)" and "bs \<noteq> []"
    and "os_thread_start os w = (attributes, thread, w')"
  shows "\<exists>st. socksv5_read os mem (fd, Some (SocksConn p)) (sr_state sr) = Some st
    \<and> (let input = seen @ buf_contents (read_buffer s) @ bs;
          refused = (\<lambda>rep. waits_in p REQUEST_WRITE OP_WRITE (\<lambda>s. reply s = rep \<and> buf_contents (write_buffer s) = refusal rep) st) in
       case request_message input of
         Incomplete \<Rightarrow> waits_in p REQUEST_READ OP_READ (\<lambda>s. request s = foldl request_parser_feed (request_parser_init start) input) st
       | Malformed \<Rightarrow> refused SOCKS5_REP_GENERAL_FAILURE
       | Accepted (cmd, atyp, addr, port) rest \<Rightarrow>
           if cmd \<noteq> SOCKS5_CMD_CONNECT then refused SOCKS5_REP_COMMAND_NOT_SUPPORTED
           else if atyp \<noteq> SOCKS5_ATYP_DOMAIN
           then connect_outcome os (regs_of sr) (reply s) [literal_address atyp port addr] p w st
           else if attributes \<and> thread then waits_in p REQUEST_RESOLV OP_NOOP (asks_for (cstr addr) port p) st
           else refused SOCKS5_REP_GENERAL_FAILURE)"
proof -
  obtain k ls js where f: "focus k ls js p s OP_READ None (sr_state sr)" "\<not> resolving s"
    using handshake_focus [OF assms(1-4)] assms(5) by auto
  show ?thesis
  proof (cases "\<exists>atyp addr port rest. request_message (seen @ buf_contents (read_buffer s) @ bs) =
      Accepted (SOCKS5_CMD_CONNECT, atyp, addr, port) rest \<and> atyp \<noteq> SOCKS5_ATYP_DOMAIN")
    case True
    then obtain atyp addr port rest where message: "request_message (seen @ buf_contents (read_buffer s) @ bs) =
      Accepted (SOCKS5_CMD_CONNECT, atyp, addr, port) rest" "atyp \<noteq> SOCKS5_ATYP_DOMAIN" by blast
    from literal_arrives [OF assms(1) f(1) assms(5,9,10,6-8) message, of mem fd] message(2) show ?thesis
      by (simp add: message(1) Let_def)
  next
    case False
    then have kind: "cmd \<noteq> SOCKS5_CMD_CONNECT \<or> atyp = SOCKS5_ATYP_DOMAIN"
      if "request_message (seen @ buf_contents (read_buffer s) @ bs) = Accepted (cmd, atyp, addr, port) rest"
      for cmd atyp addr port rest using that by blast
    from request_arrives [OF f(1) assms(5,1) f(2) assms(9,10,6-8,11) kind, where mem = mem and fd = fd] kind show ?thesis
      unfolding requested_outcome_def Let_def
      by (cases "request_message (seen @ buf_contents (read_buffer s) @ bs)") (auto split del: if_split cong: if_cong)
  qed
qed

theorem request_answered_witness:
  "\<exists>st. socksv5_read demo_os (replicate 52 0) (13, Some (SocksConn 0)) (sr_state demo_requesting) = Some st
    \<and> waits_in 0 REQUEST_RESOLV OP_NOOP (asks_for [65] 80 0) st"
proof -
  have message: "request_message [5, 1, 0, 3, 1, 65, 0, 80] = Accepted (1, 3, [65], 80) []"
    by (simp add: request_tail_def be16_def)
  obtain w where recv: "os_recv demo_os 13 8192 (world (sr_state demo_requesting)) = (Inr [5, 1, 0, 3, 1, 65, 0, 80], w)"
    by (simp add: demo_requesting_def demo_proxy_def demo_env_at_def world_def demo_script_def Let_def)
  have thread: "os_thread_start demo_os w = (True, True, w)" by (simp add: demo_os_def)
  have p0: "length (rp_addr (request zero_conn)) = 256" "\<not> request_final (request_parser_init (request zero_conn))"
    by (simp_all add: zero_conn_def request_final_def request_parser_init_def)
  show ?thesis
    using request_answered [OF requesting_state, where p = 0 and s = requesting_conn and bs = "[5, 1, 0, 3, 1, 65, 0, 80]"
        and seen = "[]" and start = "request zero_conn" and fd = 13, OF _ _ _ _ _ _ _ thread] recv p0
    by (simp add: handshake_conns handshake_fields message SOCKS5_CMD_CONNECT_def SOCKS5_ATYP_DOMAIN_def Let_def
        del: request_message.simps demo_calls)
qed

text \<open>C7: The end of a resolution: if it failed, or gave no IPv4 or IPv6 address, the client is answered that the host
  is unreachable; otherwise the addresses of these families, at most \<open>MAX_ADDRS\<close>, are tried in order up to the first that does not
  fail, each failed socket being closed. If the connection is established the answer is success with the address of the
  socket; if it is in progress the connection waits for it, with the addresses after it left; if all fail the answer is the reason
  of the last failure that has one.\<close>

theorem candidates_tried:
  assumes "os_ok os" and "length mem = SOCKADDR_TO_HUMAN_MIN" and "reachable os mem mem' sr"
    and "conns sr p = Some s" and "cur s = REQUEST_RESOLV"
  shows "\<exists>st. socksv5_block os mem (fd, Some (SocksConn p)) (sr_state sr) = Some st
    \<and> (if resolved_candidates (dns s) = []
       then waits_in p REQUEST_WRITE OP_WRITE (\<lambda>s. reply s = SOCKS5_REP_HOST_UNREACHABLE
         \<and> buf_contents (write_buffer s) = refusal SOCKS5_REP_HOST_UNREACHABLE) st
       else connect_outcome os (regs_of sr) (reply s) (resolved_candidates (dns s)) p (world (sr_state sr)) st)"
proof -
  obtain k ls ci oi where f: "focus k ls [] p s ci oi (sr_state sr)" "ready (cur s) ci oi s"
    using connection_focus [OF assms(1-4)] by blast
  then have "ci = OP_NOOP" "oi = None" using assms(5) by (auto simp: ready_def state_defs)
  with f(1) show ?thesis using resolution_finished [OF assms(1) _ assms(5)] by blast
qed

theorem candidates_tried_witness:
  "\<exists>st. socksv5_block demo_os (replicate 52 0) (13, Some (SocksConn 0))
       (sr_state (demo_resolved (SockOther 80 [0, 0, 0, 0] # SockIn 80 [10, 0, 0, 1] # demo_addresses))) = Some st
    \<and> waits_in 0 REQUEST_CONNECTING OP_NOOP (\<lambda>s. origin_fd s = 15 \<and> candidates_left s = demo_addresses) st"
proof -
  define as where "as = SockOther 80 [0, 0, 0, 0] # SockIn 80 [10, 0, 0, 1] # demo_addresses"
  have tried: "resolved_candidates (dns (resolved_conn as)) = SockIn 80 [10, 0, 0, 1] # demo_addresses"
    by (simp add: resolved_candidates_def trying_fields inet_def demo_addresses_def MAX_ADDRS_def as_def)
  have "attempts demo_os (registrable (regs_of (demo_resolved as))) (SockIn 80 [10, 0, 0, 1] # demo_addresses)
      (world (sr_state (demo_resolved as))) = ([Some SOCKS5_REP_CONNECTION_REFUSED], Some (Pending 15), demo_env_at 2 16 name_rx [5, 0])"
    by (simp add: try_address_def demo_addresses_def trying_worlds trying_free errno_to_reply_def world_def registrable_def
        invalid_fd_def ITEMS_MAX_SIZE_def Let_def)
  moreover have "conns (demo_resolved as) 0 = Some (resolved_conn as)" "cur (resolved_conn as) = REQUEST_RESOLV"
    by (simp_all add: trying_conns trying_fields)
  ultimately show ?thesis
    using candidates_tried [OF demo_os_ok demo_mem resolved_reachable [OF demo_mem, of "[]" as], of 0 "resolved_conn as" 13]
    unfolding tried as_def [symmetric]
    by (simp add: connect_outcome_def del: attempts.simps) (auto simp: Let_def)
qed

text \<open>C8: A connection in progress: when its socket is writable and the connection has been established, the answer is
  success with the address of the socket; otherwise the socket is unregistered and closed, and the addresses that are left are
  tried with the same outcome as at the first time, the reason so far being that of this failure.\<close>

theorem next_candidate_tried:
  assumes "os_ok os" and "length mem = SOCKADDR_TO_HUMAN_MIN" and "reachable os mem mem' sr"
    and "conns sr p = Some s" and "cur s = REQUEST_CONNECTING"
    and "os_so_error os (origin_fd s) (world (sr_state sr)) = (r, w)"
  shows "\<exists>st. socksv5_write os mem (fd, Some (SocksConn p)) (sr_state sr) = Some st
    \<and> (let e = (case r of Inl e \<Rightarrow> e | Inr e \<Rightarrow> e) in
       if e = ENOERROR then origin_reached os p (origin_fd s) w st
       else connect_outcome os ((regs_of sr)(origin_fd s := None)) (errno_to_reply e) (tl (candidates_left s)) p
         (os_close os (origin_fd s) w) st)"
proof -
  obtain k ls ci oi where f: "focus k ls [] p s ci oi (sr_state sr)" "ready (cur s) ci oi s"
    using connection_focus [OF assms(1-4)] by blast
  then have "ci = OP_NOOP" "oi = Some OP_WRITE" using assms(5) by (auto simp: ready_def state_defs)
  with f(1) have "focus k ls [] p s OP_NOOP (Some OP_WRITE) (sr_state sr)" by simp
  from connection_settled [OF assms(1) this assms(5,6) refl] show ?thesis unfolding Let_def .
qed

theorem next_candidate_tried_witness:
  "\<exists>st. socksv5_write demo_os (replicate 52 0) (14, Some (SocksConn 0)) (sr_state demo_connecting) = Some st
    \<and> waits_in 0 REQUEST_WRITE OP_WRITE (\<lambda>s. origin_fd s = 15 \<and> reply s = SOCKS5_REP_SUCCESS) st"
proof -
  have left: "tl (candidates_left connecting_conn) = [SockIn 80 [127, 0, 0, 1]]"
    unfolding candidates_left_def trying_fields(7,8) trying_addresses by (simp add: demo_addresses_def)
  have error: "os_so_error demo_os (origin_fd connecting_conn) (world (sr_state demo_connecting)) =
      (Inr ETIMEDOUT, demo_env_at 2 15 name_rx [5, 0])" by (simp add: trying_worlds world_def)
  have "attempts demo_os (registrable ((regs_of demo_connecting)(14 := None))) [SockIn 80 [127, 0, 0, 1]]
      (demo_env_at 2 15 name_rx [5, 0]) = ([], Some (Established 15), demo_env_at 2 16 name_rx [5, 0])"
    by (simp add: try_address_def trying_worlds trying_free registrable_def invalid_fd_def ITEMS_MAX_SIZE_def Let_def)
  then show ?thesis
    using next_candidate_tried [OF connecting_state _ _ error, of 0 14] left
    by (simp add: trying_conns trying_fields connect_outcome_def origin_reached_def del: attempts.simps) (auto elim: waits_in_mono)
qed

section \<open>Management\<close>



text \<open>C15: Commands over the wire: when the rest of a command arrives at an authenticated management connection,
  however it was cut up before, \<open>mgmt_read\<close> returns, the services are changed exactly as the command
  says, the complete frame of its response is in the write buffer, what follows the command stays in the
  read buffer, and the connection waits for writing.\<close>

theorem management_command:
  assumes "os_ok os" and "length mem = SOCKADDR_TO_HUMAN_MIN" and "reachable os mem mem' sr"
    and "managers sr p = Some m" and "mc_state m = MGMT_REQUEST"
    and "os_recv os (mc_fd m) (buf_room (mc_rbuf m)) (world (sr_state sr)) = (Inr bs, w)" and "bs \<noteq> []"
    and "buf_contents (mc_rbuf m) @ bs = command_bytes c @ rest" and "command_ok c"
  shows "\<exists>st m'. mgmt_read os mem' (mc_fd m, Some (MgmtConn p)) (sr_state sr) = Some st
    \<and> px_mgmt (snd st) p = Some m' \<and> mc_state m' = MGMT_RESPONSE \<and> buf_contents (mc_rbuf m') = rest
    \<and> (let ((status, data), sv) = smp_exec c (px_services (snd (sr_state sr)))
       in px_services (snd st) = sv \<and> buf_contents (mc_wbuf m') = response_bytes (command_code c) status data)
    \<and> sel_map (fst st) (mc_fd m) = Some (OP_WRITE, MgmtHandler, Some (MgmtConn p))"
proof -
  obtain ls where inv: "server_inv ls (s_jobs (fst (sr_state sr))) (sr_state sr)"
    using reachable_ok [OF assms(1-3)] by (auto simp: server_ok_def)
  obtain status data sv where "smp_exec c (px_services (snd (sr_state sr))) = ((status, data), sv)"
    by (metis prod.exhaust)
  with command_read [OF inv assms(4,5,1) assms(6) [unfolded world_def] assms(7-9), of mem'] show ?thesis
    by (auto simp: returns_def executed_def)
qed

theorem management_command_witness:
  "\<exists>st m'. mgmt_read demo_os (replicate 256 0) (15, Some (MgmtConn 1)) (sr_state demo_managing) = Some st
    \<and> px_mgmt (snd st) 1 = Some m' \<and> px_services (snd st) = px_services (snd (sr_state demo_managing))
    \<and> buf_contents (mc_wbuf m') = response_bytes SMP_CMD_METRICS SMP_OK (metrics_data (px_services (snd (sr_state demo_managing))))"
proof -
  have "command_bytes CmdMetrics = [1, 0]" by code_simp
  moreover have "os_recv demo_os 15 4096 (world (sr_state demo_managing)) =
      (Inr [1, 0], (world (sr_state demo_managing))\<lparr>dw_rx := (dw_rx (world (sr_state demo_managing)))(15 := mgmt_auth_rx @ [1, 0])\<rparr>)"
    by (simp add: demo_script_def demo_managing_def world_def managed_proxy_def managed_env_def Let_def)
  ultimately show ?thesis
    using management_command [OF managing_state, where p = 1 and m = manager and c = CmdMetrics and bs = "[1, 0]" and rest = "[]"]
    by (simp add: demo_managers manager_fields) blast
qed

section \<open>Starting and stopping\<close>

text \<open>C16: The first signal starts the graceful shutdown: after the turn that sees it no listener is registered
  any more, and the loop goes on exactly while a connection is in use.\<close>

theorem shutdown_drains:
  assumes "os_ok os" and "length mem = SOCKADDR_TO_HUMAN_MIN" and "reachable os mem mem' sr"
    and "answer = PselectReady r w \<or> answer = PselectError EINTR"
    and "main_round os mem mem' answer 1 sr = Some (go, sr')"
  shows "sr_listeners sr' = [] \<and> (\<nexists>fd i h. regs_of sr' fd = Some (i, h, None))
    \<and> (go \<longleftrightarrow> (\<exists>p s. conns sr' p = Some s))"
proof -
  have ok: "server_ok sr" by (rule reachable_ok [OF assms(1-3)])
  then have ok': "server_ok sr'" using main_round_ok [OF ok assms(1,2), of mem' answer 1] assms(5) by simp
  obtain st where sel: "selector_select (handlers os mem mem') answer (sr_state sr) = Some (SELECTOR_SUCCESS, st)"
  proof -
    obtain ls where "server_inv ls (s_jobs (fst (sr_state sr))) (sr_state sr)" using ok by (auto simp: server_ok_def)
    from select_ok [OF this assms(1,2), of mem' answer]
    obtain q st where "selector_select (handlers os mem mem') answer (sr_state sr) = Some (q, st)" by blast
    moreover from this have "q = SELECTOR_SUCCESS"
      using assms(4) by (auto simp: selector_select_def Let_def option_simps)
    ultimately show thesis using that by simp
  qed
  have down: "sr_shutting_down sr' \<and> go = (m_current (sv_metrics (px_services (snd (sr_state sr')))) \<noteq> 0)"
    using assms(5) sel by (auto simp: main_round_def Let_def option_simps split: if_splits)
  then have empty: "sr_listeners sr' = []" using ok' by (simp add: server_ok_def)
  then have "\<exists>ls. server_inv ls (s_jobs (fst (sr_state sr'))) (sr_state sr') \<and> dom ls = {}"
    using ok' by (auto simp: server_ok_def)
  then obtain ls where inv: "server_inv ls (s_jobs (fst (sr_state sr'))) (sr_state sr')" and "dom ls = {}" by blast
  then have c: "core (regs_of sr') (conns sr') (managers sr') Map.empty (s_jobs (fst (sr_state sr')))"
    and h: "heap_ok (snd (sr_state sr'))"
    by (auto simp: server_inv_def)
  have "dom (conns sr') \<subseteq> {..<px_next (snd (sr_state sr'))}" using h by (auto simp: live_def heap_ok_def split: if_splits)
  then have "finite (dom (conns sr'))" by (rule finite_subset) simp
  then have "m_current (sv_metrics (px_services (snd (sr_state sr')))) = 0 \<longleftrightarrow> dom (conns sr') = {}"
    using h by (simp add: heap_ok_def unat_eq_0 [symmetric])
  with down empty coreD(4) [OF c] show ?thesis by auto
qed

theorem shutdown_drains_witness:
  "\<exists>go sr'. main_round demo_os (replicate 52 0) [] (PselectError EINTR) 1 demo_relaying = Some (go, sr')
    \<and> sr_listeners sr' = [] \<and> (\<nexists>fd i h. regs_of sr' fd = Some (i, h, None)) \<and> (go \<longleftrightarrow> (\<exists>p s. conns sr' p = Some s))"
proof -
  obtain go sr' where r: "main_round demo_os (replicate 52 0) [] (PselectError EINTR) 1 demo_relaying = Some (go, sr')"
    using main_round_ok [OF reachable_ok [OF demo_state] demo_os_ok demo_mem] by blast
  from shutdown_drains [OF demo_state _ this] r show ?thesis by blast
qed

text \<open>C17: When the loop has ended, by the end of the shutdown, a second signal or an error of \<open>pselect\<close>, the
  cleanup returns whatever is still open: no descriptor is registered, no listener, management connection or pooled
  connection is left, no connection counts as current, and the only blocks that are not freed are
  connections whose name is still being resolved.\<close>

theorem cleanup_releases:
  assumes "os_ok os" and "length mem = SOCKADDR_TO_HUMAN_MIN" and "reachable os mem mem' sr"
    and "main_round os mem mem' answer sigcount sr = Some (False, sr')"
  shows "\<exists>sr''. main_cleanup os sr' = Some sr'' \<and> s_fds (fst (sr_state sr'')) = [] \<and> s_jobs (fst (sr_state sr'')) = []
    \<and> managers sr'' = Map.empty \<and> px_pool (snd (sr_state sr'')) = []
    \<and> (\<forall>p. case px_conns (snd (sr_state sr'')) p of None \<Rightarrow> True | Some s \<Rightarrow> resolving s)
    \<and> m_current (sv_metrics (px_services (snd (sr_state sr'')))) = 0"
proof -
  have "server_ok sr'"
    using main_round_ok [OF reachable_ok [OF assms(1-3)] assms(1,2), of mem' answer sigcount] assms(4) by simp
  from main_cleanup_ok [OF this, of os] show ?thesis by (auto simp: all_released_def split: option.split)
qed

lemma cleanup_releases_witness:
  "\<exists>sr' sr''. main_round demo_os (replicate 52 0) [] (PselectError EINTR) 2 demo_relaying = Some (False, sr')
    \<and> main_cleanup demo_os sr' = Some sr'' \<and> s_fds (fst (sr_state sr'')) = [] \<and> managers sr'' = Map.empty"
proof -
  obtain go sr' where r: "main_round demo_os (replicate 52 0) [] (PselectError EINTR) 2 demo_relaying = Some (go, sr')"
    using main_round_ok [OF reachable_ok [OF demo_state] demo_os_ok demo_mem] by blast
  have "\<not> go" using r by (auto simp: main_round_def Let_def option_simps split: if_splits)
  with r have r: "main_round demo_os (replicate 52 0) [] (PselectError EINTR) 2 demo_relaying = Some (False, sr')" by simp
  from cleanup_releases [OF demo_state this] show ?thesis using r by blast
qed

text \<open>C19: The accounts of the command line: for up to \<open>USERS_MAX\<close> options \<open>-u name:password\<close> the server starts
  with exactly these users (of two options with one name the last counts), \<open>users_check\<close> accepts
  exactly their credentials, and the user and password method is required exactly when there is one.\<close>

theorem command_line_accounts:
  assumes "\<forall>up \<in> set ups. account_ok up" and "length ups \<le> USERS_MAX"
  shows "\<exists>args. args_parse (account_opts ups) False = Run args
    \<and> users_map (sv_users (initial_services args)) = map_of (rev ups)
    \<and> (\<forall>u p. users_check (sv_users (initial_services args)) (Some u) (Some p)
          = (map_of (rev ups) (cstr u) = Some (cstr p)))
    \<and> cfg_auth_required (sv_cfg (initial_services args)) = (ups \<noteq> [])"
proof -
  have "ar_nusers args_default = 0" "\<not> ar_require_auth args_default" "accounts args_default = []"
    by (simp_all add: args_default_def accounts_def Let_def)
  with args_accounts [OF args_ok_default _ assms(1)] assms(2) obtain a where
    a: "args_loop (account_opts ups) args_default = Run a" "args_ok a" "ar_nusers a = length ups" "accounts a = ups"
      "\<not> ar_require_auth a" by auto
  let ?raw = "map (\<lambda>u. (au_name u, au_pass u)) (take (ar_nusers a) (ar_users a))"
  have raw: "map (\<lambda>(u, p). (cstr u, cstr p)) ?raw = ups" using a(4) by (simp add: accounts_def comp_def)
  have fields: "\<forall>up \<in> set ?raw. cstring_field (cstr (fst up)) \<and> cstring_field (cstr (snd up))"
  proof
    fix up assume "up \<in> set ?raw"
    then have "(cstr (fst up), cstr (snd up)) \<in> set (map (\<lambda>(u, p). (cstr u, cstr p)) ?raw)" by force
    with assms(1) show "cstring_field (cstr (fst up)) \<and> cstring_field (cstr (snd up))"
      unfolding raw by (auto simp: account_ok_def)
  qed
  have "users_map users_init = Map.empty" by (simp add: users_map_init fun_eq_iff)
  moreover have "length ?raw \<le> USERS_MAX" using arg_cong [OF raw, of length] assms(2) by simp
  ultimately have "users_map (sv_users (initial_services a)) = map_of (rev ups)"
    using add_accounts [OF users_inv_init fields] raw
    by (simp add: initial_services_def Let_def fold_users_accounts)
  moreover have "users_inv (sv_users (initial_services a))"
    using initial_services_inv [of a] by (simp add: services_inv_def)
  moreover have "cfg_auth_required (sv_cfg (initial_services a)) = (ups \<noteq> [])"
    using a(3,5) by (simp add: initial_services_def Let_def)
  ultimately show ?thesis using a(1) users_check_spec by (auto simp: args_parse_def)
qed

theorem command_line_accounts_witness:
  "\<exists>args. args_parse (account_opts [(ascii ''ana'', ascii ''1''), (ascii ''ana'', ascii ''2'')]) False = Run args
    \<and> users_check (sv_users (initial_services args)) (Some (ascii ''ana'')) (Some (ascii ''2''))
    \<and> \<not> users_check (sv_users (initial_services args)) (Some (ascii ''ana'')) (Some (ascii ''1''))"
proof -
  have "\<forall>up \<in> set [(ascii ''ana'', ascii ''1''), (ascii ''ana'', ascii ''2'')]. account_ok up"
    by (simp add: account_ok_def cstring_field_def ascii_def of_char_def)
  from command_line_accounts [OF this] show ?thesis
    by (auto simp: USERS_MAX_def ascii_def of_char_def)
qed

text \<open>C20: Whatever the options are, when the command line is accepted no array of the arguments has been
  overrun: the lengths are those of the structure, at most \<open>USERS_MAX\<close> accounts are counted, every
  string in them is terminated inside its array, and the ports are not zero.\<close>

theorem command_line_bounds:
  assumes "args_parse opts rest = Run args"
  shows "args_ok args \<and> args_text args"
  using assms args_loop_ok [OF _ args_ok_default] args_loop_text [OF _ args_ok_default args_text_default]
  by (auto simp: args_parse_def split: run.splits if_splits)

theorem command_line_bounds_witness:
  "\<exists>args. args_parse [(CHR ''N'', []), (CHR ''p'', ascii ''1081'')] False = Run args \<and> args_ok args \<and> args_text args"
proof -
  have "case args_parse [(CHR ''N'', []), (CHR ''p'', ascii ''1081'')] False of Run a \<Rightarrow> True | Exit n \<Rightarrow> False"
    by code_simp
  then obtain a where a: "args_parse [(CHR ''N'', []), (CHR ''p'', ascii ''1081'')] False = Run a"
    by (auto split: run.splits)
  with command_line_bounds [OF a] show ?thesis by blast
qed

end
